(* ===== verification/Prelude.thy ===== *)
theory Prelude
  imports Main "HOL-Library.State_Monad" "HOL-Library.Sublist"
begin

text \<open>
  Shared vocabulary of the development: the part of Go's string library the
  sources use, decimal numerals, the program logic for handlers (a state monad
  with a tape of injected faults) and the table operations that SQL statements
  are translated to.
\<close>

named_theorems go_defs \<open>definitions of the modelled Go library calls\<close>
named_theorems hoare_rules \<open>introduction rules of the handler logic\<close>
named_theorems run_simps \<open>equations that execute a handler on a world\<close>

section \<open>Strings\<close>

text \<open>
  A Go string is a sequence of bytes, here a \<^typ>\<open>string\<close> (a list of
  8-bit characters). \<open>go_space\<close> is the ASCII part of
  \<^verbatim>\<open>unicode.IsSpace\<close>.
\<close>

definition go_space :: "char \<Rightarrow> bool" where
  "go_space c \<longleftrightarrow> c \<in> {CHR 0x09, CHR 0x0A, CHR 0x0B, CHR 0x0C, CHR 0x0D, CHR '' ''}"

definition trim_space :: "string \<Rightarrow> string" where
  "trim_space s = rev (dropWhile go_space (rev (dropWhile go_space s)))"

definition upper_char :: "char \<Rightarrow> char" where
  "upper_char c = (let n = (of_char c :: nat)
     in if 97 \<le> n \<and> n \<le> 122 then char_of (n - 32) else c)"

definition to_upper :: "string \<Rightarrow> string" where
  "to_upper s = map upper_char s"

definition remove_char :: "char \<Rightarrow> string \<Rightarrow> string" where
  "remove_char c s = filter (\<lambda>x. x \<noteq> c) s"

definition has_prefix :: "string \<Rightarrow> string \<Rightarrow> bool" where
  "has_prefix s p \<longleftrightarrow> take (length p) s = p"

definition trim_prefix :: "string \<Rightarrow> string \<Rightarrow> string" where
  "trim_prefix s p = (if has_prefix s p then drop (length p) s else s)"

text \<open>\<^verbatim>\<open>strings.SplitN(s, sep, 2)\<close> for a one-byte separator.\<close>

definition split2 :: "char \<Rightarrow> string \<Rightarrow> string list" where
  "split2 c s = (let a = takeWhile (\<lambda>x. x \<noteq> c) s; r = dropWhile (\<lambda>x. x \<noteq> c) s
     in case r of [] \<Rightarrow> [s] | _ # b \<Rightarrow> [a, b])"

declare go_space_def [go_defs] trim_space_def [go_defs] upper_char_def [go_defs]
  to_upper_def [go_defs] remove_char_def [go_defs] has_prefix_def [go_defs]
  trim_prefix_def [go_defs] split2_def [go_defs]

lemma has_prefix_append [simp]: "has_prefix (p @ s) p"
  by (simp add: has_prefix_def)

lemma trim_prefix_append [simp]: "trim_prefix (p @ s) p = s"
  by (simp add: trim_prefix_def)

lemma split2_append:
  assumes "c \<notin> set a"
  shows "split2 c (a @ c # b) = [a, b]"
proof -
  have "\<forall>x \<in> set a. x \<noteq> c" using assms by auto
  then have "takeWhile (\<lambda>x. x \<noteq> c) (a @ c # b) = a"
    and "dropWhile (\<lambda>x. x \<noteq> c) (a @ c # b) = c # b"
    by (simp_all add: takeWhile_append2 dropWhile_append2)
  then show ?thesis by (simp add: split2_def)
qed

lemma dropWhile_absent: "dropWhile (\<lambda>x. x \<noteq> c) s = [] \<longleftrightarrow> c \<notin> set s"
  by (induction s) auto

lemma length_split2: "length (split2 c s) = 2 \<longleftrightarrow> c \<in> set s"
proof (cases "dropWhile (\<lambda>x. x \<noteq> c) s")
  case Nil
  with dropWhile_absent have "c \<notin> set s" by force
  then show ?thesis unfolding split2_def Let_def Nil by simp
next
  case (Cons x b)
  then have "c \<in> set s" by (metis dropWhile_absent list.distinct(1))
  then show ?thesis unfolding split2_def Let_def Cons by simp
qed

lemma set_dropWhile_subset: "set (dropWhile P xs) \<subseteq> set xs"
  by (induction xs) auto

lemma set_trim_space: "set (trim_space s) \<subseteq> set s"
  unfolding trim_space_def set_rev
  by (rule subset_trans [OF set_dropWhile_subset]) (simp add: set_dropWhile_subset)

lemma trim_space_Nil [simp]: "trim_space [] = []"
  by (simp add: trim_space_def)

lemma dropWhile_none: "\<forall>x \<in> set s. \<not> P x \<Longrightarrow> dropWhile P s = s"
  by (cases s) simp_all

lemma trim_space_no_space:
  assumes "\<forall>x \<in> set s. \<not> go_space x"
  shows "trim_space s = s"
  using assms by (simp add: trim_space_def dropWhile_none)

section \<open>Decimal numerals\<close>

definition digit :: "nat \<Rightarrow> char" where
  "digit d = char_of (48 + d)"

fun show_nat :: "nat \<Rightarrow> string" where
  "show_nat n = (if n < 10 then [digit n] else show_nat (n div 10) @ [digit (n mod 10)])"

declare show_nat.simps [simp del]

definition undigit :: "char \<Rightarrow> nat" where
  "undigit c = of_char c - 48"

definition read_nat :: "string \<Rightarrow> nat" where
  "read_nat s = foldl (\<lambda>a c. 10 * a + undigit c) 0 s"

lemma undigit_digit [simp]: "d < 10 \<Longrightarrow> undigit (digit d) = d"
  by (simp add: undigit_def digit_def of_char_of)

lemma read_nat_snoc [simp]: "read_nat (s @ [c]) = 10 * read_nat s + undigit c"
  by (simp add: read_nat_def)

lemma read_show_nat [simp]: "read_nat (show_nat n) = n"
proof (induction n rule: show_nat.induct)
  case (1 n)
  show ?case
  proof (cases "n < 10")
    case True
    then show ?thesis by (subst show_nat.simps) (simp add: read_nat_def)
  next
    case False
    with 1 have "read_nat (show_nat (n div 10)) = n div 10" by simp
    with False show ?thesis by (subst show_nat.simps) simp
  qed
qed

lemma show_nat_inj: "show_nat a = show_nat b \<Longrightarrow> a = b"
  by (metis read_show_nat)

lemma show_nat_ne [simp]: "show_nat n \<noteq> []"
  by (subst show_nat.simps) simp

text \<open>Zero padding to a fixed width, as \<^verbatim>\<open>%02d\<close> does.\<close>

definition pad_nat :: "nat \<Rightarrow> nat \<Rightarrow> string" where
  "pad_nat w n = (let s = show_nat n in replicate (w - length s) (digit 0) @ s)"

lemma read_nat_zeros: "read_nat (replicate k (digit 0) @ s) = read_nat s"
proof (induction s rule: rev_induct)
  case Nil
  have "foldl (\<lambda>a c. 10 * a + undigit c) 0 (replicate k (digit 0)) = 0"
    by (induction k) simp_all
  then show ?case by (simp add: read_nat_def)
next
  case (snoc c s)
  then show ?case by (simp flip: append_assoc)
qed

lemma read_pad_nat [simp]: "read_nat (pad_nat w n) = n"
  by (simp add: pad_nat_def Let_def read_nat_zeros)

end
