(* ===== verification/Go_Time.thy ===== *)
theory Go_Time
  imports Prelude
begin

text \<open>
  The part of Go's \<^verbatim>\<open>time\<close> package the sources rely on, in UTC. An instant is
  the number of seconds since 1970-01-01T00:00:00Z as an \<^typ>\<open>int\<close>; the
  sub-second part of a \<^verbatim>\<open>time.Time\<close> is abstracted. A civil date is year, month
  and day of the proleptic Gregorian calendar. \<open>go_date\<close> is
  \<^verbatim>\<open>time.Date\<close> with its normalisation of months and days, \<open>civil_of\<close> is
  \<^verbatim>\<open>t.Date()\<close>, \<open>add_days\<close> is \<^verbatim>\<open>t.AddDate(0, 0, n)\<close>. The main facts
  are that \<open>civil_of\<close> inverts the day count and that both are monotone.
\<close>

type_synonym instant = int

abbreviation secs_per_day :: int where
  "secs_per_day \<equiv> 86400"

datatype civil = Civil (c_year: int) (c_month: int) (c_day: int)

instantiation civil :: linorder
begin

definition less_eq_civil :: "civil \<Rightarrow> civil \<Rightarrow> bool" where
  "less_eq_civil a b \<longleftrightarrow> c_year a < c_year b \<or> c_year a = c_year b \<and>
     (c_month a < c_month b \<or> c_month a = c_month b \<and> c_day a \<le> c_day b)"

definition less_civil :: "civil \<Rightarrow> civil \<Rightarrow> bool" where
  "less_civil a b \<longleftrightarrow> a \<le> b \<and> \<not> b \<le> (a::civil)"

instance
  by standard (auto simp: less_eq_civil_def less_civil_def civil.expand)

end

section \<open>The calendar\<close>

definition leap :: "int \<Rightarrow> bool" where
  "leap y \<longleftrightarrow> y mod 4 = 0 \<and> (y mod 100 \<noteq> 0 \<or> y mod 400 = 0)"

definition month_len :: "int \<Rightarrow> int \<Rightarrow> int" where
  "month_len y m = (if m = 2 then (if leap y then 29 else 28)
     else if m = 4 \<or> m = 6 \<or> m = 9 \<or> m = 11 then 30 else 31)"

text \<open>Days before 1 January of year \<open>y\<close>, counted from 0001-01-01.\<close>

definition days_before_year :: "int \<Rightarrow> int" where
  "days_before_year y = 365 * (y - 1) + (y - 1) div 4 - (y - 1) div 100 + (y - 1) div 400"

definition days_before_month :: "int \<Rightarrow> int \<Rightarrow> int" where
  "days_before_month y m = (let l = (if leap y then 1 else 0) in
     if m \<le> 1 then 0 else if m = 2 then 31 else if m = 3 then 59 + l
     else if m = 4 then 90 + l else if m = 5 then 120 + l else if m = 6 then 151 + l
     else if m = 7 then 181 + l else if m = 8 then 212 + l else if m = 9 then 243 + l
     else if m = 10 then 273 + l else if m = 11 then 304 + l else 334 + l)"

text \<open>The day number of a date, 0 for 1970-01-01.\<close>

definition day_number :: "int \<Rightarrow> int \<Rightarrow> int \<Rightarrow> int" where
  "day_number y m d = days_before_year y + days_before_month y m + d - 719163"

definition valid_civil :: "civil \<Rightarrow> bool" where
  "valid_civil c \<longleftrightarrow> 1 \<le> c_month c \<and> c_month c \<le> 12 \<and> 1 \<le> c_day c
     \<and> c_day c \<le> month_len (c_year c) (c_month c)"

text \<open>From a day number back to the date: estimate the year, correct it by one,
  then walk the months.\<close>

definition year_of :: "int \<Rightarrow> int" where
  "year_of n = (let k = n + 719162; y = 400 * k div 146097 + 1 in
     if k < days_before_year y then y - 1
     else if days_before_year (y + 1) \<le> k then y + 1 else y)"

definition month_of :: "int \<Rightarrow> int \<Rightarrow> int" where
  "month_of y k = (let l = (if leap y then 1 else 0) in
     if k < 31 then 1 else if k < 59 + l then 2 else if k < 90 + l then 3
     else if k < 120 + l then 4 else if k < 151 + l then 5 else if k < 181 + l then 6
     else if k < 212 + l then 7 else if k < 243 + l then 8 else if k < 273 + l then 9
     else if k < 304 + l then 10 else if k < 334 + l then 11 else 12)"

definition civil_of :: "int \<Rightarrow> civil" where
  "civil_of n = (let y = year_of n; k = n + 719162 - days_before_year y; m = month_of y k
     in Civil y m (k - days_before_month y m + 1))"

text \<open>\<^verbatim>\<open>time.Date(y, m, d, clock...)\<close>: a month outside 1..12 rolls the year, a
  day outside the month is counted on.\<close>

definition go_date :: "int \<Rightarrow> int \<Rightarrow> int \<Rightarrow> int \<Rightarrow> instant" where
  "go_date y m d clock =
     (let m' = m - 1; y' = y + m' div 12; mm = m' mod 12 + 1
      in secs_per_day * day_number y' mm d + clock)"

definition day_of :: "instant \<Rightarrow> int" where "day_of t = t div secs_per_day"
definition clock_of :: "instant \<Rightarrow> int" where "clock_of t = t mod secs_per_day"
definition date_of :: "instant \<Rightarrow> civil" where "date_of t = civil_of (day_of t)"

text \<open>\<^verbatim>\<open>t.AddDate(0, 0, n)\<close> and \<^verbatim>\<open>t.Add(n * 24 * time.Hour)\<close> agree in UTC.\<close>

definition add_days :: "instant \<Rightarrow> int \<Rightarrow> instant" where
  "add_days t n = t + secs_per_day * n"

definition add_date :: "instant \<Rightarrow> int \<Rightarrow> int \<Rightarrow> int \<Rightarrow> instant" where
  "add_date t dy dm dd = (let c = date_of t
     in go_date (c_year c + dy) (c_month c + dm) (c_day c + dd) (clock_of t))"

text \<open>A value read back from a PostgreSQL DATE column is midnight of its day.\<close>

definition midnight :: "int \<Rightarrow> instant" where
  "midnight n = secs_per_day * n"

section \<open>Facts about the calendar\<close>

lemma div_pred:
  assumes "0 < n"
  shows "(y::int) div n = (y - 1) div n + (if y mod n = 0 then 1 else 0)"
proof (cases "y mod n = 0")
  case True
  then obtain q where "y = n * q" by (auto simp: mod_eq_0_iff_dvd)
  moreover have "(n * q - 1) div n = q - 1"
    using assms by (intro int_div_pos_eq [where r = "n - 1"]) (simp_all add: algebra_simps)
  ultimately show ?thesis using assms by simp
next
  case False
  with assms have "0 < y mod n" "y mod n < n"
    by (simp_all add: le_neq_trans)
  then have "(y - 1) div n = y div n"
    using mult_div_mod_eq [of n y] by (intro int_div_pos_eq [where r = "y mod n - 1"]) simp_all
  with False show ?thesis by simp
qed

lemma mult_div_bounds:
  assumes "0 < n"
  shows "n * (z div n) \<le> z \<and> z \<le> n * (z div n) + (n - 1 :: int)"
  using assms mult_div_mod_eq [of n z] pos_mod_bound [of n z] pos_mod_sign [of n z] by linarith

lemma days_before_year_step:
  "days_before_year (y + 1) = days_before_year y + (if leap y then 366 else 365)"
proof -
  have d1: "y mod 100 = 0" if "y mod 400 = 0"
    using that mod_mod_cancel [of 100 400 y] by simp
  have d2: "y mod 4 = 0" if "y mod 100 = 0"
    using that mod_mod_cancel [of 4 100 y] by simp
  have "days_before_year (y + 1) = days_before_year y + 365 + (if y mod 4 = 0 then 1 else 0)
      - (if y mod 100 = 0 then 1 else 0) + (if y mod 400 = 0 then 1 else 0)"
  proof -
    define p q r where "p = (y - 1) div 4" and "q = (y - 1) div 100" and "r = (y - 1) div 400"
    define i j k where "i = (if y mod 4 = 0 then 1 else 0 :: int)"
      and "j = (if y mod 100 = 0 then 1 else 0 :: int)" and "k = (if y mod 400 = 0 then 1 else 0 :: int)"
    have "y div 4 = p + i" "y div 100 = q + j" "y div 400 = r + k"
      unfolding p_def q_def r_def i_def j_def k_def by (rule div_pred; simp)+
    then have "days_before_year (y + 1) = 365 * y + (p + i) - (q + j) + (r + k)"
      by (simp add: days_before_year_def)
    moreover have "days_before_year y = 365 * (y - 1) + p - q + r"
      by (simp only: days_before_year_def p_def q_def r_def)
    ultimately have "days_before_year (y + 1) = days_before_year y + 365 + i - j + k"
      by (simp only: algebra_simps)
    then show ?thesis by (simp only: i_def j_def k_def)
  qed
  with d1 d2 show ?thesis
    by (cases "y mod 4 = 0"; cases "y mod 100 = 0"; cases "y mod 400 = 0")
      (simp_all add: leap_def)
qed

lemma days_before_year_bounds:
  "400 * days_before_year y \<le> 146097 * y - 145701"
  "146097 * y \<le> 400 * days_before_year y + 146796"
proof -
  define z where "z = y - 1"
  obtain a b c where abc: "a = z div 4" "b = z div 100" "c = z div 400" by blast
  have q: "4 * a \<le> z" "z \<le> 4 * a + 3" "100 * b \<le> z" "z \<le> 100 * b + 99"
    "400 * c \<le> z" "z \<le> 400 * c + 399"
    using mult_div_bounds [of 4 z] mult_div_bounds [of 100 z] mult_div_bounds [of 400 z]
    by (simp_all add: abc)
  have e: "400 * days_before_year y = 146000 * z + 400 * a - 400 * b + 400 * c"
    by (simp add: days_before_year_def z_def abc algebra_simps)
  show "400 * days_before_year y \<le> 146097 * y - 145701"
    using q e z_def by linarith
  show "146097 * y \<le> 400 * days_before_year y + 146796"
    using q e z_def by linarith
qed

lemma year_of_bounds:
  "days_before_year (year_of n) \<le> n + 719162"
  "n + 719162 < days_before_year (year_of n + 1)"
proof -
  define k where "k = n + 719162"
  define y where "y = 400 * k div 146097 + 1"
  have lo: "146097 * y - 146097 \<le> 400 * k" and hi: "400 * k < 146097 * y"
    using mult_div_bounds [of 146097 "400 * k"] by (simp_all add: y_def algebra_simps)
  have "days_before_year (y - 1) \<le> k"
    using days_before_year_bounds(1) [of "y - 1"] lo by (simp add: algebra_simps)
  moreover have "k < days_before_year (y + 2)"
    using days_before_year_bounds(2) [of "y + 2"] hi by (simp add: algebra_simps)
  ultimately show "days_before_year (year_of n) \<le> n + 719162"
    "n + 719162 < days_before_year (year_of n + 1)"
    by (simp_all add: year_of_def Let_def k_def y_def add.commute add.left_commute)
qed

lemma days_before_year_mono: "a \<le> b \<Longrightarrow> days_before_year a \<le> days_before_year b"
proof (induction rule: int_ge_induct)
  case base
  show ?case by simp
next
  case (step i)
  then show ?case using days_before_year_step [of i] by (auto split: if_splits)
qed

lemma year_of_unique:
  assumes "days_before_year y \<le> n + 719162" "n + 719162 < days_before_year (y + 1)"
  shows "year_of n = y"
proof (rule ccontr)
  assume "year_of n \<noteq> y"
  then consider "year_of n + 1 \<le> y" | "y + 1 \<le> year_of n" by linarith
  then show False
  proof cases
    case 1
    from days_before_year_mono [OF this] year_of_bounds [of n] assms show False by linarith
  next
    case 2
    from days_before_year_mono [OF this] year_of_bounds [of n] assms show False by linarith
  qed
qed

lemmas month_defs = month_len_def days_before_month_def month_of_def Let_def

lemma month_of_range: "1 \<le> month_of y k \<and> month_of y k \<le> 12"
  by (simp add: month_of_def Let_def)

lemma month_of_bounds:
  assumes "0 \<le> k" "k < (if leap y then 366 else 365)"
  shows "days_before_month y (month_of y k) \<le> k"
    "k < days_before_month y (month_of y k) + month_len y (month_of y k)"
  using assms by (simp_all add: month_defs split: if_splits)

lemma month_cases:
  assumes "1 \<le> m" "m \<le> (12::int)"
  obtains "m = 1" | "m = 2" | "m = 3" | "m = 4" | "m = 5" | "m = 6" | "m = 7" | "m = 8"
    | "m = 9" | "m = 10" | "m = 11" | "m = 12"
  using assms by (smt (verit))

lemma month_of_unique:
  assumes "1 \<le> m" "m \<le> 12" "days_before_month y m \<le> k"
    "k < days_before_month y m + month_len y m"
  shows "month_of y k = m"
  using assms(1,2) by (rule month_cases)
    (use assms(3,4) in \<open>auto simp: month_defs split: if_splits\<close>)

lemma days_in_year:
  assumes "1 \<le> m" "m \<le> 12"
  shows "0 \<le> days_before_month y m"
    "days_before_month y m + month_len y m \<le> (if leap y then 366 else 365)"
  using assms(1,2) by (rule month_cases, auto simp: month_defs)+


lemma civil_of_bounds:
  fixes n defines "y \<equiv> year_of n" defines "k \<equiv> n + 719162 - days_before_year y"
  shows "0 \<le> k" "k < (if leap y then 366 else 365)"
  using year_of_bounds [of n] days_before_year_step [of y] by (simp_all add: y_def k_def)

lemma valid_civil_of: "valid_civil (civil_of n)"
  using month_of_range month_of_bounds [OF civil_of_bounds [of n]]
  by (simp add: valid_civil_def civil_of_def Let_def)

lemma day_number_civil_of:
  "day_number (c_year (civil_of n)) (c_month (civil_of n)) (c_day (civil_of n)) = n"
  by (simp add: civil_of_def day_number_def Let_def)

lemma civil_of_day_number:
  assumes "valid_civil (Civil y m d)"
  shows "civil_of (day_number y m d) = Civil y m d"
proof -
  from assms have m: "1 \<le> m" "m \<le> 12" and d: "1 \<le> d" "d \<le> month_len y m"
    by (simp_all add: valid_civil_def)
  define k where "k = days_before_month y m + d - 1"
  have eq: "day_number y m d + 719162 = days_before_year y + k"
    by (simp add: day_number_def k_def)
  have "year_of (day_number y m d) = y"
    using days_in_year [OF m, of y] d days_before_year_step [of y] eq
    by (intro year_of_unique) (auto simp: k_def split: if_splits)
  moreover have "month_of y k = m"
    using m d by (intro month_of_unique) (simp_all add: k_def)
  ultimately show ?thesis
    using eq by (simp add: civil_of_def Let_def) (simp add: k_def)
qed

lemma civil_of_inj: "civil_of a = civil_of b \<Longrightarrow> a = b"
  by (metis day_number_civil_of)

lemma month_len_bounds: "28 \<le> month_len y m" "month_len y m \<le> 31"
  by (auto simp: month_len_def)

lemma days_before_month_step:
  assumes "1 \<le> m" "m < 12"
  shows "days_before_month y (m + 1) = days_before_month y m + month_len y m"
proof -
  from assms have "m \<le> 12" by simp
  with \<open>1 \<le> m\<close> show ?thesis
    by (rule month_cases) (use assms in \<open>auto simp: month_defs\<close>)
qed

lemma days_before_month_mono:
  assumes "a \<le> b" "1 \<le> a" "b \<le> 12"
  shows "days_before_month y a \<le> days_before_month y b"
  using assms
proof (induction rule: int_ge_induct)
  case base
  show ?case by simp
next
  case (step i)
  then show ?case
    using days_before_month_step [of i y] month_len_bounds(1) [of y i] by simp
qed

text \<open>The day count is strictly increasing in the date.\<close>

lemma day_number_less:
  assumes "valid_civil a" "valid_civil b" "a < b"
  shows "day_number (c_year a) (c_month a) (c_day a) < day_number (c_year b) (c_month b) (c_day b)"
proof -
  let ?k = "\<lambda>c. days_before_month (c_year c) (c_month c) + c_day c"
  have k: "1 \<le> ?k c" "?k c \<le> (if leap (c_year c) then 366 else 365)" if "valid_civil c" for c
    using that days_in_year [of "c_month c" "c_year c"] by (auto simp: valid_civil_def)
  consider "c_year a < c_year b" | "c_year a = c_year b" "c_month a < c_month b"
    | "c_year a = c_year b" "c_month a = c_month b" "c_day a < c_day b"
    using assms(3) by (auto simp: less_civil_def less_eq_civil_def)
  then show ?thesis
  proof cases
    case 1
    then have "days_before_year (c_year a + 1) \<le> days_before_year (c_year b)"
      by (intro days_before_year_mono) simp
    with k [OF assms(1)] k [OF assms(2)] days_before_year_step [of "c_year a"] show ?thesis
      by (simp add: day_number_def split: if_splits)
  next
    case 2
    with assms(1,2) have "days_before_month (c_year a) (c_month a + 1)
        \<le> days_before_month (c_year a) (c_month b)"
      by (intro days_before_month_mono) (simp_all add: valid_civil_def)
    with 2 assms(1,2) days_before_month_step [of "c_month a" "c_year a"] show ?thesis
      by (simp add: day_number_def valid_civil_def)
  next
    case 3
    then show ?thesis by (simp add: day_number_def)
  qed
qed

lemma civil_of_mono: "a < b \<Longrightarrow> civil_of a < civil_of b"
  using day_number_less [OF valid_civil_of [of b] valid_civil_of [of a]]
  by (metis day_number_civil_of linorder_less_linear not_less_iff_gr_or_eq)

lemma day_clock: "secs_per_day * day_of t + clock_of t = t"
  by (simp add: day_of_def clock_of_def)

lemma clock_range: "0 \<le> clock_of t" "clock_of t < secs_per_day"
  by (simp_all add: clock_of_def)

lemma midnight_le: "midnight (day_of t) \<le> t" and midnight_gt: "t < midnight (day_of t) + secs_per_day"
  using day_clock [of t] clock_range [of t] by (simp_all add: midnight_def)

lemma day_of_midnight [simp]: "day_of (midnight n) = n"
  by (simp add: day_of_def midnight_def)

lemma midnight_mono: "a \<le> b \<Longrightarrow> midnight a \<le> midnight b"
  by (simp add: midnight_def)

lemma day_of_mono: "a \<le> b \<Longrightarrow> day_of a \<le> day_of b"
  by (simp add: day_of_def zdiv_mono1)

lemma go_date_day: "0 \<le> clk \<Longrightarrow> clk < secs_per_day \<Longrightarrow> 1 \<le> m \<Longrightarrow> m \<le> 12 \<Longrightarrow>
    day_of (go_date y m d clk) = day_number y m d"
  by (simp add: go_date_def day_of_def Let_def)

lemma go_date_clock: "0 \<le> clk \<Longrightarrow> clk < secs_per_day \<Longrightarrow> clock_of (go_date y m d clk) = clk"
  by (simp add: go_date_def clock_of_def Let_def)

text \<open>In UTC, \<^verbatim>\<open>AddDate(0, 0, n)\<close> is an addition of \<open>n\<close> days.\<close>

lemma add_date_days: "add_date t 0 0 n = add_days t n"
proof -
  define c where "c = civil_of (day_of t)"
  have "valid_civil c" and n: "day_number (c_year c) (c_month c) (c_day c) = day_of t"
    by (simp_all add: c_def valid_civil_of day_number_civil_of)
  then have m: "(c_month c - 1) div 12 = 0" "(c_month c - 1) mod 12 = c_month c - 1"
    by (simp_all add: valid_civil_def)
  have "day_number (c_year c) (c_month c) (c_day c + n) = day_of t + n"
    using n by (simp add: day_number_def)
  with m day_clock [of t] show ?thesis
    by (simp add: add_date_def date_of_def c_def [symmetric] go_date_def add_days_def Let_def
      algebra_simps)
qed

lemma add_days_0 [simp]: "add_days t 0 = t" and add_days_add: "add_days (add_days t a) b = add_days t (a + b)"
  by (simp_all add: add_days_def)

lemma add_days_midnight: "add_days (midnight n) k = midnight (n + k)"
  by (simp add: add_days_def midnight_def algebra_simps)

lemma add_days_less_iff [simp]: "add_days t a < add_days u a \<longleftrightarrow> t < u"
  and add_days_le_iff [simp]: "add_days t a \<le> add_days u a \<longleftrightarrow> t \<le> u"
  by (simp_all add: add_days_def)

section \<open>Layouts\<close>

text \<open>\<^verbatim>\<open>Format("2006-01-02")\<close>. A year before 0 does not occur here; \<^term>\<open>nat\<close>
  maps it to 0.\<close>

definition fmt_iso :: "instant \<Rightarrow> string" where
  "fmt_iso t = (let c = date_of t in pad_nat 4 (nat (c_year c)) @ ''-'' @
     pad_nat 2 (nat (c_month c)) @ ''-'' @ pad_nat 2 (nat (c_day c)))"

text \<open>\<^verbatim>\<open>Format("02.01.2006")\<close>.\<close>

definition fmt_german :: "instant \<Rightarrow> string" where
  "fmt_german t = (let c = date_of t in pad_nat 2 (nat (c_day c)) @ ''.'' @
     pad_nat 2 (nat (c_month c)) @ ''.'' @ pad_nat 4 (nat (c_year c)))"

lemma fmt_examples:
  "fmt_iso 0 = ''1970-01-01''" "fmt_iso 951782400 = ''2000-02-29''"
  "fmt_german 1709164800 = ''29.02.2024''"
  by code_simp+

end
