(* ===== verification/License_Core.thy ===== *)
theory License_Core
  imports Prelude Go_Time
begin

text \<open>
  The licence decision of an instance (\<^verbatim>\<open>internal/license/license.go\<close> and
  \<^verbatim>\<open>middleware.go\<close>): the licence record, the feature catalogue, \<open>Has\<close>,
  \<open>HasReadOnly\<close>, \<open>IsPro\<close> and the one gate \<open>Allows\<close>. A nil licence
  pointer is \<^term>\<open>None\<close>.
\<close>

section \<open>Features and tiers\<close>

definition allFeatures :: "string list" where
  "allFeatures = [''tisax'', ''dora'', ''eu_ai_act'', ''cra'', ''ai_advisor'', ''audit_pdf'',
     ''sso'', ''api_access'', ''vaktaware_advanced'', ''vaktscan_advanced'',
     ''vaktvault_advanced'', ''vaktprivacy_advanced'', ''bsi_grundschutz'', ''iso_42001'',
     ''granular_permissions'', ''supplier_portal'', ''nis2_reporting'', ''saml_auth'',
     ''scim_provisioning'', ''siem_export'', ''agent_write_tools'', ''multi_framework'']"

text \<open>\<^verbatim>\<open>AllFeatures\<close> returns a copy of the list; a value needs no copying.\<close>

definition AllFeatures :: "string list" where
  "AllFeatures = allFeatures"

definition legacyProFeatures :: "string list" where
  "legacyProFeatures = [''bsi_grundschutz'', ''vaktvault_advanced'', ''vaktprivacy_advanced'',
     ''agent_write_tools'']"

definition ProTier :: "string list" where
  "ProTier = [''eu_ai_act'', ''cra'', ''ai_advisor'', ''audit_pdf'', ''sso'', ''api_access'',
     ''vaktaware_advanced'', ''vaktscan_advanced'', ''vaktvault_advanced'',
     ''vaktprivacy_advanced'', ''bsi_grundschutz'', ''granular_permissions'',
     ''supplier_portal'', ''nis2_reporting'', ''saml_auth'', ''agent_write_tools'',
     ''scim_provisioning'', ''siem_export'', ''multi_framework'']"

definition UnsoldFeatures :: "string list" where
  "UnsoldFeatures = [''tisax'', ''dora'', ''iso_42001'']"

definition sellableTiers :: "string list" where
  "sellableTiers = [''community'', ''pro'']"

definition KnownTier :: "string \<Rightarrow> bool" where
  "KnownTier tier \<longleftrightarrow> tier \<in> set sellableTiers"

section \<open>The licence\<close>

record license =
  l_tier :: string
  l_features :: "string list"
  l_org :: string
  l_issued :: instant
  l_expires :: "instant option"
  l_demo :: bool
  l_token :: string
  l_expired :: bool

definition communityLicense :: "instant \<Rightarrow> license" where
  "communityLicense t = \<lparr>l_tier = ''community'', l_features = [], l_org = '''', l_issued = t,
     l_expires = None, l_demo = False, l_token = '''', l_expired = False\<rparr>"

definition demoLicense :: "instant \<Rightarrow> license" where
  "demoLicense t = \<lparr>l_tier = ''pro'', l_features = allFeatures, l_org = ''Demo'', l_issued = t,
     l_expires = None, l_demo = True, l_token = '''', l_expired = False\<rparr>"

definition IsPro :: "license option \<Rightarrow> bool" where
  "IsPro lic = (case lic of None \<Rightarrow> False
     | Some l \<Rightarrow> if l_expired l then False else l_demo l \<or> l_tier l = ''pro'')"

definition Has :: "license option \<Rightarrow> string \<Rightarrow> bool" where
  "Has lic feature = (case lic of None \<Rightarrow> False
     | Some l \<Rightarrow>
         if l_demo l then True
         else if l_expired l then False
         else if feature \<in> set (l_features l) then True
         else if IsPro lic \<and> feature \<in> set legacyProFeatures then True
         else False)"

definition HasReadOnly :: "license option \<Rightarrow> string \<Rightarrow> bool" where
  "HasReadOnly lic feature = (case lic of None \<Rightarrow> False
     | Some l \<Rightarrow>
         if Has lic feature then True
         else if \<not> l_expired l then False
         else if l_tier l \<noteq> ''pro'' then False
         else if feature \<in> set (l_features l) then True
         else if feature \<in> set legacyProFeatures then True
         else if length (l_features l) = 0 \<and> feature \<in> set allFeatures then True
         else False)"

definition isReadMethod :: "string \<Rightarrow> bool" where
  "isReadMethod m \<longleftrightarrow> m = ''GET'' \<or> m = ''HEAD''"

definition Allows :: "license option \<Rightarrow> string \<Rightarrow> string \<Rightarrow> bool" where
  "Allows lic method feature = (case lic of None \<Rightarrow> False
     | Some l \<Rightarrow> if Has lic feature then True
         else l_expired l \<and> isReadMethod method \<and> HasReadOnly lic feature)"

text \<open>\<^verbatim>\<open>Load\<close>, with \<^verbatim>\<open>parse\<close> (see \<^verbatim>\<open>License_Key\<close>) as an argument: any error
  falls back to the community licence.\<close>

definition Load :: "(string \<Rightarrow> 'e + license) \<Rightarrow> instant \<Rightarrow> string \<Rightarrow> bool \<Rightarrow> license" where
  "Load prs t key isDemo =
     (if isDemo then demoLicense t
      else if key = '''' then communityLicense t
      else case prs key of Inl _ \<Rightarrow> communityLicense t | Inr l \<Rightarrow> l)"

section \<open>What the gate decides\<close>

lemmas gate_defs = Allows_def Has_def HasReadOnly_def IsPro_def

text \<open>The features a licence covers, as one set: listed, implicit for pro, or (for an
  old pro key without a list) the whole catalogue.\<close>

definition live_features :: "license \<Rightarrow> string set" where
  "live_features l = set (l_features l) \<union> (if l_tier l = ''pro'' then set legacyProFeatures else {})"

definition readable_features :: "license \<Rightarrow> string set" where
  "readable_features l = (if l_tier l = ''pro'' then live_features l \<union>
     (if l_features l = [] then set allFeatures else {}) else {})"

lemma Has_iff: "Has (Some l) f \<longleftrightarrow> l_demo l \<or> \<not> l_expired l \<and> f \<in> live_features l"
  by (auto simp: gate_defs live_features_def)

lemma Allows_iff: "Allows (Some l) m f \<longleftrightarrow> l_demo l
    \<or> \<not> l_expired l \<and> f \<in> live_features l
    \<or> l_expired l \<and> isReadMethod m \<and> f \<in> readable_features l"
  by (auto simp: gate_defs live_features_def readable_features_def)

lemma Allows_None [simp]: "\<not> Allows None m f"
  by (simp add: Allows_def)

lemma live_subset_readable: "l_tier l = ''pro'' \<Longrightarrow> live_features l \<subseteq> readable_features l"
  by (auto simp: readable_features_def)

text \<open>the gate is exactly the documented decision table: demo, or live and covered,
  or expired and only reading something the pro tier covers.\<close>

theorem Allows_table:
  "Allows lic m f \<longleftrightarrow> (\<exists>l. lic = Some l \<and>
     (if l_demo l then True
      else if \<not> l_expired l then f \<in> live_features l
      else isReadMethod m \<and> f \<in> readable_features l))"
  by (cases lic) (auto simp: Allows_iff)

text \<open>a lapsed pro key keeps every read its live version allowed and no write.\<close>

theorem expiry_no_lockout:
  assumes "l_tier l = ''pro''" "\<not> l_demo l"
    and "Has (Some (l\<lparr>l_expired := False\<rparr>)) f"
  shows "Allows (Some (l\<lparr>l_expired := True\<rparr>)) m f \<longleftrightarrow> isReadMethod m"
  using assms live_subset_readable [of l]
  by (auto simp: Has_iff Allows_iff live_features_def readable_features_def)

definition sample_pro :: license where
  "sample_pro = \<lparr>l_tier = ''pro'', l_features = [''cra''], l_org = ''Acme'', l_issued = 0,
     l_expires = Some 100, l_demo = False, l_token = ''tok'', l_expired = False\<rparr>"

theorem expiry_no_lockout_witness:
  "Allows (Some (sample_pro\<lparr>l_expired := True\<rparr>)) ''GET'' ''cra''
   \<and> \<not> Allows (Some (sample_pro\<lparr>l_expired := True\<rparr>)) ''POST'' ''cra''"
proof -
  have h: "l_tier sample_pro = ''pro''" "\<not> l_demo sample_pro"
    "Has (Some (sample_pro\<lparr>l_expired := False\<rparr>)) ''cra''"
    by (simp_all add: sample_pro_def Has_iff live_features_def)
  show ?thesis
    using expiry_no_lockout [OF h, of "''GET''"] expiry_no_lockout [OF h, of "''POST''"]
    by (simp add: isReadMethod_def)
qed

text \<open>every feature a key can carry is either sold with pro or deliberately unsold,
  never both; the implicit pro features are sold ones.\<close>

theorem catalogue_partition:
  "set ProTier \<union> set UnsoldFeatures = set AllFeatures \<and> set ProTier \<inter> set UnsoldFeatures = {}
   \<and> distinct AllFeatures \<and> set legacyProFeatures \<subseteq> set ProTier"
  by code_simp

lemma Load_cases:
  "Load prs t key isDemo = demoLicense t \<or> Load prs t key isDemo = communityLicense t
   \<or> (\<exists>l. prs key = Inr l \<and> Load prs t key isDemo = l)"
  by (auto simp: Load_def split: sum.splits)

lemma community_features: "\<not> Has (Some (communityLicense t)) f"
  by (simp add: Has_iff communityLicense_def live_features_def)

end
