(* ===== verification/Effects.thy ===== *)
theory Effects
  imports Prelude
begin

text \<open>
  Handlers as state-passing programs. Every statement of a handler that can
  fail for a reason outside the code (a lost database connection, an
  unreachable service, a refused mail) consumes one entry of a tape of
  injected faults, so a theorem that holds for every tape holds for every
  pattern of failures. \<open>wp m Q s\<close> says that running \<open>m\<close> in \<open>s\<close> ends in a
  result and state related by \<open>Q\<close>; \<open>hoare\<close> is the triple over all states.
\<close>

record effects =
  faults :: "bool list"  \<comment> \<open>\<open>True\<close>: the next fallible call fails\<close>
  now :: int             \<comment> \<open>\<^verbatim>\<open>time.Now()\<close>, in seconds\<close>
  fresh :: nat           \<comment> \<open>how many random identifiers were drawn\<close>

definition skip :: "('s, unit) state" where
  "skip = State_Monad.return ()"

definition gets :: "('s \<Rightarrow> 'a) \<Rightarrow> ('s, 'a) state" where
  "gets f = State (\<lambda>s. (f s, s))"

definition modify :: "('s \<Rightarrow> 's) \<Rightarrow> ('s, unit) state" where
  "modify f = State (\<lambda>s. ((), f s))"

text \<open>One fallible call; the result says whether it went through.\<close>

definition attempt :: "('e effects_scheme, bool) state" where
  "attempt = State (\<lambda>s. case faults s of [] \<Rightarrow> (True, s) | b # t \<Rightarrow> (\<not> b, s\<lparr>faults := t\<rparr>))"

text \<open>A fresh identifier, as \<^verbatim>\<open>gen_random_uuid()\<close> or an external service assigns it.\<close>

definition draw :: "(nat \<Rightarrow> 'b) \<Rightarrow> ('e effects_scheme, 'b) state" where
  "draw f = State (\<lambda>s. (f (fresh s), s\<lparr>fresh := Suc (fresh s)\<rparr>))"

text \<open>A statement that is executed for its effect and reports success.\<close>

definition exec :: "('e effects_scheme \<Rightarrow> 'e effects_scheme) \<Rightarrow> ('e effects_scheme, bool) state" where
  "exec f = do { ok \<leftarrow> attempt; if ok then do { modify f; State_Monad.return True }
     else State_Monad.return False }"

fun for_each :: "('a \<Rightarrow> ('s, unit) state) \<Rightarrow> 'a list \<Rightarrow> ('s, unit) state" where
  "for_each f [] = skip"
| "for_each f (x # xs) = do { f x; for_each f xs }"

section \<open>Executing\<close>

lemma run_skip [run_simps]: "run_state skip s = ((), s)"
  by (simp add: skip_def)

lemma run_gets [run_simps]: "run_state (gets f) s = (f s, s)"
  by (simp add: gets_def)

lemma run_modify [run_simps]: "run_state (modify f) s = ((), f s)"
  by (simp add: modify_def)

lemma run_attempt_Nil [run_simps]: "faults s = [] \<Longrightarrow> run_state attempt s = (True, s)"
  by (simp add: attempt_def)

lemma run_exec_Nil [run_simps]: "faults s = [] \<Longrightarrow> run_state (exec f) s = (True, f s)"
  by (simp add: exec_def run_attempt_Nil run_modify)

lemma run_attempt_Cons [run_simps]:
  "faults s = b # t \<Longrightarrow> run_state attempt s = (\<not> b, s\<lparr>faults := t\<rparr>)"
  by (simp add: attempt_def)

lemma run_draw [run_simps]: "run_state (draw f) s = (f (fresh s), s\<lparr>fresh := Suc (fresh s)\<rparr>)"
  by (simp add: draw_def)

lemma run_unit: "run_state (m :: ('s, unit) state) s = ((), snd (run_state m s))"
  by (simp add: prod_eq_iff)

section \<open>The logic\<close>

definition wp :: "('s, 'a) state \<Rightarrow> ('a \<Rightarrow> 's \<Rightarrow> bool) \<Rightarrow> 's \<Rightarrow> bool" where
  "wp m Q s = (case run_state m s of (a, t) \<Rightarrow> Q a t)"

definition hoare :: "('s \<Rightarrow> bool) \<Rightarrow> ('s, 'a) state \<Rightarrow> ('a \<Rightarrow> 's \<Rightarrow> bool) \<Rightarrow> bool" where
  "hoare P m Q \<longleftrightarrow> (\<forall>s. P s \<longrightarrow> wp m Q s)"

definition keeps :: "('s \<Rightarrow> bool) \<Rightarrow> ('s, 'a) state \<Rightarrow> bool" where
  "keeps I m \<longleftrightarrow> hoare I m (\<lambda>_. I)"

lemma hoareI: "(\<And>s. P s \<Longrightarrow> wp m Q s) \<Longrightarrow> hoare P m Q"
  by (simp add: hoare_def)

lemma hoareD: "hoare P m Q \<Longrightarrow> P s \<Longrightarrow> wp m Q s"
  by (simp add: hoare_def)

lemma wp_run: "wp m Q s \<Longrightarrow> run_state m s = (a, t) \<Longrightarrow> Q a t"
  by (simp add: wp_def)

lemma keepsI: "(\<And>s. I s \<Longrightarrow> wp m (\<lambda>_. I) s) \<Longrightarrow> keeps I m"
  by (simp add: keeps_def hoare_def)

lemma keepsD: "keeps I m \<Longrightarrow> I s \<Longrightarrow> I (snd (run_state m s))"
  by (simp add: keeps_def hoare_def wp_def split_def)

named_theorems wp_rules \<open>weakest preconditions of the primitives, as rewrites\<close>

lemma wp_return [wp_rules]: "wp (State_Monad.return a) Q s = Q a s"
  by (simp add: wp_def)

lemma wp_bind [wp_rules]: "wp (State_Monad.bind m f) Q s = wp m (\<lambda>a. wp (f a) Q) s"
  by (simp add: wp_def split: prod.splits)

lemma wp_skip [wp_rules]: "wp skip Q s = Q () s"
  by (simp add: wp_def run_simps)

lemma wp_gets [wp_rules]: "wp (gets f) Q s = Q (f s) s"
  by (simp add: wp_def run_simps)

lemma wp_modify [wp_rules]: "wp (modify f) Q s = Q () (f s)"
  by (simp add: wp_def run_simps)

lemma wp_draw [wp_rules]: "wp (draw f) Q s = Q (f (fresh s)) (s\<lparr>fresh := Suc (fresh s)\<rparr>)"
  by (simp add: wp_def run_simps)

lemma wp_if [wp_rules]: "wp (if b then m else n) Q s = (if b then wp m Q s else wp n Q s)"
  by simp

text \<open>The tape is arbitrary, so a call may go either way and leave any tape.\<close>

lemma wp_attempt: "(\<And>b t. Q b (s\<lparr>faults := t\<rparr>)) \<Longrightarrow> wp attempt Q s"
proof -
  assume q: "\<And>b t. Q b (s\<lparr>faults := t\<rparr>)"
  show ?thesis
  proof (cases "faults s")
    case Nil
    have "Q True s" using q [of True "faults s"] by simp
    with Nil show ?thesis by (simp add: wp_def run_simps)
  next
    case (Cons b t)
    then show ?thesis by (simp add: wp_def run_simps q)
  qed
qed

lemma wp_exec:
  "(\<And>t. Q True (f (s\<lparr>faults := t\<rparr>))) \<Longrightarrow> (\<And>t. Q False (s\<lparr>faults := t\<rparr>)) \<Longrightarrow> wp (exec f) Q s"
  unfolding exec_def wp_bind by (rule wp_attempt) (simp add: wp_rules)

text \<open>The same as introduction rules, so that \<open>intro wp_intros\<close> walks a handler to its
  leaves and leaves one goal per path.\<close>

named_theorems wp_intros \<open>weakest preconditions of the primitives, as introduction rules\<close>

lemmas wp_equation_rules [wp_intros] =
  wp_return [THEN iffD2] wp_bind [THEN iffD2] wp_skip [THEN iffD2]
  wp_gets [THEN iffD2] wp_modify [THEN iffD2]

declare wp_attempt [wp_intros] wp_exec [wp_intros]

lemma wp_drawI [wp_intros]: "Q (f (fresh s)) (s\<lparr>fresh := Suc (fresh s)\<rparr>) \<Longrightarrow> wp (draw f) Q s"
  by (simp add: wp_draw)

lemma wp_ifI [wp_intros]: "(b \<Longrightarrow> wp m Q s) \<Longrightarrow> (\<not> b \<Longrightarrow> wp n Q s) \<Longrightarrow> wp (if b then m else n) Q s"
  by simp

lemma wp_optionI [wp_intros]:
  "(v = None \<Longrightarrow> wp m Q s) \<Longrightarrow> (\<And>x. v = Some x \<Longrightarrow> wp (f x) Q s) \<Longrightarrow>
   wp (case v of None \<Rightarrow> m | Some x \<Rightarrow> f x) Q s"
  by (cases v) simp_all

lemma wp_sumI [wp_intros]:
  "(\<And>x. v = Inl x \<Longrightarrow> wp (f x) Q s) \<Longrightarrow> (\<And>x. v = Inr x \<Longrightarrow> wp (g x) Q s) \<Longrightarrow>
   wp (case v of Inl x \<Rightarrow> f x | Inr x \<Rightarrow> g x) Q s"
  by (cases v) simp_all

lemma wp_prodI [wp_intros]:
  "(\<And>a b. v = (a, b) \<Longrightarrow> wp (f a b) Q s) \<Longrightarrow> wp (case v of (a, b) \<Rightarrow> f a b) Q s"
  by (cases v) simp

text \<open>For a scrutinee that is known, tried before the rules above.\<close>

lemma wp_consts:
  "wp m Q s \<Longrightarrow> wp (case None of None \<Rightarrow> m | Some x \<Rightarrow> f x) Q s"
  "wp (f a) Q s \<Longrightarrow> wp (case Some a of None \<Rightarrow> m | Some x \<Rightarrow> f x) Q s"
  "wp (g b) Q s \<Longrightarrow> wp (case Inl b of Inl x \<Rightarrow> g x | Inr x \<Rightarrow> h x) Q s"
  "wp (h c) Q s \<Longrightarrow> wp (case Inr c of Inl x \<Rightarrow> g x | Inr x \<Rightarrow> h x) Q s"
  by simp_all

lemma wp_mono: "wp m Q s \<Longrightarrow> (\<And>a t. Q a t \<Longrightarrow> R a t) \<Longrightarrow> wp m R s"
  by (auto simp: wp_def split: prod.splits)

lemma wp_conj: "wp m Q s \<Longrightarrow> wp m R s \<Longrightarrow> wp m (\<lambda>a t. Q a t \<and> R a t) s"
  by (auto simp: wp_def split: prod.splits)

lemma hoare_bind: "hoare P m R \<Longrightarrow> (\<And>a. hoare (R a) (f a) Q) \<Longrightarrow> hoare P (State_Monad.bind m f) Q"
  unfolding hoare_def by (metis (no_types, lifting) wp_bind wp_mono)

lemma keeps_bind [hoare_rules]: "keeps I m \<Longrightarrow> (\<And>a. keeps I (f a)) \<Longrightarrow> keeps I (State_Monad.bind m f)"
  unfolding keeps_def by (rule hoare_bind)

lemma keeps_return [hoare_rules]: "keeps I (State_Monad.return a)"
  by (simp add: keeps_def hoare_def wp_return)

lemma keeps_skip [hoare_rules]: "keeps I skip"
  by (simp add: keeps_def hoare_def wp_skip)

lemma keeps_gets [hoare_rules]: "keeps I (gets f)"
  by (simp add: keeps_def hoare_def wp_gets)

lemma keeps_modify: "(\<And>s. I s \<Longrightarrow> I (f s)) \<Longrightarrow> keeps I (modify f)"
  by (simp add: keeps_def hoare_def wp_modify)

lemma keeps_if [hoare_rules]: "(b \<Longrightarrow> keeps I m) \<Longrightarrow> (\<not> b \<Longrightarrow> keeps I n) \<Longrightarrow> keeps I (if b then m else n)"
  by simp

lemma keeps_option [hoare_rules]:
  "keeps I m \<Longrightarrow> (\<And>x. keeps I (f x)) \<Longrightarrow> keeps I (case v of None \<Rightarrow> m | Some x \<Rightarrow> f x)"
  by (cases v) simp_all

lemma keeps_sum [hoare_rules]:
  "(\<And>x. keeps I (f x)) \<Longrightarrow> (\<And>x. keeps I (g x)) \<Longrightarrow> keeps I (case v of Inl x \<Rightarrow> f x | Inr x \<Rightarrow> g x)"
  by (cases v) simp_all

lemma keeps_prod [hoare_rules]:
  "(\<And>a b. keeps I (f a b)) \<Longrightarrow> keeps I (case v of (a, b) \<Rightarrow> f a b)"
  by (cases v) simp_all

lemma keeps_for_each [hoare_rules]: "(\<And>x. keeps I (f x)) \<Longrightarrow> keeps I (for_each f xs)"
  by (induction xs) (simp_all add: keeps_skip keeps_bind)

lemma keeps_attempt: "(\<And>s t. I s \<Longrightarrow> I (s\<lparr>faults := t\<rparr>)) \<Longrightarrow> keeps I attempt"
  by (intro keepsI wp_attempt)

lemma keeps_exec:
  "(\<And>s t. I s \<Longrightarrow> I (s\<lparr>faults := t\<rparr>)) \<Longrightarrow> (\<And>s. I s \<Longrightarrow> I (f s)) \<Longrightarrow> keeps I (exec f)"
  by (intro keepsI wp_exec) simp_all

lemma keeps_conj: "keeps I m \<Longrightarrow> keeps J m \<Longrightarrow> keeps (\<lambda>s. I s \<and> J s) m"
  unfolding keeps_def hoare_def by (auto intro: wp_conj)

section \<open>Tables\<close>

text \<open>
  A table is the list of its rows. \<open>update_where\<close> is \<^verbatim>\<open>UPDATE ... WHERE\<close>,
  \<open>count_where\<close> the number of rows a predicate selects (\<^verbatim>\<open>RowsAffected\<close> of an
  update), \<open>find\<close> is \<^verbatim>\<open>QueryRow\<close>: the first row or none. \<open>max_of\<close> is
  \<^verbatim>\<open>SELECT MAX\<close>, NULL on no rows.
\<close>

definition update_where :: "('a \<Rightarrow> bool) \<Rightarrow> ('a \<Rightarrow> 'a) \<Rightarrow> 'a list \<Rightarrow> 'a list" where
  "update_where p f xs = map (\<lambda>x. if p x then f x else x) xs"

definition count_where :: "('a \<Rightarrow> bool) \<Rightarrow> 'a list \<Rightarrow> nat" where
  "count_where p xs = length (filter p xs)"

fun max_of :: "int list \<Rightarrow> int option" where
  "max_of [] = None"
| "max_of (x # xs) = (case max_of xs of None \<Rightarrow> Some x | Some m \<Rightarrow> Some (max x m))"

lemma set_update_where: "set (update_where p f xs) = (\<lambda>x. if p x then f x else x) ` set xs"
  by (simp add: update_where_def)

lemma map_update_where: "(\<And>x. g (f x) = g x) \<Longrightarrow> map g (update_where p f xs) = map g xs"
  by (simp add: update_where_def)

lemma length_update_where [simp]: "length (update_where p f xs) = length xs"
  by (simp add: update_where_def)

lemma max_of_None: "max_of xs = None \<longleftrightarrow> xs = []"
  by (cases xs) (auto split: option.splits)

lemma max_of_Max: "max_of xs = (if xs = [] then None else Some (Max (set xs)))"
  by (induction xs) (auto split: option.splits)

lemma max_of_in: "max_of xs = Some m \<Longrightarrow> m \<in> set xs"
  by (auto simp: max_of_Max split: if_splits)

lemma max_of_ge: "max_of xs = Some m \<Longrightarrow> x \<in> set xs \<Longrightarrow> x \<le> m"
  by (auto simp: max_of_Max split: if_splits)

lemma find_update_same:
  "(\<And>x. q (f x) = q x) \<Longrightarrow> find q (update_where p f xs) =
     map_option (\<lambda>x. if p x then f x else x) (find q xs)"
  by (induction xs) (auto simp: update_where_def)

lemma find_Some_in: "find p xs = Some x \<Longrightarrow> x \<in> set xs \<and> p x"
  by (auto simp: find_Some_iff)

text \<open>A key column: distinct, so a row is determined by its key.\<close>

lemma distinct_key:
  "distinct (map k xs) \<Longrightarrow> x \<in> set xs \<Longrightarrow> y \<in> set xs \<Longrightarrow> k x = k y \<Longrightarrow> x = y"
  by (induction xs) (auto simp: image_iff)

lemma find_key:
  "distinct (map k xs) \<Longrightarrow> x \<in> set xs \<Longrightarrow> find (\<lambda>y. k y = k x) xs = Some x"
  by (induction xs) (auto simp: image_iff)

section \<open>Machines and their invariants\<close>

text \<open>
  A component run by several handlers is a step relation on its world; what is true
  initially and kept by every step holds in every reachable world.
\<close>

locale machine =
  fixes start :: "'s \<Rightarrow> bool" and step :: "'s \<Rightarrow> 's \<Rightarrow> bool" and inv :: "'s \<Rightarrow> bool"
  assumes start_inv: "start s \<Longrightarrow> inv s"
    and step_inv: "inv s \<Longrightarrow> step s t \<Longrightarrow> inv t"
begin

lemma steps_inv: "step\<^sup>*\<^sup>* s t \<Longrightarrow> inv s \<Longrightarrow> inv t"
  by (induction rule: rtranclp_induct) (auto intro: step_inv)

lemma reachable_inv: "start s \<Longrightarrow> step\<^sup>*\<^sup>* s t \<Longrightarrow> inv t"
  by (blast intro: steps_inv start_inv)

text \<open>A relation between a world and its successors that is reflexive, transitive and kept
  by every step relates a world to everything after it.\<close>

lemma steps_mono:
  assumes "step\<^sup>*\<^sup>* s t" "inv s" "\<And>x. R x x" "\<And>x y z. R x y \<Longrightarrow> R y z \<Longrightarrow> R x z"
    and "\<And>x y. inv x \<Longrightarrow> step x y \<Longrightarrow> R x y"
  shows "R s t"
  using assms(1)
proof (induction rule: rtranclp_induct)
  case (step y z)
  then show ?case using assms(2,4,5) steps_inv by blast
qed (rule assms(3))

end

end
