(* ===== verification/License_Key.thy ===== *)
theory License_Key
  imports License_Core Effects
begin

text \<open>
  Licence keys (\<^verbatim>\<open>parse\<close> in \<^verbatim>\<open>license.go\<close>, \<^verbatim>\<open>sign.go\<close>). A key is
  \<open>base64url(payload JSON) . base64url(signature)\<close>. Raw URL base64 is defined here;
  JSON, SHA-256, PEM/x509 and ECDSA are the fields of the record \<open>crypto\<close>, whose
  laws are hypotheses of the theorems that need them.
\<close>

section \<open>Raw URL base64\<close>

text \<open>The URL-safe alphabet \<^verbatim>\<open>A-Z a-z 0-9 - _\<close>.\<close>

definition sextet_char :: "nat \<Rightarrow> char" where
  "sextet_char n = char_of (if n < 26 then n + 65 else if n < 52 then n + 71
     else if n < 62 then n - 4 else if n = 62 then 45 else 95)"

definition char_sextet :: "char \<Rightarrow> nat option" where
  "char_sextet c = (let n = (of_char c :: nat) in
     if 65 \<le> n \<and> n \<le> 90 then Some (n - 65)
     else if 97 \<le> n \<and> n \<le> 122 then Some (n - 71)
     else if 48 \<le> n \<and> n \<le> 57 then Some (n + 4)
     else if n = 45 then Some 62 else if n = 95 then Some 63 else None)"

fun sextets :: "nat list \<Rightarrow> nat list" where
  "sextets [] = []"
| "sextets [a] = [a div 4, (a mod 4) * 16]"
| "sextets [a, b] = [a div 4, (a mod 4) * 16 + b div 16, (b mod 16) * 4]"
| "sextets (a # b # c # r) =
     [a div 4, (a mod 4) * 16 + b div 16, (b mod 16) * 4 + c div 64, c mod 64] @ sextets r"

text \<open>Decoding; one left-over sextet is an error, left-over bits are dropped.\<close>

fun unsextets :: "nat list \<Rightarrow> nat list option" where
  "unsextets [] = Some []"
| "unsextets [a] = None"
| "unsextets [a, b] = Some [(a * 4 + b div 16) mod 256]"
| "unsextets [a, b, c] = Some [(a * 4 + b div 16) mod 256, (b * 16 + c div 4) mod 256]"
| "unsextets (a # b # c # d # r) = (case unsextets r of None \<Rightarrow> None
     | Some bs \<Rightarrow> Some ([(a * 4 + b div 16) mod 256, (b * 16 + c div 4) mod 256,
         (c * 64 + d) mod 256] @ bs))"

definition b64_enc :: "string \<Rightarrow> string" where
  "b64_enc s = map sextet_char (sextets (map of_char s))"

text \<open>The decoder ignores CR and LF anywhere in its input.\<close>

definition b64_dec :: "string \<Rightarrow> string option" where
  "b64_dec s = (let cs = filter (\<lambda>c. c \<noteq> CHR 0x0D \<and> c \<noteq> CHR 0x0A) s in
     if \<exists>c \<in> set cs. char_sextet c = None then None
     else map_option (map char_of) (unsextets (map (\<lambda>c. the (char_sextet c)) cs)))"

lemma sextets_bound: "\<forall>x \<in> set bs. x < 256 \<Longrightarrow> \<forall>x \<in> set (sextets bs). x < 64"
  by (induction bs rule: sextets.induct) auto

lemma sextet_first: "(b::nat) < 256 \<Longrightarrow> (a div 4 * 4 + (a mod 4 * 16 + b div 16) div 16) = a"
proof -
  assume "b < 256"
  then have "(a mod 4 * 16 + b div 16) div 16 = a mod 4" by simp
  then show ?thesis by (metis div_mult_mod_eq)
qed

lemma sextet_second: "(b::nat) < 256 \<Longrightarrow> c < 256 \<Longrightarrow>
  ((a mod 4 * 16 + b div 16) * 16 + (b mod 16 * 4 + c div 64) div 4) mod 256 = b"
proof -
  assume b: "b < 256" and c: "c < 256"
  have d: "(b mod 16 * 4 + c div 64) div 4 = b mod 16" using c by simp
  have "(a mod 4 * 16 + b div 16) * 16 + b mod 16 = 256 * (a mod 4) + (b div 16 * 16 + b mod 16)"
    by (simp add: algebra_simps)
  also have "\<dots> = 256 * (a mod 4) + b" by simp
  finally show ?thesis using b d by simp
qed

lemma sextet_third: "(c::nat) < 256 \<Longrightarrow> ((b mod 16 * 4 + c div 64) * 64 + c mod 64) mod 256 = c"
proof -
  assume c: "c < 256"
  have "(b mod 16 * 4 + c div 64) * 64 + c mod 64 = 256 * (b mod 16) + (c div 64 * 64 + c mod 64)"
    by (simp add: algebra_simps)
  also have "\<dots> = 256 * (b mod 16) + c" by simp
  finally show ?thesis using c by simp
qed

lemma unsextets_sextets: "\<forall>x \<in> set bs. x < 256 \<Longrightarrow> unsextets (sextets bs) = Some bs"
proof (induction bs rule: sextets.induct)
  case (2 a)
  then show ?case using sextet_first [of 0 a] by simp
next
  case (3 a b)
  then show ?case using sextet_first [of b a] sextet_second [of b 0 a] by simp
next
  case (4 a b c r)
  then have "unsextets (sextets r) = Some r" by simp
  then show ?case using 4(2) sextet_first [of b a] sextet_second [of b c a] sextet_third [of c b]
    by simp
qed simp

lemma of_sextet_char: "n < 64 \<Longrightarrow> (of_char (sextet_char n) :: nat) =
    (if n < 26 then n + 65 else if n < 52 then n + 71
     else if n < 62 then n - 4 else if n = 62 then 45 else 95)"
  by (simp add: sextet_char_def)

lemma b64_chars_list: "char_sextet (sextet_char n) = Some n \<and> sextet_char n \<noteq> CHR 0x0D
    \<and> sextet_char n \<noteq> CHR 0x0A \<and> sextet_char n \<noteq> CHR ''.''" if "n < 64"
proof -
  have "(of_char (sextet_char n) :: nat) \<notin> {13, 10, 46}"
    using that by (auto simp: of_sextet_char split: if_splits)
  then have "sextet_char n \<noteq> CHR 0x0D \<and> sextet_char n \<noteq> CHR 0x0A \<and> sextet_char n \<noteq> CHR ''.''"
    by auto
  moreover have "char_sextet (sextet_char n) = Some n"
    using that by (auto simp: char_sextet_def of_sextet_char Let_def)
  ultimately show ?thesis by simp
qed

lemma sextets_string: "\<forall>x \<in> set (sextets (map of_char (s :: string))). x < 64"
  by (rule sextets_bound) (auto simp: nat_of_char_less_256)

lemma b64_enc_no_dot: "CHR ''.'' \<notin> set (b64_enc s)"
proof
  assume "CHR ''.'' \<in> set (b64_enc s)"
  then obtain n where "n \<in> set (sextets (map of_char s))" and e: "sextet_char n = CHR ''.''"
    by (auto simp: b64_enc_def)
  then have "n < 64" using sextets_string [of s] by blast
  then show False using b64_chars_list [of n] e by simp
qed

theorem b64_roundtrip: "b64_dec (b64_enc s) = Some s"
proof -
  let ?ns = "sextets (map of_char s)"
  have ok: "char_sextet (sextet_char n) = Some n" "sextet_char n \<noteq> CHR 0x0D"
    "sextet_char n \<noteq> CHR 0x0A" if "n \<in> set ?ns" for n
    using b64_chars_list [of n] sextets_string [of s] that by auto
  have "filter (\<lambda>c. c \<noteq> CHR 0x0D \<and> c \<noteq> CHR 0x0A) (b64_enc s) = b64_enc s"
    unfolding b64_enc_def by (rule filter_True) (auto dest: ok)
  moreover have "\<not> (\<exists>c \<in> set (b64_enc s). char_sextet c = None)"
    by (auto simp: b64_enc_def ok)
  moreover have "map (\<lambda>c. the (char_sextet c)) (b64_enc s) = ?ns"
    unfolding b64_enc_def map_map by (rule map_idI) (simp add: ok)
  moreover have "unsextets ?ns = Some (map of_char s)"
    by (rule unsextets_sextets) (auto simp: nat_of_char_less_256)
  ultimately show ?thesis
    by (simp add: b64_dec_def Let_def o_def)
qed

section \<open>A transport codec\<close>

text \<open>What the key format relies on: the text form carries the bytes and cannot contain
  the separator, so a joined key splits back into its two halves.\<close>

locale byte_codec =
  fixes enc :: "string \<Rightarrow> string" and dec :: "string \<Rightarrow> string option" and sep :: char
  assumes codec_dec: "dec (enc s) = Some s"
    and codec_sep: "sep \<notin> set (enc s)"
begin

lemma split_joined: "split2 sep (enc a @ sep # enc b) = [enc a, enc b]"
  by (rule split2_append) (rule codec_sep)

lemma enc_inj: "enc a = enc b \<Longrightarrow> a = b"
  by (metis codec_dec option.inject)

lemma joined_inj: "enc a @ sep # enc b = enc c @ sep # enc d \<Longrightarrow> a = c \<and> b = d"
  by (metis enc_inj list.inject split_joined)

end

interpretation b64: byte_codec b64_enc b64_dec "CHR ''.''"
  by unfold_locales (rule b64_roundtrip, rule b64_enc_no_dot)

section \<open>Big-endian integers\<close>

text \<open>\<^verbatim>\<open>big.Int.Bytes\<close> (minimal, big endian) and \<^verbatim>\<open>SetBytes\<close>.\<close>

fun nat_bytes :: "nat \<Rightarrow> nat list" where
  "nat_bytes n = (if n = 0 then [] else nat_bytes (n div 256) @ [n mod 256])"

declare nat_bytes.simps [simp del]

definition bytes_nat :: "nat list \<Rightarrow> nat" where
  "bytes_nat bs = foldl (\<lambda>a b. 256 * a + b) 0 bs"

lemma bytes_nat_snoc [simp]: "bytes_nat (bs @ [b]) = 256 * bytes_nat bs + b"
  by (simp add: bytes_nat_def)

lemma bytes_nat_bytes [simp]: "bytes_nat (nat_bytes n) = n"
proof (induction n rule: nat_bytes.induct)
  case (1 n)
  then show ?case by (cases "n = 0") (subst nat_bytes.simps, simp add: bytes_nat_def)+
qed

lemma nat_bytes_byte: "\<forall>b \<in> set (nat_bytes n). b < 256"
proof (induction n rule: nat_bytes.induct)
  case (1 n)
  then show ?case by (cases "n = 0") (subst nat_bytes.simps, simp)+
qed

lemma nat_bytes_length: "n < 256 ^ k \<Longrightarrow> length (nat_bytes n) \<le> k"
proof (induction k arbitrary: n)
  case 0
  then show ?case by (subst nat_bytes.simps) simp
next
  case (Suc k)
  have "n div 256 < 256 ^ k" using Suc.prems
    by (metis less_mult_imp_div_less mult.commute power_Suc)
  then have "length (nat_bytes (n div 256)) \<le> k" by (rule Suc.IH)
  then show ?case by (subst nat_bytes.simps) simp
qed

lemma bytes_nat_zeros: "bytes_nat (replicate k 0 @ bs) = bytes_nat bs"
proof (induction bs rule: rev_induct)
  case Nil
  have "foldl (\<lambda>a b. 256 * a + b) 0 (replicate k (0::nat)) = 0" by (induction k) simp_all
  then show ?case by (simp add: bytes_nat_def)
next
  case (snoc b bs)
  then show ?case by (simp flip: append_assoc)
qed

text \<open>\<^verbatim>\<open>copy(sig[32-len(b):32], b)\<close> into a zeroed buffer.\<close>

definition right_aligned :: "nat \<Rightarrow> nat list \<Rightarrow> nat list" where
  "right_aligned w bs = replicate (w - length bs) 0 @ bs"

lemma length_right_aligned: "length bs \<le> w \<Longrightarrow> length (right_aligned w bs) = w"
  by (simp add: right_aligned_def)

lemma bytes_nat_right_aligned [simp]: "bytes_nat (right_aligned w bs) = bytes_nat bs"
  by (simp add: right_aligned_def bytes_nat_zeros)

section \<open>The key\<close>

record payload =
  p_tier :: string
  p_features :: "string list"
  p_org :: string
  p_iat :: int
  p_exp :: "int option"
  p_rt :: string

text \<open>
  The cryptographic and serialisation libraries. \<open>ec_sign sk h\<close> is one run of
  \<^verbatim>\<open>ecdsa.Sign\<close> (its randomness is resolved by the function), \<open>priv_of_pem\<close> is
  \<^verbatim>\<open>pem.Decode\<close> followed by \<^verbatim>\<open>x509.ParseECPrivateKey\<close>, \<open>pub_key\<close> the result of
  \<^verbatim>\<open>loadPublicKey\<close> on the embedded PEM.
\<close>

record crypto =
  json_enc :: "payload \<Rightarrow> string"
  json_dec :: "string \<Rightarrow> payload option"
  sha256 :: "string \<Rightarrow> nat list"
  priv_of_pem :: "string \<Rightarrow> nat option"
  pub_key :: "nat option"
  ec_sign :: "nat \<Rightarrow> nat list \<Rightarrow> (nat \<times> nat) option"
  ec_verify :: "nat \<Rightarrow> nat list \<Rightarrow> nat \<Rightarrow> nat \<Rightarrow> bool"

datatype licenseError =
    ErrInvalidFormat
  | ErrInvalidSignature
  | ErrUnknownTier
  | ErrInvalidKey
  | ErrBase64
  | ErrJson

datatype signError =
    RefuseTier string
  | BadPrivateKey
  | SignFailed

definition verifySignature :: "crypto \<Rightarrow> nat \<Rightarrow> nat list \<Rightarrow> nat list \<Rightarrow> bool" where
  "verifySignature C pub hash sig =
     (if length sig \<noteq> 64 then False
      else ec_verify C pub hash (bytes_nat (take 32 sig)) (bytes_nat (drop 32 sig)))"

definition loadPublicKey :: "crypto \<Rightarrow> licenseError + nat" where
  "loadPublicKey C = (case pub_key C of None \<Rightarrow> Inl ErrInvalidKey | Some k \<Rightarrow> Inr k)"

definition license_of_payload :: "instant \<Rightarrow> payload \<Rightarrow> license" where
  "license_of_payload t p = \<lparr>l_tier = p_tier p, l_features = p_features p, l_org = p_org p,
     l_issued = p_iat p, l_expires = p_exp p, l_demo = False, l_token = p_rt p,
     l_expired = (case p_exp p of None \<Rightarrow> False | Some e \<Rightarrow> t > e)\<rparr>"

definition parse :: "crypto \<Rightarrow> instant \<Rightarrow> string \<Rightarrow> licenseError + license" where
  "parse C t key = (case split2 CHR ''.'' key of
     [a, b] \<Rightarrow> (case b64_dec a of None \<Rightarrow> Inl ErrBase64
       | Some payloadBytes \<Rightarrow> (case b64_dec b of None \<Rightarrow> Inl ErrBase64
         | Some sigBytes \<Rightarrow> (case loadPublicKey C of Inl e \<Rightarrow> Inl e
           | Inr pub \<Rightarrow>
               if \<not> verifySignature C pub (sha256 C a) (map of_char sigBytes) then Inl ErrInvalidSignature
               else (case json_dec C payloadBytes of None \<Rightarrow> Inl ErrJson
                 | Some p \<Rightarrow> if \<not> KnownTier (p_tier p) then Inl ErrUnknownTier
                     else Inr (license_of_payload t p)))))
   | _ \<Rightarrow> Inl ErrInvalidFormat)"

definition sig_bytes :: "nat \<Rightarrow> nat \<Rightarrow> nat list" where
  "sig_bytes r s = right_aligned 32 (nat_bytes r) @ right_aligned 32 (nat_bytes s)"

definition signWith :: "crypto \<Rightarrow> instant \<Rightarrow> nat \<Rightarrow> string \<Rightarrow> string \<Rightarrow> string \<Rightarrow> string list
    \<Rightarrow> instant option \<Rightarrow> signError + string" where
  "signWith C t sk tier org rt features expires =
     (let p = \<lparr>p_tier = tier, p_features = features, p_org = org, p_iat = t, p_exp = expires, p_rt = rt\<rparr>;
          payloadB64 = b64_enc (json_enc C p)
      in case ec_sign C sk (sha256 C payloadB64) of
           None \<Rightarrow> Inl SignFailed
         | Some (r, s) \<Rightarrow> Inr (payloadB64 @ CHR ''.'' # b64_enc (map char_of (sig_bytes r s))))"

text \<open>\<^verbatim>\<open>strings.ReplaceAll(pem, `\n`, newline)\<close>: the two-byte escape.\<close>

fun unescape_newlines :: "string \<Rightarrow> string" where
  "unescape_newlines (a # b # r) =
     (if a = CHR 0x5C \<and> b = CHR ''n'' then CHR 0x0A # unescape_newlines r
      else a # unescape_newlines (b # r))"
| "unescape_newlines s = s"

definition SignWithToken :: "crypto \<Rightarrow> instant \<Rightarrow> string \<Rightarrow> string \<Rightarrow> string \<Rightarrow> string \<Rightarrow> string list
    \<Rightarrow> instant option \<Rightarrow> signError + string" where
  "SignWithToken C t pem tier org rt features expires =
     (if \<not> KnownTier tier then Inl (RefuseTier tier)
      else case priv_of_pem C (unescape_newlines pem) of
          None \<Rightarrow> Inl BadPrivateKey
        | Some sk \<Rightarrow> signWith C t sk tier org rt features expires)"

definition Sign :: "crypto \<Rightarrow> instant \<Rightarrow> string \<Rightarrow> string \<Rightarrow> string \<Rightarrow> string list
    \<Rightarrow> instant option \<Rightarrow> signError + string" where
  "Sign C t pem tier org features expires = SignWithToken C t pem tier org '''' features expires"

definition TrialLifetimeDays :: int where "TrialLifetimeDays = 45"
definition RenewBelowDays :: int where "RenewBelowDays = 60"
definition MailBelowDays :: int where "MailBelowDays = 35"

definition TrialExpiry :: "instant \<Rightarrow> instant" where
  "TrialExpiry t = t + TrialLifetimeDays * 24 * 3600"

definition KeyExpiry :: "instant \<Rightarrow> string \<Rightarrow> string \<Rightarrow> instant" where
  "KeyExpiry t interval status =
     (if status = ''trialing'' then TrialExpiry t
      else if interval = ''year'' then add_date t 0 0 (365 + 30)
      else add_date t 0 0 (30 + 5))"

section \<open>Facts about keys\<close>

lemma parse_Inr:
  assumes "parse C t key = Inr l"
  obtains a b bytes sig pub p where "split2 CHR ''.'' key = [a, b]" "b64_dec a = Some bytes"
    "b64_dec b = Some sig" "pub_key C = Some pub"
    "verifySignature C pub (sha256 C a) (map of_char sig)" "json_dec C bytes = Some p"
    "KnownTier (p_tier p)" "l = license_of_payload t p"
  using assms by (auto simp: parse_def loadPublicKey_def split: list.splits option.splits sum.splits if_splits)

lemma length_sig_bytes:
  "r < 2 ^ 256 \<Longrightarrow> s < 2 ^ 256 \<Longrightarrow> length (sig_bytes r s) = 64"
  using nat_bytes_length [of r 32] nat_bytes_length [of s 32]
  by (simp add: sig_bytes_def length_right_aligned)

lemma sig_bytes_byte: "\<forall>b \<in> set (sig_bytes r s). b < 256"
  using nat_bytes_byte by (auto simp: sig_bytes_def right_aligned_def)

lemma verify_sig_bytes:
  assumes "r < 2 ^ 256" "s < 2 ^ 256"
  shows "verifySignature C pub h (sig_bytes r s) = ec_verify C pub h r s"
proof -
  have l: "length (right_aligned 32 (nat_bytes r)) = 32"
    using nat_bytes_length [of r 32] assms(1) by (simp add: length_right_aligned)
  then have "take 32 (sig_bytes r s) = right_aligned 32 (nat_bytes r)"
    "drop 32 (sig_bytes r s) = right_aligned 32 (nat_bytes s)"
    by (simp_all add: sig_bytes_def)
  then show ?thesis by (simp add: verifySignature_def length_sig_bytes [OF assms])
qed

lemma map_of_char_of: "\<forall>b \<in> set bs. b < 256 \<Longrightarrow> map of_char (map char_of bs :: string) = (bs :: nat list)"
  by (induction bs) (simp_all add: of_char_of)

text \<open>What one run of signing needs from the libraries: the key pair accepts its own
  signature on \<open>h\<close> (256-bit integers), and JSON reads back the payload.\<close>

definition pair_signs :: "crypto \<Rightarrow> nat \<Rightarrow> nat list \<Rightarrow> bool" where
  "pair_signs C sk h \<longleftrightarrow> (case (ec_sign C sk h, pub_key C) of
     (Some (r, s), Some pk) \<Rightarrow> r < 2 ^ 256 \<and> s < 2 ^ 256 \<and> ec_verify C pk h r s | _ \<Rightarrow> False)"

definition payload_of :: "instant \<Rightarrow> string \<Rightarrow> string \<Rightarrow> string \<Rightarrow> string list \<Rightarrow> instant option \<Rightarrow> payload" where
  "payload_of t tier org rt features expires =
     \<lparr>p_tier = tier, p_features = features, p_org = org, p_iat = t, p_exp = expires, p_rt = rt\<rparr>"

lemma signWith_parse:
  assumes "KnownTier tier" "p = payload_of t tier org rt fs expires"
    and "json_dec C (json_enc C p) = Some p"
    and "pair_signs C sk (sha256 C (b64_enc (json_enc C p)))"
  obtains key where "signWith C t sk tier org rt fs expires = Inr key" "key \<noteq> []"
    "\<And>u. parse C u key = Inr (license_of_payload u p)"
proof -
  let ?a = "b64_enc (json_enc C p)"
  from assms(4) obtain r s pk where rs: "ec_sign C sk (sha256 C ?a) = Some (r, s)"
    "r < 2 ^ 256" "s < 2 ^ 256" and pk: "pub_key C = Some pk"
    and v: "ec_verify C pk (sha256 C ?a) r s"
    by (auto simp: pair_signs_def split: option.splits)
  let ?sig = "map char_of (sig_bytes r s) :: string"
  let ?key = "?a @ CHR ''.'' # b64_enc ?sig"
  have "signWith C t sk tier org rt fs expires = Inr ?key"
    using rs(1) assms(2) by (simp add: signWith_def payload_of_def Let_def)
  moreover have "p_tier p = tier" using assms(2) by (simp add: payload_of_def)
  then have "parse C u ?key = Inr (license_of_payload u p)" for u
    using assms(1,3) rs pk v
    by (simp add: parse_def b64.split_joined b64.codec_dec loadPublicKey_def
        map_of_char_of [OF sig_bytes_byte, simplified] verify_sig_bytes)
  ultimately show thesis using that by blast
qed

lemmas SignWithToken_simps = SignWithToken_def unescape_newlines.simps

text \<open>C2: a key signed for a sold tier is read back by the instance with every field it
  was signed with, at any later time; only the expired flag depends on the clock.\<close>

theorem sign_parse_roundtrip:
  assumes "KnownTier tier" "p = payload_of t tier org rt fs expires"
    and "priv_of_pem C (unescape_newlines pem) = Some sk"
    and "json_dec C (json_enc C p) = Some p"
    and "pair_signs C sk (sha256 C (b64_enc (json_enc C p)))"
  shows "\<exists>key. SignWithToken C t pem tier org rt fs expires = Inr key \<and> key \<noteq> [] \<and>
    parse C u key = Inr \<lparr>l_tier = tier, l_features = fs, l_org = org, l_issued = t,
      l_expires = expires, l_demo = False, l_token = rt,
      l_expired = (case expires of None \<Rightarrow> False | Some e \<Rightarrow> e < u)\<rparr>"
proof -
  obtain key where "signWith C t sk tier org rt fs expires = Inr key" "key \<noteq> []"
    "parse C u key = Inr (license_of_payload u p)"
    using signWith_parse [OF assms(1,2,4,5)] by metis
  then show ?thesis using assms(1-3)
    by (auto simp: SignWithToken_def license_of_payload_def payload_of_def)
qed

text \<open>A small instance of the libraries: the payload is serialised as its tier, hashing
  is the byte sum, and signing returns the hash next to the key.\<close>

definition toy_payload :: "string \<Rightarrow> payload" where
  "toy_payload s = \<lparr>p_tier = s, p_features = [''cra''], p_org = ''Acme'', p_iat = 1000,
     p_exp = Some 5000, p_rt = ''tok''\<rparr>"

definition toy_crypto :: crypto where
  "toy_crypto = \<lparr>json_enc = p_tier, json_dec = (\<lambda>s. Some (toy_payload s)),
     sha256 = (\<lambda>s. [sum_list (map of_char s)]), priv_of_pem = (\<lambda>s. Some 7), pub_key = Some 7,
     ec_sign = (\<lambda>sk h. Some (sk, hd h mod 65536)),
     ec_verify = (\<lambda>pk h r s. r = pk \<and> s = hd h mod 65536)\<rparr>"

theorem sign_parse_roundtrip_witness:
  "\<exists>key. SignWithToken toy_crypto 1000 ''pem'' ''pro'' ''Acme'' ''tok'' [''cra''] (Some 5000) = Inr key
     \<and> key \<noteq> [] \<and> parse toy_crypto 6000 key = Inr \<lparr>l_tier = ''pro'', l_features = [''cra''],
      l_org = ''Acme'', l_issued = 1000, l_expires = Some 5000, l_demo = False,
      l_token = ''tok'', l_expired = True\<rparr>"
proof -
  let ?p = "toy_payload ''pro''"
  have h: "KnownTier ''pro''" by (simp add: KnownTier_def sellableTiers_def)
  have p: "?p = payload_of 1000 ''pro'' ''Acme'' ''tok'' [''cra''] (Some 5000)"
    by (simp add: toy_payload_def payload_of_def)
  have k: "priv_of_pem toy_crypto (unescape_newlines ''pem'') = Some 7"
    by (simp add: toy_crypto_def)
  have j: "json_dec toy_crypto (json_enc toy_crypto ?p) = Some ?p"
    by (simp add: toy_crypto_def toy_payload_def)
  have "(2::nat) ^ 256 > 65536" by simp
  then have s: "pair_signs toy_crypto 7 (sha256 toy_crypto (b64_enc (json_enc toy_crypto ?p)))"
    by (simp add: pair_signs_def toy_crypto_def less_trans [OF mod_less_divisor])
  show ?thesis using sign_parse_roundtrip [OF h p k j s, of 6000] by simp
qed

text \<open>Which payload texts the holder of the private key ever signed, as the two properties
  the signature scheme and the hash are relied on for: only hashes of signed texts verify,
  and no other text has the hash of a signed one.\<close>

definition unforgeable :: "crypto \<Rightarrow> string set \<Rightarrow> bool" where
  "unforgeable C signed \<longleftrightarrow>
     (\<forall>pk h r s. pub_key C = Some pk \<longrightarrow> ec_verify C pk h r s \<longrightarrow> h \<in> sha256 C ` signed)
     \<and> (\<forall>a \<in> signed. \<forall>b. sha256 C b = sha256 C a \<longrightarrow> b = a)"

text \<open>C1: an instance only honours payloads its vendor signed, for a tier that is sold; tier,
  features, organisation, expiry and renewal token of the licence are that payload's.\<close>

theorem parse_authentic:
  assumes "unforgeable C signed" "parse C t key = Inr l"
  shows "\<exists>a \<in> signed. \<exists>bytes p. b64_dec a = Some bytes \<and> json_dec C bytes = Some p \<and>
    KnownTier (p_tier p) \<and> l = license_of_payload t p \<and> hd (split2 CHR ''.'' key) = a"
  using assms(2)
proof (rule parse_Inr)
  fix a b bytes sig pub p
  assume s: "split2 CHR ''.'' key = [a, b]" "b64_dec a = Some bytes" "json_dec C bytes = Some p"
    "KnownTier (p_tier p)" "l = license_of_payload t p"
    and v: "pub_key C = Some pub" "verifySignature C pub (sha256 C a) (map of_char sig)"
  have "sha256 C a \<in> sha256 C ` signed"
    using v assms(1) by (auto simp: unforgeable_def verifySignature_def split: if_splits)
  then have "a \<in> signed" using assms(1) by (auto simp: unforgeable_def)
  with s show ?thesis by auto
qed

definition toy_strict :: crypto where
  "toy_strict = toy_crypto\<lparr>sha256 := (\<lambda>s. map of_char s),
     ec_sign := (\<lambda>sk h. Some (sk, 1)),
     ec_verify := (\<lambda>pk h r s. h = map of_char (b64_enc ''pro'') \<and> r = pk)\<rparr>"

lemma map_of_char_inj: "map of_char a = (map of_char b :: nat list) \<longleftrightarrow> a = (b :: string)"
  by (rule inj_map_eq_map) (auto intro!: injI)

lemma toy_strict_unforgeable: "unforgeable toy_strict {b64_enc ''pro''}"
  by (simp add: unforgeable_def toy_strict_def map_of_char_inj)

lemma toy_strict_pair: "pair_signs toy_strict 7 (sha256 toy_strict (b64_enc ''pro''))"
  by (simp add: pair_signs_def toy_strict_def toy_crypto_def)

lemma toy_strict_key:
  obtains key where "\<And>u. parse toy_strict u key = Inr (license_of_payload u (toy_payload ''pro''))"
proof -
  have p: "toy_payload ''pro'' = payload_of 1000 ''pro'' ''Acme'' ''tok'' [''cra''] (Some 5000)"
    by (simp add: toy_payload_def payload_of_def)
  have "json_enc toy_strict (toy_payload ''pro'') = ''pro''"
    "json_dec toy_strict ''pro'' = Some (toy_payload ''pro'')"
    by (simp_all add: toy_strict_def toy_crypto_def toy_payload_def)
  then show thesis
    using signWith_parse [OF _ p, of toy_strict 7] toy_strict_pair that
    by (auto simp: KnownTier_def sellableTiers_def)
qed

theorem parse_authentic_witness:
  "\<exists>key l. parse toy_strict 2000 key = Inr l \<and> hd (split2 CHR ''.'' key) = b64_enc ''pro''
     \<and> l_token l = ''tok''"
proof -
  obtain key where k: "parse toy_strict 2000 key = Inr (license_of_payload 2000 (toy_payload ''pro''))"
    using toy_strict_key by metis
  have "hd (split2 CHR ''.'' key) = b64_enc ''pro''"
    using parse_authentic [OF toy_strict_unforgeable k] by auto
  with k show ?thesis by (intro exI conjI) (assumption, assumption, simp add: license_of_payload_def toy_payload_def)
qed

text \<open>reading the same key later changes nothing but the expired flag, and that flag
  never goes back: a key that has run out stays run out.\<close>

theorem parse_later:
  assumes "parse C t key = Inr l" "t \<le> u"
  shows "\<exists>x. parse C u key = Inr (l\<lparr>l_expired := x\<rparr>) \<and> (l_expired l \<longrightarrow> x)
    \<and> x = (case l_expires l of None \<Rightarrow> False | Some e \<Rightarrow> e < u)"
  using assms(1)
proof (rule parse_Inr)
  fix a b bytes sig pub p
  assume "split2 CHR ''.'' key = [a, b]" "b64_dec a = Some bytes" "json_dec C bytes = Some p"
    "KnownTier (p_tier p)" and l: "l = license_of_payload t p"
    and "b64_dec b = Some sig" "pub_key C = Some pub"
    "verifySignature C pub (sha256 C a) (map of_char sig)"
  then have "parse C u key = Inr (license_of_payload u p)"
    by (simp add: parse_def loadPublicKey_def)
  with l assms(2) show ?thesis
    by (auto simp: license_of_payload_def split: option.splits)
qed

theorem parse_later_witness:
  "\<exists>key l. parse toy_strict 2000 key = Inr l \<and> \<not> l_expired l
     \<and> parse toy_strict 9000 key = Inr (l\<lparr>l_expired := True\<rparr>)"
proof -
  obtain key where k: "parse toy_strict 2000 key = Inr (license_of_payload 2000 (toy_payload ''pro''))"
    using toy_strict_key by metis
  let ?l = "license_of_payload 2000 (toy_payload ''pro'')"
  have "\<not> l_expired ?l" "parse toy_strict 9000 key = Inr (?l\<lparr>l_expired := True\<rparr>)"
    using parse_later [OF k, of 9000] by (auto simp: license_of_payload_def toy_payload_def)
  with k show ?thesis by blast
qed

lemma parse_expired: "parse C t key = Inr l \<Longrightarrow>
    l_expired l = (case l_expires l of None \<Rightarrow> False | Some e \<Rightarrow> e < t) \<and> \<not> l_demo l \<and> KnownTier (l_tier l)"
  by (erule parse_Inr) (simp add: license_of_payload_def)

text \<open>The fallback expiry of a hand-signed key in days.\<close>

lemma KeyExpiry_days: "KeyExpiry t interval status = add_days t
    (if status = ''trialing'' then 45 else if interval = ''year'' then 395 else 35)"
  by (simp add: KeyExpiry_def TrialExpiry_def TrialLifetimeDays_def add_date_days add_days_def)

end
