(* ===== verification/License_Gate.thy ===== *)
theory License_Gate
  imports License_Key "HOL-Library.AList"
begin

text \<open>
  The feature gate of an installation (\<^verbatim>\<open>internal/license/middleware.go\<close>,
  \<^verbatim>\<open>instance.go\<close>, \<^verbatim>\<open>routes.go\<close>, \<^verbatim>\<open>shared/platform/features/flags.go\<close>): the
  process-wide licence, the per-organisation keys of the table
  \<^verbatim>\<open>license_keys\<close>, the Redis cache in front of it, and the middleware that
  choose the licence a request is judged by. The world \<open>host\<close> holds all three, with
  the clock and the fault tape; a Redis entry is its decoded JSON value (\<^term>\<open>None\<close> when
  it does not decode) with the instant it lapses at.
\<close>

section \<open>The installation\<close>

record licenseCache =
  lc_tier :: string
  lc_features :: "string list"
  lc_org :: string
  lc_issued :: instant
  lc_expires :: "instant option"
  lc_demo :: bool
  lc_community :: bool
  lc_expired :: bool

record key_row =
  k_org :: string
  k_value :: string
  k_activated :: instant
  k_by :: string

record host = effects +
  inst :: "license option"
  license_keys :: "key_row list"
  redis :: "(string \<times> licenseCache option \<times> instant) list"
  renewalFailing :: bool
  refresh_org :: string
  calls :: "(instant \<times> string) list"

text \<open>How the process was wired: with a database, with Redis, with auto-renewal.\<close>

record wiring =
  has_db :: bool
  has_redis :: bool
  autoRenewalEnabled :: bool

definition licenceCacheTTL :: int where "licenceCacheTTL = 60"

section \<open>Instance\<close>

definition Get_instance :: "(host, license) state" where
  "Get_instance = do { t \<leftarrow> gets now; v \<leftarrow> gets inst;
     State_Monad.return (case v of Some l \<Rightarrow> l | None \<Rightarrow> communityLicense t) }"

definition Set_instance :: "license option \<Rightarrow> (host, unit) state" where
  "Set_instance l = do { t \<leftarrow> gets now;
     modify (\<lambda>s. s\<lparr>inst := Some (case l of Some x \<Rightarrow> x | None \<Rightarrow> communityLicense t)\<rparr>) }"

definition NewInstance :: "license option \<Rightarrow> (host, unit) state" where
  "NewInstance l = Set_instance l"

text \<open>\<^verbatim>\<open>Instance.Middleware\<close>: the licence put on the request context.\<close>

definition instance_middleware :: "(host, license option) state" where
  "instance_middleware = do { l \<leftarrow> Get_instance; State_Monad.return (Some l) }"

text \<open>\<^verbatim>\<open>ORDER BY activated_at DESC LIMIT 1\<close>: the latest row, the first of equals.\<close>

fun latest_row :: "key_row list \<Rightarrow> key_row option" where
  "latest_row [] = None"
| "latest_row (r # rs) = (case latest_row rs of None \<Rightarrow> Some r
     | Some q \<Rightarrow> if k_activated q > k_activated r then Some q else Some r)"

definition AdoptActivatedKey :: "crypto \<Rightarrow> wiring \<Rightarrow> (host, unit) state" where
  "AdoptActivatedKey C W =
     (if \<not> has_db W then skip
      else do {
        cur \<leftarrow> Get_instance;
        if IsPro (Some cur) \<or> l_demo cur then skip
        else do {
          ok \<leftarrow> attempt;
          rows \<leftarrow> gets license_keys;
          t \<leftarrow> gets now;
          (case (if ok then latest_row rows else None) of
             None \<Rightarrow> skip
           | Some r \<Rightarrow>
               if k_value r = '''' then skip
               else (case parse C t (k_value r) of
                   Inl _ \<Rightarrow> skip
                 | Inr lic \<Rightarrow> Set_instance (Some lic))) } })"

section \<open>The cache\<close>

definition licenseToCache :: "license \<Rightarrow> bool \<Rightarrow> licenseCache" where
  "licenseToCache l community = \<lparr>lc_tier = l_tier l, lc_features = l_features l, lc_org = l_org l,
     lc_issued = l_issued l, lc_expires = l_expires l, lc_demo = l_demo l,
     lc_community = community, lc_expired = l_expired l\<rparr>"

definition cacheToLicense :: "licenseCache \<Rightarrow> license" where
  "cacheToLicense c = \<lparr>l_tier = lc_tier c, l_features = lc_features c, l_org = lc_org c,
     l_issued = lc_issued c, l_expires = lc_expires c, l_demo = lc_demo c,
     l_token = '''', l_expired = lc_expired c\<rparr>"

definition licenseCacheKey :: "string \<Rightarrow> string" where
  "licenseCacheKey orgID = ''license:'' @ orgID"

definition InvalidateLicenseCache :: "wiring \<Rightarrow> string \<Rightarrow> (host, unit) state" where
  "InvalidateLicenseCache W orgID =
     (if \<not> has_redis W \<or> orgID = '''' then skip
      else do { _ \<leftarrow> exec (\<lambda>s. s\<lparr>redis := AList.delete (licenseCacheKey orgID) (redis s)\<rparr>); skip })"

text \<open>A Redis GET that went through and decoded; an entry is gone once its time is up.\<close>

definition cache_lookup :: "wiring \<Rightarrow> string \<Rightarrow> (host, licenseCache option) state" where
  "cache_lookup W orgID =
     (if \<not> has_redis W then State_Monad.return None
      else do {
        ok \<leftarrow> attempt;
        t \<leftarrow> gets now;
        e \<leftarrow> gets (\<lambda>s. map_of (redis s) (licenseCacheKey orgID));
        State_Monad.return (if \<not> ok then None else case e of None \<Rightarrow> None
          | Some (v, until) \<Rightarrow> if until \<le> t then None else v) })"

definition cache_store :: "wiring \<Rightarrow> string \<Rightarrow> licenseCache \<Rightarrow> (host, unit) state" where
  "cache_store W orgID lc =
     (if \<not> has_redis W then skip
      else do { _ \<leftarrow> exec (\<lambda>s. s\<lparr>redis := AList.update (licenseCacheKey orgID)
                  (Some lc, now s + licenceCacheTTL) (redis s)\<rparr>); skip })"

section \<open>The middleware\<close>

definition fall_back :: "(host, license option) state" where
  "fall_back = do { l \<leftarrow> Get_instance; State_Monad.return (Some l) }"

text \<open>The half of \<open>DBMiddleware\<close> after a cache miss.\<close>

definition db_license :: "crypto \<Rightarrow> wiring \<Rightarrow> string \<Rightarrow> (host, license option) state" where
  "db_license C W orgID = do {
     ok \<leftarrow> attempt;
     rows \<leftarrow> gets license_keys;
     t \<leftarrow> gets now;
     (case (if ok then find (\<lambda>r. k_org r = orgID) rows else None) of
        None \<Rightarrow> fall_back
      | Some r \<Rightarrow>
          if k_value r = '''' then fall_back
          else (case parse C t (k_value r) of
              Inl _ \<Rightarrow> fall_back
            | Inr lic \<Rightarrow> do {
                cache_store W orgID (licenseToCache lic False);
                State_Monad.return (Some lic) })) }"

definition DBMiddleware :: "crypto \<Rightarrow> wiring \<Rightarrow> string \<Rightarrow> license option \<Rightarrow> (host, license option) state" where
  "DBMiddleware C W orgID ctx =
     (if orgID = '''' \<or> \<not> has_db W then State_Monad.return ctx
      else do {
        hit \<leftarrow> cache_lookup W orgID;
        t \<leftarrow> gets now;
        (case hit of
           None \<Rightarrow> db_license C W orgID
         | Some lc \<Rightarrow> State_Monad.return (Some
             (if lc_community lc then communityLicense t else cacheToLicense lc))) })"

datatype refusal =
    LicenseExpired string
  | FeatureNotAvailable string
  | CSRFMissing
  | CSRFHeaderMissing
  | CSRFMismatch
  | InsufficientRole

text \<open>A 402, 403 or the next handler (\<^term>\<open>None\<close>).\<close>

definition deny :: "license option \<Rightarrow> string \<Rightarrow> refusal" where
  "deny lic feature = (case lic of
     Some l \<Rightarrow> if l_expired l then LicenseExpired feature else FeatureNotAvailable feature
   | None \<Rightarrow> FeatureNotAvailable feature)"

definition Require :: "string \<Rightarrow> string \<Rightarrow> license option \<Rightarrow> refusal option" where
  "Require feature method lic = (if \<not> Allows lic method feature then Some (deny lic feature) else None)"

definition IsEnabled :: "license option \<Rightarrow> string \<Rightarrow> string \<Rightarrow> bool" where
  "IsEnabled lic method feature = Allows lic method feature"

definition features_Require :: "string \<Rightarrow> string \<Rightarrow> license option \<Rightarrow> refusal option" where
  "features_Require feature = Require feature"

record http_request =
  rq_auth :: string            \<comment> \<open>the \<^verbatim>\<open>Authorization\<close> header, empty when absent\<close>
  rq_cookie :: "string option"  \<comment> \<open>the cookie \<^verbatim>\<open>csrf_token\<close>\<close>
  rq_header :: string          \<comment> \<open>the header \<^verbatim>\<open>X-CSRF-Token\<close>\<close>
  rq_roles :: "string list"
  rq_org :: string
  rq_user :: string

definition requireCSRF :: "http_request \<Rightarrow> refusal option" where
  "requireCSRF r =
     (if has_prefix (rq_auth r) ''Bearer sk_'' \<or> has_prefix (rq_auth r) ''Bearer vakt_'' then None
      else case rq_cookie r of
        None \<Rightarrow> Some CSRFMissing
      | Some c \<Rightarrow>
          if c = '''' then Some CSRFMissing
          else if rq_header r = '''' then Some CSRFHeaderMissing
          else if c \<noteq> rq_header r then Some CSRFMismatch
          else None)"

definition requireAdminRole :: "http_request \<Rightarrow> refusal option" where
  "requireAdminRole r = (if ''Admin'' \<in> set (rq_roles r) then None else Some InsufficientRole)"

section \<open>Running the host\<close>

text \<open>\<open>touch s s'\<close>: the step changed nothing but the tape and the cache.\<close>

definition instance_of :: "host \<Rightarrow> license" where
  "instance_of s = (case inst s of Some l \<Rightarrow> l | None \<Rightarrow> communityLicense (now s))"

lemma wp_Get_instance [wp_rules]: "wp Get_instance Q s = Q (instance_of s) s"
  by (simp add: Get_instance_def wp_rules instance_of_def)

lemma wp_Set_instance [wp_rules]: "wp (Set_instance l) Q s =
    Q () (s\<lparr>inst := Some (case l of Some x \<Rightarrow> x | None \<Rightarrow> communityLicense (now s))\<rparr>)"
  by (simp add: Set_instance_def wp_rules)

lemma wp_instance_middleware [wp_rules]: "wp instance_middleware Q s = Q (Some (instance_of s)) s"
  by (simp add: instance_middleware_def wp_rules)

lemma wp_fall_back [wp_rules]: "wp fall_back Q s = Q (Some (instance_of s)) s"
  by (simp add: fall_back_def wp_rules)

lemma instance_of_faults [simp]: "instance_of (s\<lparr>faults := t\<rparr>) = instance_of s"
  and instance_of_redis [simp]: "instance_of (s\<lparr>redis := r\<rparr>) = instance_of s"
  and instance_of_rows [simp]: "instance_of (s\<lparr>license_keys := k\<rparr>) = instance_of s"
  and instance_of_failing [simp]: "instance_of (s\<lparr>renewalFailing := b\<rparr>) = instance_of s"
  and instance_of_calls [simp]: "instance_of (s\<lparr>calls := c\<rparr>) = instance_of s"
  and instance_of_org [simp]: "instance_of (s\<lparr>refresh_org := p\<rparr>) = instance_of s"
  and instance_of_inst [simp]: "instance_of (s\<lparr>inst := Some l\<rparr>) = l"
  by (simp_all add: instance_of_def split: option.splits)

lemma licenseToCache_inverse: "l_token l = '''' \<Longrightarrow> cacheToLicense (licenseToCache l b) = l"
  by (simp add: cacheToLicense_def licenseToCache_def)

text \<open>Every cached licence was read from a signed key at most 60 s before it lapses.\<close>

definition cache_ok :: "crypto \<Rightarrow> host \<Rightarrow> bool" where
  "cache_ok C s \<longleftrightarrow> (\<forall>k lc d. map_of (redis s) k = Some (Some lc, d) \<longrightarrow> d \<le> now s + licenceCacheTTL
     \<and> (\<exists>key l. parse C (d - licenceCacheTTL) key = Inr l \<and> lc = licenseToCache l False))"

text \<open>One key per organisation, and each was valid when it was stored.\<close>

definition keys_ok :: "crypto \<Rightarrow> host \<Rightarrow> bool" where
  "keys_ok C s \<longleftrightarrow> distinct (map k_org (license_keys s)) \<and>
     (\<forall>r \<in> set (license_keys s). k_activated r \<le> now s \<and> k_value r \<noteq> '''' \<and>
        (\<exists>l. parse C (k_activated r) (k_value r) = Inr l))"

lemma cache_ok_faults [simp]: "cache_ok C (s\<lparr>faults := t\<rparr>) = cache_ok C s"
  and cache_ok_inst [simp]: "cache_ok C (s\<lparr>inst := i\<rparr>) = cache_ok C s"
  and cache_ok_rows [simp]: "cache_ok C (s\<lparr>license_keys := k\<rparr>) = cache_ok C s"
  and cache_ok_failing [simp]: "cache_ok C (s\<lparr>renewalFailing := b\<rparr>) = cache_ok C s"
  and cache_ok_calls [simp]: "cache_ok C (s\<lparr>calls := c\<rparr>) = cache_ok C s"
  and cache_ok_org [simp]: "cache_ok C (s\<lparr>refresh_org := p\<rparr>) = cache_ok C s"
  by (simp_all add: cache_ok_def)

lemma keys_ok_faults [simp]: "keys_ok C (s\<lparr>faults := t\<rparr>) = keys_ok C s"
  and keys_ok_inst [simp]: "keys_ok C (s\<lparr>inst := i\<rparr>) = keys_ok C s"
  and keys_ok_redis [simp]: "keys_ok C (s\<lparr>redis := k\<rparr>) = keys_ok C s"
  and keys_ok_failing [simp]: "keys_ok C (s\<lparr>renewalFailing := b\<rparr>) = keys_ok C s"
  and keys_ok_calls [simp]: "keys_ok C (s\<lparr>calls := c\<rparr>) = keys_ok C s"
  and keys_ok_org [simp]: "keys_ok C (s\<lparr>refresh_org := p\<rparr>) = keys_ok C s"
  by (simp_all add: keys_ok_def)

lemma cache_ok_del: "cache_ok C s \<Longrightarrow> cache_ok C (s\<lparr>redis := AList.delete k (redis s)\<rparr>)"
  by (auto simp: cache_ok_def delete_conv' split: if_splits)

lemma cache_ok_set:
  "cache_ok C s \<Longrightarrow> parse C (now s) key = Inr l \<Longrightarrow>
   cache_ok C (s\<lparr>redis := AList.update k (Some (licenseToCache l False), now s + licenceCacheTTL) (redis s)\<rparr>)"
  by (auto simp: cache_ok_def update_conv' split: if_splits)

lemma keys_ok_parse:
  assumes "keys_ok C s" "r \<in> set (license_keys s)"
  obtains l where "parse C (now s) (k_value r) = Inr l"
  using assms parse_later [of C "k_activated r" "k_value r" _ "now s"]
  unfolding keys_ok_def by (metis (no_types, lifting))

lemma cached_flag:
  assumes "cache_ok C s" "map_of (redis s) k = Some (Some lc, d)" "now s < d"
  shows "\<not> lc_community lc" "\<not> lc_demo lc" "KnownTier (lc_tier lc)"
    "lc_expires lc = Some e \<Longrightarrow> lc_expired lc \<Longrightarrow> e < now s"
    "lc_expires lc = Some e \<Longrightarrow> e + licenceCacheTTL < now s \<Longrightarrow> lc_expired lc"
    "lc_expires lc = None \<Longrightarrow> \<not> lc_expired lc"
proof -
  obtain key l where p: "parse C (d - licenceCacheTTL) key = Inr l" and lc: "lc = licenseToCache l False"
    and d: "d \<le> now s + licenceCacheTTL"
    using assms(1,2) unfolding cache_ok_def by blast
  have x: "l_expired l = (case l_expires l of None \<Rightarrow> False | Some e \<Rightarrow> e < d - licenceCacheTTL)"
    "\<not> l_demo l" "KnownTier (l_tier l)"
    using parse_expired [OF p] by auto
  show "\<not> lc_community lc" "\<not> lc_demo lc" "KnownTier (lc_tier lc)"
    "lc_expires lc = Some e \<Longrightarrow> lc_expired lc \<Longrightarrow> e < now s"
    "lc_expires lc = Some e \<Longrightarrow> e + licenceCacheTTL < now s \<Longrightarrow> lc_expired lc"
    "lc_expires lc = None \<Longrightarrow> \<not> lc_expired lc"
    using x lc d assms(3) by (auto simp: licenseToCache_def)
qed

text \<open>The licence a per-organisation request is judged by: right about its expiry, up to
  the cache's sixty seconds.\<close>

definition expiry_current :: "instant \<Rightarrow> license \<Rightarrow> bool" where
  "expiry_current t l \<longleftrightarrow> \<not> l_demo l \<and> KnownTier (l_tier l) \<and> (case l_expires l of
     None \<Rightarrow> \<not> l_expired l
   | Some e \<Rightarrow> (l_expired l \<longrightarrow> e < t) \<and> (e + licenceCacheTTL < t \<longrightarrow> l_expired l))"

lemma parse_expiry_current: "parse C t key = Inr l \<Longrightarrow> expiry_current t l"
  using parse_expired [of C t key l]
  by (auto simp: expiry_current_def licenceCacheTTL_def split: option.splits)

lemma cached_expiry_current:
  assumes "cache_ok C s" "map_of (redis s) k = Some (Some lc, d)" "now s < d"
  shows "\<not> lc_community lc \<and> expiry_current (now s) (cacheToLicense lc)"
  using cached_flag [OF assms]
  by (auto simp: expiry_current_def cacheToLicense_def split: option.splits)

lemma wp_cache_lookup:
  assumes "\<And>t v. v = None \<or> (\<exists>d. map_of (redis s) (licenseCacheKey org) = Some (v, d) \<and> now s < d) \<Longrightarrow>
      Q v (s\<lparr>faults := t\<rparr>)"
  shows "wp (cache_lookup W org) Q s"
proof (cases "has_redis W")
  case True
  show ?thesis unfolding cache_lookup_def wp_rules using True
    by (auto intro!: wp_attempt assms simp: wp_rules split: option.splits)
next
  case False
  have "s = s\<lparr>faults := faults s\<rparr>" by simp
  with False assms [of None "faults s"] show ?thesis by (simp add: cache_lookup_def wp_rules)
qed

text \<open>What the middleware hands to the gate, in every state the cache can be in.\<close>

lemma wp_cache_store:
  assumes "\<And>t. Q () (s\<lparr>faults := t\<rparr>)"
    and "\<And>t. Q () (s\<lparr>faults := t, redis := AList.update (licenseCacheKey org)
      (Some lc, now s + licenceCacheTTL) (redis s)\<rparr>)"
  shows "wp (cache_store W org lc) Q s"
proof (cases "has_redis W")
  case True
  show ?thesis unfolding cache_store_def wp_rules using True
    by (auto intro!: wp_exec simp: wp_rules assms)
next
  case False
  have "s = s\<lparr>faults := faults s\<rparr>" by simp
  with False assms(1) [of "faults s"] show ?thesis by (simp add: cache_store_def wp_rules)
qed

text \<open>The whole of a request's licence lookup, as one rule: the context's licence is left
  alone, or a per-organisation licence whose expiry is current is served, or the
  installation's licence.\<close>

lemma wp_db_license:
  assumes "\<And>t. Q (Some (instance_of s)) (s\<lparr>faults := t\<rparr>)"
    and "\<And>l t. expiry_current (now s) l \<Longrightarrow> Q (Some l) (s\<lparr>faults := t\<rparr>)"
    and "\<And>l t key. expiry_current (now s) l \<Longrightarrow> parse C (now s) key = Inr l \<Longrightarrow>
      Q (Some l) (s\<lparr>faults := t, redis := AList.update (licenseCacheKey org)
        (Some (licenseToCache l False), now s + licenceCacheTTL) (redis s)\<rparr>)"
  shows "wp (db_license C W org) Q s"
  unfolding db_license_def
  using parse_expiry_current [of C "now s"]
  by (intro wp_intros wp_cache_store) (auto simp: wp_rules assms)

lemma wp_DBMiddleware:
  assumes "cache_ok C s"
    and "org = [] \<or> \<not> has_db W \<Longrightarrow> Q ctx s"
    and "\<And>t. Q (Some (instance_of s)) (s\<lparr>faults := t\<rparr>)"
    and "\<And>l t. expiry_current (now s) l \<Longrightarrow> Q (Some l) (s\<lparr>faults := t\<rparr>)"
    and "\<And>l t key. expiry_current (now s) l \<Longrightarrow> parse C (now s) key = Inr l \<Longrightarrow>
      Q (Some l) (s\<lparr>faults := t, redis := AList.update (licenseCacheKey org)
        (Some (licenseToCache l False), now s + licenceCacheTTL) (redis s)\<rparr>)"
  shows "wp (DBMiddleware C W org ctx) Q s"
  unfolding DBMiddleware_def
  using assms(2) cached_expiry_current [OF assms(1)]
  by (intro wp_intros wp_cache_lookup wp_db_license) (auto simp: assms(3-))

lemma keeps_DBMiddleware: "keeps (\<lambda>s. cache_ok C s \<and> keys_ok C s) (DBMiddleware C W org ctx)"
proof (rule keepsI)
  fix s :: host
  assume s: "cache_ok C s \<and> keys_ok C s"
  have set: "cache_ok C (s\<lparr>faults := t, redis := AList.update k (Some (licenseToCache l False),
      now s + licenceCacheTTL) (redis s)\<rparr>)" if "parse C (now s) key = Inr l" for t k l key
    using cache_ok_set [of C "s\<lparr>faults := t\<rparr>" key l k] that s by simp
  show "wp (DBMiddleware C W org ctx) (\<lambda>_ s. cache_ok C s \<and> keys_ok C s) s"
    by (rule wp_DBMiddleware [of C]) (use s set in auto)
qed

text \<open>C4: whatever the cache holds, a request of an organisation is judged by the licence the
  context already had, by the installation's licence, or by a licence of a sold tier whose
  expired flag is never set early and at most sixty seconds late.\<close>

theorem DBMiddleware_staleness:
  assumes "cache_ok C s" "run_state (DBMiddleware C W org ctx) s = (lic, s')"
  shows "lic = ctx \<or> lic = Some (instance_of s) \<or>
    (\<exists>l. lic = Some l \<and> \<not> l_demo l \<and> KnownTier (l_tier l) \<and>
       (case l_expires l of None \<Rightarrow> \<not> l_expired l
        | Some e \<Rightarrow> (l_expired l \<longrightarrow> e < now s) \<and> (e + 60 < now s \<longrightarrow> l_expired l)))"
proof -
  have "wp (DBMiddleware C W org ctx) (\<lambda>lic _. lic = ctx \<or> lic = Some (instance_of s) \<or>
    (\<exists>l. lic = Some l \<and> expiry_current (now s) l)) s"
    by (rule wp_DBMiddleware [OF assms(1)]) auto
  from wp_run [OF this assms(2)] show ?thesis
    unfolding expiry_current_def licenceCacheTTL_def by blast
qed

definition sample_row :: "string \<Rightarrow> key_row" where
  "sample_row key = \<lparr>k_org = ''acme'', k_value = key, k_activated = 1500, k_by = ''u1''\<rparr>"

definition sample_host :: "instant \<Rightarrow> key_row list \<Rightarrow> host" where
  "sample_host t rows = \<lparr>faults = [], now = t, fresh = 0, inst = Some (communityLicense 0),
     license_keys = rows, redis = [], renewalFailing = False, refresh_org = '''', calls = []\<rparr>"

definition wired :: wiring where "wired = \<lparr>has_db = True, has_redis = True, autoRenewalEnabled = True\<rparr>"

text \<open>A host that answered one request at 2000 and is asked again at \<open>t\<close>: the answer comes
  from the cache while \<open>t < 2060\<close>.\<close>

lemma sample_miss:
  assumes "parse C t key = Inr l" "key \<noteq> ''''"
  shows "run_state (DBMiddleware C wired ''acme'' None) (sample_host t [sample_row key]) =
    (Some l, (sample_host t [sample_row key])\<lparr>redis := [(licenseCacheKey ''acme'',
       Some (licenseToCache l False), t + 60)]\<rparr>)"
  using assms by (simp add: DBMiddleware_def db_license_def cache_lookup_def cache_store_def exec_def wired_def
      sample_host_def sample_row_def run_simps licenceCacheTTL_def)

theorem DBMiddleware_staleness_witness:
  "\<exists>key l s'. run_state (DBMiddleware toy_strict wired ''acme'' None)
      (sample_host 9000 [sample_row key]) = (Some l, s') \<and> l_expired l"
proof -
  obtain key where k: "\<And>u. parse toy_strict u key = Inr (license_of_payload u (toy_payload ''pro''))"
    using toy_strict_key by blast
  have "key \<noteq> ''''" using k [of 0] by (auto simp: parse_def split2_def)
  note r = sample_miss [OF k [of 9000] this]
  have c: "cache_ok toy_strict (sample_host 9000 [sample_row key])"
    by (simp add: cache_ok_def sample_host_def)
  have "l_expired (license_of_payload 9000 (toy_payload ''pro''))"
    using DBMiddleware_staleness [OF c r]
    by (simp add: license_of_payload_def toy_payload_def sample_host_def instance_of_def communityLicense_def)
  with r show ?thesis by blast
qed

text \<open>the guard chain of the activation route lets a request through exactly when it is an
  API-key call or echoes a non-empty CSRF cookie, and its user holds the Admin role.\<close>

theorem activation_guards:
  "requireCSRF r = None \<and> requireAdminRole r = None \<longleftrightarrow>
   (has_prefix (rq_auth r) ''Bearer sk_'' \<or> has_prefix (rq_auth r) ''Bearer vakt_''
     \<or> (rq_header r \<noteq> '''' \<and> rq_cookie r = Some (rq_header r)))
   \<and> ''Admin'' \<in> set (rq_roles r)"
  by (auto simp: requireCSRF_def requireAdminRole_def split: option.splits)

text \<open>both names of the gate are one decision, and a refusal names the renewal exactly
  when the key that was presented has run out.\<close>

theorem Require_decision:
  "features_Require f m lic = (if IsEnabled lic m f then None
     else Some (if \<exists>l. lic = Some l \<and> l_expired l then LicenseExpired f else FeatureNotAvailable f))"
  by (auto simp: features_Require_def Require_def IsEnabled_def deny_def split: option.splits)

text \<open>The installation's own licence is read once: its expired flag is the one it had when it
  was set, whatever the clock says.\<close>

lemma instance_frozen:
  "inst s = Some l \<Longrightarrow> run_state instance_middleware (s\<lparr>now := t\<rparr>) = (Some l, s\<lparr>now := t\<rparr>)"
  by (simp add: instance_middleware_def Get_instance_def run_simps)



end
