(* ===== verification/License_Instance.thy ===== *)
theory License_Instance
  imports License_Gate "HOL-Library.Signed_Division"
begin

text \<open>
  Activation and automatic renewal of an installation's key
  (\<^verbatim>\<open>internal/license/handler.go\<close>, \<^verbatim>\<open>autorefresh.go\<close>). The renewal server is a
  function from the instant and the presented token to its reply; a machine over
  activation, requests, renewal checks, restarts and the clock gives the invariants
  of the stored keys.
\<close>

section \<open>The licence endpoint\<close>

record licenseResponse =
  lr_tier :: string
  lr_isPro :: bool
  lr_features :: "string list"
  lr_org :: string
  lr_expires :: "instant option"
  lr_demo :: bool
  lr_auto :: bool
  lr_failing :: bool

definition response_of :: "wiring \<Rightarrow> bool \<Rightarrow> license \<Rightarrow> licenseResponse" where
  "response_of W failing lic = \<lparr>lr_tier = l_tier lic, lr_isPro = IsPro (Some lic),
     lr_features = l_features lic, lr_org = l_org lic, lr_expires = l_expires lic,
     lr_demo = l_demo lic, lr_auto = autoRenewalEnabled W, lr_failing = failing\<rparr>"

definition setRenewalFailing :: "bool \<Rightarrow> (host, unit) state" where
  "setRenewalFailing failing = modify (\<lambda>s. s\<lparr>renewalFailing := failing\<rparr>)"

definition RenewalFailing :: "(host, bool) state" where
  "RenewalFailing = gets renewalFailing"

definition Get :: "wiring \<Rightarrow> license option \<Rightarrow> (host, licenseResponse) state" where
  "Get W ctx = do {
     lic \<leftarrow> (case ctx of Some l \<Rightarrow> State_Monad.return l | None \<Rightarrow> Get_instance);
     failing \<leftarrow> RenewalFailing;
     State_Monad.return (response_of W failing lic) }"

datatype activation_message = MsgFormat | MsgNotVerified | MsgExpired | MsgWrongOrg | MsgInvalid

datatype activation_error =
    InvalidBody
  | KeyMissing
  | InvalidKey activation_message
  | NoOrg
  | PersistFailed

text \<open>The error texts \<open>Activate\<close> searches; those of the library errors stand for any
  text of \<^verbatim>\<open>encoding/base64\<close> and \<^verbatim>\<open>encoding/json\<close>.\<close>

definition error_text :: "licenseError \<Rightarrow> string" where
  "error_text e = (case e of
     ErrInvalidFormat \<Rightarrow> ''invalid license key format''
   | ErrInvalidSignature \<Rightarrow> ''license signature verification failed''
   | ErrUnknownTier \<Rightarrow> ''license tier is not sold by this build''
   | ErrInvalidKey \<Rightarrow> ''invalid public key''
   | ErrBase64 \<Rightarrow> ''illegal base64 data at input byte''
   | ErrJson \<Rightarrow> ''invalid character in JSON'')"

definition activation_message :: "string \<Rightarrow> activation_message" where
  "activation_message m =
     (if sublist ''invalid license key format'' m then MsgFormat
      else if sublist ''signature verification failed'' m then MsgNotVerified
      else if sublist ''license has expired'' m then MsgExpired
      else if sublist ''org_id mismatch'' m then MsgWrongOrg
      else MsgInvalid)"

text \<open>\<^verbatim>\<open>INSERT ... ON CONFLICT (org_id) DO UPDATE\<close>.\<close>

definition upsert_key :: "string \<Rightarrow> string \<Rightarrow> instant \<Rightarrow> string \<Rightarrow> key_row list \<Rightarrow> key_row list" where
  "upsert_key org key t user rows =
     (if \<exists>r \<in> set rows. k_org r = org
      then update_where (\<lambda>r. k_org r = org)
        (\<lambda>r. r\<lparr>k_value := key, k_activated := t, k_by := user\<rparr>) rows
      else rows @ [\<lparr>k_org = org, k_value = key, k_activated = t, k_by = user\<rparr>])"

text \<open>Persisting: the error to answer with, if any. An empty user id is not a UUID.\<close>

definition persist_key :: "wiring \<Rightarrow> http_request \<Rightarrow> string \<Rightarrow> (host, activation_error option) state" where
  "persist_key W r key =
     (if \<not> has_db W then State_Monad.return None
      else if rq_org r = '''' then State_Monad.return (Some NoOrg)
      else if rq_user r = '''' then State_Monad.return (Some PersistFailed)
      else do {
        ok \<leftarrow> exec (\<lambda>s. s\<lparr>license_keys := upsert_key (rq_org r) key (now s) (rq_user r) (license_keys s)\<rparr>);
        State_Monad.return (if ok then None else Some PersistFailed) })"

definition Activate :: "crypto \<Rightarrow> wiring \<Rightarrow> http_request \<Rightarrow> string option
    \<Rightarrow> (host, activation_error + licenseResponse) state" where
  "Activate C W r body = (case body of
     None \<Rightarrow> State_Monad.return (Inl InvalidBody)
   | Some key \<Rightarrow>
       if key = '''' then State_Monad.return (Inl KeyMissing)
       else do {
         t \<leftarrow> gets now;
         (case parse C t key of
            Inl e \<Rightarrow> State_Monad.return (Inl (InvalidKey (activation_message (error_text e))))
          | Inr lic \<Rightarrow> do {
              failed \<leftarrow> persist_key W r key;
              (case failed of
                 Some e \<Rightarrow> State_Monad.return (Inl e)
               | None \<Rightarrow> do {
                   Set_instance (Some lic);
                   InvalidateLicenseCache W (rq_org r);
                   failing \<leftarrow> RenewalFailing;
                   State_Monad.return (Inr (response_of W failing lic)) }) }) })"

text \<open>The route: CSRF, role, rate limiter (an argument), handler.\<close>

definition activate_route :: "crypto \<Rightarrow> wiring \<Rightarrow> bool \<Rightarrow> http_request \<Rightarrow> string option
    \<Rightarrow> (host, refusal option + (activation_error + licenseResponse)) state" where
  "activate_route C W limited r body = (case requireCSRF r of
     Some x \<Rightarrow> State_Monad.return (Inl (Some x))
   | None \<Rightarrow> (case requireAdminRole r of
       Some x \<Rightarrow> State_Monad.return (Inl (Some x))
     | None \<Rightarrow> if limited then State_Monad.return (Inl None)
         else do { a \<leftarrow> Activate C W r body; State_Monad.return (Inr a) }))"

section \<open>Automatic renewal\<close>

text \<open>Durations are nanoseconds, as in \<^verbatim>\<open>time.Duration\<close>; \<open>sdiv\<close> truncates like Go.\<close>

definition nanos :: int where "nanos = 1000000000"
definition checkInterval :: int where "checkInterval = 24 * 3600"
definition maxRenewWindow :: int where "maxRenewWindow = 30 * 24 * 3600 * nanos"

record refresher =
  r_token :: string
  r_enabled :: bool

text \<open>The reply of the billing server: none, or a status with the decoded key field.\<close>

datatype reply = NoReply | Reply nat "string option"

definition renewWindow :: "license option \<Rightarrow> int" where
  "renewWindow lic = (case lic of None \<Rightarrow> 0 | Some l \<Rightarrow> (case l_expires l of None \<Rightarrow> 0
     | Some e \<Rightarrow> let lifetime = (e - l_issued l) * nanos; w = lifetime sdiv 4
         in if w > maxRenewWindow then maxRenewWindow else w))"

definition currentToken :: "refresher \<Rightarrow> (host, string) state" where
  "currentToken R = do { lic \<leftarrow> Get_instance;
     State_Monad.return (if l_token lic \<noteq> '''' then l_token lic else r_token R) }"

definition due :: "(host, bool) state" where
  "due = do { lic \<leftarrow> Get_instance; t \<leftarrow> gets now;
     State_Monad.return (case l_expires lic of None \<Rightarrow> False
       | Some e \<Rightarrow> (e - t) * nanos < renewWindow (Some lic)) }"

definition reply_key :: "reply \<Rightarrow> string option" where
  "reply_key r = (case r of NoReply \<Rightarrow> None
     | Reply code k \<Rightarrow> if code \<noteq> 200 then None
         else (case k of None \<Rightarrow> None | Some key \<Rightarrow> if key = '''' then None else Some key))"

definition fetchKey :: "(instant \<Rightarrow> string \<Rightarrow> reply) \<Rightarrow> refresher \<Rightarrow> (host, string option) state" where
  "fetchKey server R = do {
     t \<leftarrow> gets now;
     tok \<leftarrow> currentToken R;
     modify (\<lambda>s. s\<lparr>calls := (t, tok) # calls s\<rparr>);
     State_Monad.return (reply_key (server t tok)) }"

text \<open>Storing the renewed key for the organisation that activated one.\<close>

definition persist_refreshed :: "wiring \<Rightarrow> string \<Rightarrow> (host, unit) state" where
  "persist_refreshed W key =
     (if \<not> has_db W then skip
      else do {
        known \<leftarrow> gets refresh_org;
        (if known = '''' then do {
           ok \<leftarrow> attempt;
           rows \<leftarrow> gets license_keys;
           (case (if ok then latest_row rows else None) of None \<Rightarrow> skip
            | Some r \<Rightarrow> modify (\<lambda>s. s\<lparr>refresh_org := k_org r\<rparr>)) }
         else skip);
        org \<leftarrow> gets refresh_org;
        if org = '''' then skip
        else do {
          _ \<leftarrow> exec (\<lambda>s. s\<lparr>license_keys := update_where (\<lambda>r. k_org r = org)
                 (\<lambda>r. r\<lparr>k_value := key, k_activated := now s\<rparr>) (license_keys s)\<rparr>);
          skip } })"

text \<open>\<^verbatim>\<open>SCAN license:*\<close> and a DEL per key; a broken scan is a run of failed deletions.\<close>

definition drop_cached :: "wiring \<Rightarrow> (host, unit) state" where
  "drop_cached W =
     (if \<not> has_redis W then skip
      else do {
        ks \<leftarrow> gets (\<lambda>s. filter (\<lambda>k. has_prefix k ''license:'') (map fst (redis s)));
        for_each (\<lambda>k. do { _ \<leftarrow> exec (\<lambda>s. s\<lparr>redis := AList.delete k (redis s)\<rparr>); skip }) ks })"

definition not_newer :: "license \<Rightarrow> license \<Rightarrow> bool" where
  "not_newer current lic \<longleftrightarrow> (case (l_expires current, l_expires lic) of
     (Some c, Some e) \<Rightarrow> \<not> e > c | _ \<Rightarrow> False)"

definition tryRefresh :: "crypto \<Rightarrow> wiring \<Rightarrow> refresher \<Rightarrow> (instant \<Rightarrow> string \<Rightarrow> reply) \<Rightarrow> (host, unit) state" where
  "tryRefresh C W R server = do {
     k \<leftarrow> fetchKey server R;
     (case k of
        None \<Rightarrow> setRenewalFailing True
      | Some key \<Rightarrow> do {
          t \<leftarrow> gets now;
          (case parse C t key of
             Inl _ \<Rightarrow> setRenewalFailing True
           | Inr lic \<Rightarrow> do {
               current \<leftarrow> Get_instance;
               if not_newer current lic then setRenewalFailing True
               else do {
                 Set_instance (Some lic);
                 setRenewalFailing False;
                 persist_refreshed W key;
                 drop_cached W } }) }) }"

definition check :: "crypto \<Rightarrow> wiring \<Rightarrow> refresher \<Rightarrow> (instant \<Rightarrow> string \<Rightarrow> reply) \<Rightarrow> (host, unit) state" where
  "check C W R server = do {
     d \<leftarrow> due;
     if \<not> d then setRenewalFailing False
     else do {
       tok \<leftarrow> currentToken R;
       if tok = '''' then setRenewalFailing True
       else tryRefresh C W R server } }"

text \<open>The loop: an immediate check, then one per tick until the context is cancelled
  after \<open>n\<close> ticks.\<close>

definition Start :: "crypto \<Rightarrow> wiring \<Rightarrow> refresher \<Rightarrow> (instant \<Rightarrow> string \<Rightarrow> reply) \<Rightarrow> nat \<Rightarrow> (host, unit) state" where
  "Start C W R server n =
     (if \<not> r_enabled R then skip
      else do {
        check C W R server;
        for_each (\<lambda>_. do { modify (\<lambda>s. s\<lparr>now := now s + checkInterval\<rparr>);
                           check C W R server }) [0..<n] })"

section \<open>When the installation calls\<close>

lemma sdiv_four: "4 dvd x \<Longrightarrow> x sdiv 4 = (x :: int) div 4"
  by (auto simp: signed_divide_int_def sgn_if abs_if elim!: dvdE)

lemma renewWindow_Some:
  "l_expires l = Some e \<Longrightarrow> renewWindow (Some l) = min (nanos div 4 * (e - l_issued l)) maxRenewWindow"
  by (auto simp: renewWindow_def Let_def sdiv_four nanos_def min_def)

definition is_due :: "license \<Rightarrow> instant \<Rightarrow> bool" where
  "is_due l t \<longleftrightarrow> (\<exists>e. l_expires l = Some e \<and> 4 * (e - t) < e - l_issued l \<and> e - t < 30 * secs_per_day)"

lemma wp_due [wp_rules]: "wp due Q s = Q (is_due (instance_of s) (now s)) s"
proof -
  have "(case l_expires l of None \<Rightarrow> False | Some e \<Rightarrow> (e - t) * nanos < renewWindow (Some l)) = is_due l t"
    for l t
  proof (cases "l_expires l")
    case (Some e)
    have w: "renewWindow (Some l) = min (250000000 * (e - l_issued l)) 2592000000000000"
      by (simp add: renewWindow_Some [OF Some] nanos_def maxRenewWindow_def)
    show ?thesis unfolding w is_due_def Some nanos_def min_less_iff_conj by auto
  qed (simp add: is_due_def)
  then show ?thesis by (simp add: due_def wp_rules)
qed

lemma wp_currentToken [wp_rules]: "wp (currentToken R) Q s =
    Q (if l_token (instance_of s) \<noteq> '''' then l_token (instance_of s) else r_token R) s"
  by (simp add: currentToken_def wp_rules)

lemma wp_setRenewalFailing [wp_rules]: "wp (setRenewalFailing b) Q s = Q () (s\<lparr>renewalFailing := b\<rparr>)"
  by (simp add: setRenewalFailing_def wp_rules)

lemma wp_RenewalFailing [wp_rules]: "wp RenewalFailing Q s = Q (renewalFailing s) s"
  by (simp add: RenewalFailing_def wp_rules)

lemma run_due: "run_state due s = (is_due (instance_of s) (now s), s)"
  using wp_due [of "\<lambda>d t. d = is_due (instance_of s) (now s) \<and> t = s" s]
  by (cases "run_state due s") (simp add: wp_def)

text \<open>the clock gate. The installation asks for a new key exactly when its key has an expiry
  that lies less than 30 days and less than a quarter of the key's own lifetime ahead.\<close>

theorem due_window:
  "run_state due s = (\<exists>e. l_expires (instance_of s) = Some e \<and>
     4 * (e - now s) < e - l_issued (instance_of s) \<and> e - now s < 30 * 86400, s)"
  by (simp add: run_due is_due_def)

section \<open>What a check does\<close>

definition bearer :: "refresher \<Rightarrow> host \<Rightarrow> string" where
  "bearer R s = (if l_token (instance_of s) \<noteq> '''' then l_token (instance_of s) else r_token R)"

text \<open>A reply worth installing: a key that verifies and does not expire earlier.\<close>

definition offers :: "crypto \<Rightarrow> refresher \<Rightarrow> (instant \<Rightarrow> string \<Rightarrow> reply) \<Rightarrow> host \<Rightarrow> license \<Rightarrow> string \<Rightarrow> bool" where
  "offers C R server s l key \<longleftrightarrow> server (now s) (bearer R s) = Reply 200 (Some key) \<and> key \<noteq> ''''
     \<and> parse C (now s) key = Inr l \<and> \<not> not_newer (instance_of s) l"

lemma wp_fetchKey [wp_rules]: "wp (fetchKey server R) Q s =
    Q (reply_key (server (now s) (bearer R s)))
      (s\<lparr>calls := (now s, bearer R s) # calls s\<rparr>)"
  by (simp add: fetchKey_def wp_rules bearer_def)

lemma reply_key_Some: "reply_key r = Some key \<longleftrightarrow> r = Reply 200 (Some key) \<and> key \<noteq> ''''"
  by (auto simp: reply_key_def split: reply.splits option.splits)

text \<open>The rest of the world a check may touch: the table and the cache, whose keys only
  come from the check itself.\<close>

text \<open>The tape is written under every other update, so that two ways to the same world are
  the same term.\<close>

lemma faults_inner:
  fixes s :: host
  shows "s\<lparr>refresh_org := p, faults := t\<rparr> = s\<lparr>faults := t, refresh_org := p\<rparr>"
    "s\<lparr>license_keys := k, faults := t\<rparr> = s\<lparr>faults := t, license_keys := k\<rparr>"
    "s\<lparr>redis := c, faults := t\<rparr> = s\<lparr>faults := t, redis := c\<rparr>"
    "s\<lparr>inst := i, faults := t\<rparr> = s\<lparr>faults := t, inst := i\<rparr>"
    "s\<lparr>renewalFailing := b, faults := t\<rparr> = s\<lparr>faults := t, renewalFailing := b\<rparr>"
    "s\<lparr>calls := l, faults := t\<rparr> = s\<lparr>faults := t, calls := l\<rparr>"
  by simp_all

lemma wp_persist_refreshed:
  assumes "\<And>t p. Q () (s\<lparr>faults := t, refresh_org := p\<rparr>)"
    and "\<And>t p. Q () (s\<lparr>faults := t, refresh_org := p, license_keys :=
      update_where (\<lambda>r. k_org r = p) (\<lambda>r. r\<lparr>k_value := key, k_activated := now s\<rparr>) (license_keys s)\<rparr>)"
  shows "wp (persist_refreshed W key) Q s"
proof -
  have r: "Q () s" "Q () (s\<lparr>faults := t\<rparr>)" "Q () (s\<lparr>faults := t, license_keys :=
      update_where (\<lambda>r. k_org r = refresh_org s) (\<lambda>r. r\<lparr>k_value := key, k_activated := now s\<rparr>) (license_keys s)\<rparr>)" for t
    using assms(1) [where t = "faults s" and p = "refresh_org s"]
      assms(1) [where t = t and p = "refresh_org s"] assms(2) [where t = t and p = "refresh_org s"]
    by simp_all
  then show ?thesis unfolding persist_refreshed_def
    by (intro wp_intros) (auto simp: wp_rules faults_inner assms)
qed

text \<open>A cache that lost some of its entries.\<close>

definition fewer :: "('k \<times> 'v) list \<Rightarrow> ('k \<times> 'v) list \<Rightarrow> bool" where
  "fewer c r \<longleftrightarrow> (\<forall>k. map_of c k = map_of r k \<or> map_of c k = None)"

lemma fewer_refl: "fewer c c"
  by (simp add: fewer_def)

lemma fewer_delete: "fewer c (AList.delete k r) \<Longrightarrow> fewer c r"
  unfolding fewer_def delete_conv' by (metis fun_upd_apply)

lemma cache_ok_fewer: "cache_ok C s \<Longrightarrow> fewer c (redis s) \<Longrightarrow> cache_ok C (s\<lparr>redis := c\<rparr>)"
  unfolding cache_ok_def fewer_def
  by (simp add: all_simps) (metis option.distinct(1))

lemma wp_drop_cached:
  assumes "\<And>t c. fewer c (redis s) \<Longrightarrow> Q () (s\<lparr>faults := t, redis := c\<rparr>)"
  shows "wp (drop_cached W) Q s"
proof -
  have "wp (for_each (\<lambda>k. do { _ \<leftarrow> exec (\<lambda>s. s\<lparr>redis := AList.delete k (redis s)\<rparr>); skip }) ks) Q s"
    if "\<And>t c. fewer c (redis s) \<Longrightarrow> Q () (s\<lparr>faults := t, redis := c\<rparr>)" for ks and s :: host
    using that
  proof (induction ks arbitrary: s)
    case Nil
    from Nil [OF fewer_refl, of "faults s"] show ?case by (simp add: wp_rules)
  next
    case (Cons k ks)
    have q: "Q () (s\<lparr>faults := t, redis := c\<rparr>)"
      if "fewer c (redis s) \<or> fewer c (AList.delete k (redis s))" for t c
      using that Cons.prems [of c t] fewer_delete [of c k "redis s"] by auto
    let ?rest = "\<lambda>s. wp (for_each (\<lambda>k. do { _ \<leftarrow> exec (\<lambda>s. s\<lparr>redis := AList.delete k (redis s)\<rparr>); skip }) ks) Q s"
    have "?rest (s\<lparr>faults := t\<rparr>)" "?rest ((s\<lparr>faults := t\<rparr>)\<lparr>redis := AList.delete k (redis (s\<lparr>faults := t\<rparr>))\<rparr>)" for t
      by (rule Cons.IH; simp add: q faults_inner)+
    then show ?case by (simp add: wp_bind wp_skip wp_exec)
  qed
  from this [OF assms] have d: "wp (for_each (\<lambda>k. do { _ \<leftarrow> exec (\<lambda>s. s\<lparr>redis := AList.delete k (redis s)\<rparr>); skip }) ks) Q s"
    for ks by blast
  have "Q () s" using assms [OF fewer_refl, of "faults s"] by simp
  then show ?thesis unfolding drop_cached_def by (intro wp_intros d)
qed

definition renewed_rows :: "string \<Rightarrow> string \<Rightarrow> instant \<Rightarrow> key_row list \<Rightarrow> key_row list" where
  "renewed_rows p key t rows =
     update_where (\<lambda>r. k_org r = p) (\<lambda>r. r\<lparr>k_value := key, k_activated := t\<rparr>) rows"

lemma wp_tryRefresh:
  assumes "\<not> (\<exists>l key. offers C R server s l key) \<Longrightarrow>
      Q () (s\<lparr>calls := (now s, bearer R s) # calls s, renewalFailing := True\<rparr>)"
    and "\<And>l key s'. offers C R server s l key \<Longrightarrow> inst s' = Some l \<Longrightarrow> \<not> renewalFailing s' \<Longrightarrow>
      calls s' = (now s, bearer R s) # calls s \<Longrightarrow> now s' = now s \<Longrightarrow> fewer (redis s') (redis s) \<Longrightarrow>
      license_keys s' = license_keys s \<or> (\<exists>p. license_keys s' = renewed_rows p key (now s) (license_keys s)) \<Longrightarrow>
      Q () s'"
  shows "wp (tryRefresh C W R server) Q s"
proof -
  let ?s = "s\<lparr>calls := (now s, bearer R s) # calls s\<rparr>"
  let ?reply = "reply_key (server (now s) (bearer R s))"
  show ?thesis
  proof (cases "\<exists>l key. offers C R server s l key")
    case True
    then obtain l key where o: "offers C R server s l key" by blast
    then have r: "?reply = Some key" "parse C (now s) key = Inr l" "\<not> not_newer (instance_of s) l"
      by (auto simp: offers_def reply_key_Some)
    show ?thesis unfolding tryRefresh_def wp_bind wp_fetchKey r(1)
      by (simp add: wp_rules r del: fun_upd_apply,
          intro wp_persist_refreshed wp_drop_cached)
        (rule assms(2) [OF o]; auto simp: renewed_rows_def)+
  next
    case False
    have "not_newer (instance_of s) l" if "?reply = Some key" "parse C (now s) key = Inr l" for key l
      using False that by (auto simp: offers_def reply_key_Some)
    then have "wp (case ?reply of None \<Rightarrow> setRenewalFailing True
      | Some key \<Rightarrow> do {
          t \<leftarrow> gets now;
          (case parse C t key of
             Inl _ \<Rightarrow> setRenewalFailing True
           | Inr lic \<Rightarrow> do {
               current \<leftarrow> Get_instance;
               if not_newer current lic then setRenewalFailing True
               else do {
                 Set_instance (Some lic);
                 setRenewalFailing False;
                 persist_refreshed W key;
                 drop_cached W } }) }) Q ?s"
      using assms(1) [OF False] by (intro wp_intros) (auto simp: wp_rules)
    then show ?thesis by (simp add: tryRefresh_def wp_rules)
  qed
qed

lemma wp_check:
  assumes "\<not> is_due (instance_of s) (now s) \<Longrightarrow> Q () (s\<lparr>renewalFailing := False\<rparr>)"
    and "is_due (instance_of s) (now s) \<Longrightarrow> bearer R s = '''' \<Longrightarrow> Q () (s\<lparr>renewalFailing := True\<rparr>)"
    and "is_due (instance_of s) (now s) \<Longrightarrow> bearer R s \<noteq> '''' \<Longrightarrow> wp (tryRefresh C W R server) Q s"
  shows "wp (check C W R server) Q s"
  using assms by (auto simp: check_def wp_rules bearer_def)

text \<open>one renewal check, completely. Outside the window it only clears the warning; without
  a token it only raises it; otherwise it presents the key's own token once, and either no
  acceptable newer key came back and nothing but the warning changed, or the key that came
  back is now the installation's and the warning is off.\<close>

theorem check_outcome:
  assumes "run_state (check C W R server) s = ((), s')"
  shows "if \<not> is_due (instance_of s) (now s) then s' = s\<lparr>renewalFailing := False\<rparr>
    else if bearer R s = '''' then s' = s\<lparr>renewalFailing := True\<rparr>
    else if \<not> (\<exists>l key. offers C R server s l key)
    then s' = s\<lparr>calls := (now s, bearer R s) # calls s, renewalFailing := True\<rparr>
    else \<exists>l key. offers C R server s l key \<and> inst s' = Some l \<and> \<not> renewalFailing s'
      \<and> calls s' = (now s, bearer R s) # calls s"
  by (rule wp_run [OF _ assms, where Q = "\<lambda>_ s'. _ s'"], intro wp_check wp_tryRefresh) auto

text \<open>C5: a server that is down or refuses cannot take a licence away, however long the loop runs:
  the installation keeps its key and the stored keys stay as they are.\<close>

theorem outage_keeps_licence:
  assumes "\<And>t tok code k. server t tok = Reply code k \<Longrightarrow> code \<noteq> 200"
    and "run_state (Start C W R server n) s = ((), s')"
  shows "inst s' = inst s \<and> license_keys s' = license_keys s \<and> redis s' = redis s"
proof -
  let ?I = "\<lambda>u. inst u = inst s \<and> license_keys u = license_keys s \<and> redis u = redis s"
  have no: "\<not> offers C R server u l key" for u l key using assms(1) by (auto simp: offers_def)
  have c: "keeps ?I (check C W R server)"
    by (intro keepsI wp_check wp_tryRefresh) (auto simp: no)
  have "keeps ?I (Start C W R server n)"
    unfolding Start_def by (intro hoare_rules c keeps_modify) auto
  from keepsD [OF this, of s] assms(2) show ?thesis by simp
qed

definition never_answers :: "instant \<Rightarrow> string \<Rightarrow> reply" where
  "never_answers t tok = NoReply"

definition armed :: refresher where "armed = \<lparr>r_token = '''', r_enabled = True\<rparr>"

text \<open>An installation on a yearly key (issued at 0, 395 days) \<open>d\<close> days into its life.\<close>

definition yearly_key :: license where
  "yearly_key = \<lparr>l_tier = ''pro'', l_features = [''cra''], l_org = ''Acme'', l_issued = 0,
     l_expires = Some (395 * 86400), l_demo = False, l_token = ''tok'', l_expired = False\<rparr>"

definition yearly_host :: "int \<Rightarrow> host" where
  "yearly_host d = (sample_host (d * 86400) [])\<lparr>inst := Some yearly_key\<rparr>"

theorem outage_keeps_licence_witness:
  "inst (snd (run_state (Start toy_strict wired armed never_answers 40) (yearly_host 360)))
     = Some yearly_key"
proof -
  have "never_answers t tok = Reply code k \<Longrightarrow> code \<noteq> 200" for t tok code k
    by (simp add: never_answers_def)
  from outage_keeps_licence [OF this run_unit]
  show ?thesis by (simp add: yearly_host_def)
qed

lemma run_check_idle:
  "\<not> is_due (instance_of s) (now s) \<Longrightarrow>
   run_state (check C W R server) s = ((), s\<lparr>renewalFailing := False\<rparr>)"
  using check_def [of C W R server] by (simp add: run_due setRenewalFailing_def run_simps)

text \<open>the loop is silent for the first three quarters of a key's life, and for all of it but
  the last 30 days: however many days it runs inside that span, it calls nobody.\<close>

theorem silent_outside_window:
  assumes "inst s = Some l" "l_expires l = Some e"
    and "4 * (e - (now s + int n * 86400)) \<ge> e - l_issued l
         \<or> e - (now s + int n * 86400) \<ge> 30 * 86400"
    and "run_state (Start C W R server n) s = ((), s')"
  shows "calls s' = calls s \<and> inst s' = Some l"
proof -
  have idle: "\<not> is_due l u" if "u \<le> now s + int n * 86400" for u
    using that assms(2,3) by (auto simp: is_due_def)
  define tick where "tick = (\<lambda>_::nat. do { modify (\<lambda>s. s\<lparr>now := now s + checkInterval\<rparr>); check C W R server })"
  have "calls (snd (run_state (for_each tick ks) u)) = calls u
      \<and> inst (snd (run_state (for_each tick ks) u)) = Some l"
    if "inst u = Some l" "now u + int (length ks) * 86400 \<le> now s + int n * 86400" for ks u
    using that
  proof (induction ks arbitrary: u)
    case Nil
    then show ?case by (simp add: run_simps)
  next
    case (Cons k ks)
    let ?v = "u\<lparr>now := now u + checkInterval, renewalFailing := False\<rparr>"
    have "\<not> is_due (instance_of (u\<lparr>now := now u + checkInterval\<rparr>)) (now u + checkInterval)"
      using Cons.prems by (simp add: instance_of_def checkInterval_def) (rule idle, simp)
    then have "run_state (tick k) u = ((), ?v)"
      by (simp add: tick_def run_simps run_check_idle)
    moreover have "calls (snd (run_state (for_each tick ks) ?v)) = calls ?v
        \<and> inst (snd (run_state (for_each tick ks) ?v)) = Some l"
      using Cons.prems by (intro Cons.IH) (simp_all add: checkInterval_def)
    ultimately show ?case by simp
  qed
  note loop = this [of "s\<lparr>renewalFailing := False\<rparr>" "[0..<n]"]
  have "run_state (check C W R server) s = ((), s\<lparr>renewalFailing := False\<rparr>)"
    using idle [of "now s"] assms(1) by (simp add: run_check_idle instance_of_def)
  then show ?thesis
    using loop assms(1,4) by (auto simp: Start_def tick_def run_simps split: if_splits)
qed

theorem silent_outside_window_witness:
  "calls (snd (run_state (Start toy_strict wired armed never_answers 364) (yearly_host 0))) = []"
proof -
  have h: "inst (yearly_host 0) = Some yearly_key" "l_expires yearly_key = Some (395 * 86400)"
    "4 * (395 * 86400 - (now (yearly_host 0) + int 364 * 86400)) \<ge> 395 * 86400 - l_issued yearly_key
     \<or> 395 * 86400 - (now (yearly_host 0) + int 364 * 86400) \<ge> 30 * 86400"
    by (simp_all add: yearly_host_def yearly_key_def sample_host_def)
  from silent_outside_window [OF h run_unit]
  show ?thesis by (simp add: yearly_host_def sample_host_def)
qed

section \<open>Activation\<close>

lemma activation_messages: "activation_message (error_text e) =
    (case e of ErrInvalidFormat \<Rightarrow> MsgFormat | ErrInvalidSignature \<Rightarrow> MsgNotVerified | _ \<Rightarrow> MsgInvalid)"
proof -
  have "activation_message (error_text ErrInvalidFormat) = MsgFormat" by code_simp
  moreover have "activation_message (error_text ErrInvalidSignature) = MsgNotVerified" by code_simp
  moreover have "activation_message (error_text ErrUnknownTier) = MsgInvalid" by code_simp
  moreover have "activation_message (error_text ErrInvalidKey) = MsgInvalid" by code_simp
  moreover have "activation_message (error_text ErrBase64) = MsgInvalid" by code_simp
  moreover have "activation_message (error_text ErrJson) = MsgInvalid" by code_simp
  ultimately show ?thesis by (cases e) simp_all
qed

lemma upsert_key_find: "find (\<lambda>r. k_org r = org) (upsert_key org key t user rows) =
    Some (case find (\<lambda>r. k_org r = org) rows of
       Some r \<Rightarrow> r\<lparr>k_value := key, k_activated := t, k_by := user\<rparr>
     | None \<Rightarrow> \<lparr>k_org = org, k_value = key, k_activated = t, k_by = user\<rparr>)"
proof (cases "\<exists>r \<in> set rows. k_org r = org")
  case True
  then obtain r where r: "find (\<lambda>r. k_org r = org) rows = Some r"
    by (cases "find (\<lambda>r. k_org r = org) rows") (auto simp: find_None_iff)
  then have "k_org r = org" using find_Some_in by fast
  with True r show ?thesis by (simp add: upsert_key_def find_update_same)
next
  case False
  then have n: "find (\<lambda>r. k_org r = org) rows = None" by (simp add: find_None_iff)
  have "find P (xs @ [x]) = (case find P xs of None \<Rightarrow> if P x then Some x else None | r \<Rightarrow> r)"
    for P and xs :: "key_row list" and x
    by (induction xs) auto
  with False n show ?thesis by (simp add: upsert_key_def)
qed

lemma upsert_key_orgs: "distinct (map k_org rows) \<Longrightarrow> distinct (map k_org (upsert_key org key t user rows))"
  by (auto simp: upsert_key_def map_update_where)

lemma set_upsert_key: "r \<in> set (upsert_key org key t user rows) \<Longrightarrow>
    r \<in> set rows \<or> k_value r = key \<and> k_activated r = t"
  by (auto simp: upsert_key_def set_update_where split: if_splits)

lemma run_persist_key: "faults s = [] \<Longrightarrow> has_db W \<Longrightarrow> run_state (persist_key W r key) s =
    (if rq_org r = '''' then (Some NoOrg, s) else if rq_user r = '''' then (Some PersistFailed, s)
     else (None, s\<lparr>license_keys := upsert_key (rq_org r) key (now s) (rq_user r) (license_keys s)\<rparr>))"
  by (simp add: persist_key_def run_simps)

lemma run_activate_valid:
  assumes "faults s = []" "has_db W" "parse C (now s) key = Inr l" "key \<noteq> ''''"
  shows "run_state (Activate C W r (Some key)) s =
    (if rq_org r = '''' then (Inl NoOrg, s) else if rq_user r = '''' then (Inl PersistFailed, s)
     else (Inr (response_of W (renewalFailing s) l),
       s\<lparr>license_keys := upsert_key (rq_org r) key (now s) (rq_user r) (license_keys s),
         inst := Some l,
         redis := (if has_redis W then AList.delete (licenseCacheKey (rq_org r)) (redis s) else redis s)\<rparr>))"
  using assms by (auto simp: Activate_def run_persist_key run_simps
      InvalidateLicenseCache_def Set_instance_def RenewalFailing_def)

lemma activation_result:
  assumes "faults s = []" "has_db W" "run_state (Activate C W r body) s = (a, s')"
  shows "a = (case body of None \<Rightarrow> Inl InvalidBody
     | Some key \<Rightarrow> if key = '''' then Inl KeyMissing
         else (case parse C (now s) key of
             Inl ErrInvalidFormat \<Rightarrow> Inl (InvalidKey MsgFormat)
           | Inl ErrInvalidSignature \<Rightarrow> Inl (InvalidKey MsgNotVerified)
           | Inl _ \<Rightarrow> Inl (InvalidKey MsgInvalid)
           | Inr l \<Rightarrow> if rq_org r = '''' then Inl NoOrg
               else if rq_user r = '''' then Inl PersistFailed
               else Inr (response_of W (renewalFailing s) l)))
    \<and> (isl a \<longrightarrow> inst s' = inst s \<and> license_keys s' = license_keys s \<and> redis s' = redis s)"
proof (cases body)
  case None
  then show ?thesis using assms by (simp add: Activate_def run_simps)
next
  case (Some key)
  show ?thesis
  proof (cases "key = ''''")
    case True
    then show ?thesis using assms Some by (simp add: Activate_def run_simps)
  next
    case False
    show ?thesis
    proof (cases "parse C (now s) key")
      case (Inl e)
      then show ?thesis using assms Some False
        by (cases e) (simp_all add: Activate_def run_simps activation_messages)
    next
      case (Inr l)
      then show ?thesis using assms Some False run_activate_valid [OF assms(1,2) Inr False]
        by (auto split: if_splits)
    qed
  qed
qed


text \<open>a successful activation is visible at once: the next request of that organisation, and
  every request without one, is served the licence of the key that was just entered.\<close>

theorem activation_serves:
  assumes "faults s = []" "has_db W" "run_state (Activate C W r (Some key)) s = (Inr resp, s')"
  shows "\<exists>l. parse C (now s) key = Inr l \<and> resp = response_of W (renewalFailing s) l
    \<and> fst (run_state (DBMiddleware C W (rq_org r) ctx) s') = Some l
    \<and> fst (run_state instance_middleware s') = Some l"
proof -
  from activation_result [OF assms] obtain l where
    l: "parse C (now s) key = Inr l" "rq_org r \<noteq> ''''" "rq_user r \<noteq> ''''" "key \<noteq> ''''"
      "resp = response_of W (renewalFailing s) l"
    by (auto split: if_splits sum.splits licenseError.splits)
  let ?rows = "upsert_key (rq_org r) key (now s) (rq_user r) (license_keys s)"
  have s': "faults s' = []" "now s' = now s" "license_keys s' = ?rows" "inst s' = Some l"
    "has_redis W \<Longrightarrow> redis s' = AList.delete (licenseCacheKey (rq_org r)) (redis s)"
    using assms(3) l(2,3) run_activate_valid [OF assms(1,2) l(1,4)] assms(1) by auto
  obtain x where x: "find (\<lambda>x. k_org x = rq_org r) ?rows = Some x" "k_value x = key"
    by (simp add: upsert_key_find split: option.splits)
  have "run_state (cache_lookup W (rq_org r)) s' = (None, s')"
    using s' by (cases "has_redis W") (simp_all add: cache_lookup_def run_simps delete_conv')
  then have "fst (run_state (DBMiddleware C W (rq_org r) ctx) s') = Some l"
    using s' l x assms(2)
    by (simp add: DBMiddleware_def db_license_def run_simps cache_store_def exec_def)
  then show ?thesis using l s'(4)
    by (auto simp: instance_middleware_def Get_instance_def run_simps)
qed

text \<open>the activation route does nothing at all for a request that fails the CSRF check, the
  Admin check or the rate limiter.\<close>

theorem activation_route_guarded:
  assumes "limited \<or> requireCSRF r \<noteq> None \<or> requireAdminRole r \<noteq> None"
  shows "snd (run_state (activate_route C W limited r body) s) = s
    \<and> isl (fst (run_state (activate_route C W limited r body) s))"
  using assms by (auto simp: activate_route_def run_simps split: option.splits)

definition admin_request :: http_request where
  "admin_request = \<lparr>rq_auth = '''', rq_cookie = Some ''t1'', rq_header = ''t1'',
     rq_roles = [''Admin''], rq_org = ''acme'', rq_user = ''u1''\<rparr>"

theorem activation_route_guarded_witness:
  "snd (run_state (activate_route toy_strict wired False (admin_request\<lparr>rq_header := ''t2''\<rparr>) (Some ''k''))
     (sample_host 0 [])) = sample_host 0 []"
proof -
  have "False \<or> requireCSRF (admin_request\<lparr>rq_header := ''t2''\<rparr>) \<noteq> None
      \<or> requireAdminRole (admin_request\<lparr>rq_header := ''t2''\<rparr>) \<noteq> None"
    by (simp add: requireCSRF_def admin_request_def has_prefix_def)
  from activation_route_guarded [OF this] show ?thesis by blast
qed

lemma toy_key_nonempty: "parse C t key = Inr l \<Longrightarrow> key \<noteq> ''''"
  by (auto simp: parse_def split2_def)


theorem activation_serves_witness:
  "\<exists>key s' l. run_state (Activate toy_strict wired admin_request (Some key)) (sample_host 2000 [])
      = (Inr (response_of wired False l), s')
     \<and> fst (run_state (DBMiddleware toy_strict wired ''acme'' None) s') = Some l"
proof -
  obtain key where k: "parse toy_strict 2000 key = Inr (license_of_payload 2000 (toy_payload ''pro''))"
    using toy_strict_key by blast
  have h: "faults (sample_host 2000 []) = []" "has_db wired"
    by (simp_all add: sample_host_def wired_def)
  have n: "now (sample_host 2000 []) = 2000" "renewalFailing (sample_host 2000 []) = False"
    "rq_org admin_request = ''acme''" "rq_user admin_request = ''u1''"
    by (simp_all add: sample_host_def admin_request_def)
  obtain s' resp where r: "run_state (Activate toy_strict wired admin_request (Some key)) (sample_host 2000 [])
      = (Inr resp, s')"
    using run_activate_valid [OF h, of toy_strict key] k toy_key_nonempty [OF k] n by auto
  from activation_serves [OF h r, of None] r n show ?thesis by auto
qed

section \<open>The installation as a machine\<close>

text \<open>Everything that happens to an installation: time passes, the outside world decides which
  calls fail, a request looks its licence up, a key is entered, a renewal check runs
  against any server, Redis drops an entry, the process restarts with any configured key.\<close>

definition start_process :: "crypto \<Rightarrow> wiring \<Rightarrow> string \<Rightarrow> bool \<Rightarrow> (host, unit) state" where
  "start_process C W key demo = do {
     t \<leftarrow> gets now;
     NewInstance (Some (Load (parse C t) t key demo));
     AdoptActivatedKey C W;
     modify (\<lambda>s. s\<lparr>refresh_org := '''', renewalFailing := False\<rparr>) }"

inductive host_step :: "crypto \<Rightarrow> wiring \<Rightarrow> host \<Rightarrow> host \<Rightarrow> bool" for C W where
  tick: "0 \<le> d \<Longrightarrow> host_step C W s (s\<lparr>now := now s + d\<rparr>)"
| tape: "host_step C W s (s\<lparr>faults := t\<rparr>)"
| request: "run_state (DBMiddleware C W org ctx) s = (lic, s') \<Longrightarrow> host_step C W s s'"
| activate: "run_state (activate_route C W limited r body) s = (a, s') \<Longrightarrow> host_step C W s s'"
| renew: "run_state (check C W R server) s = ((), s') \<Longrightarrow> host_step C W s s'"
| evict: "host_step C W s (s\<lparr>redis := AList.delete k (redis s)\<rparr>)"
| restart: "run_state (start_process C W key demo) s = ((), s') \<Longrightarrow> host_step C W s s'"

definition host_start :: "host \<Rightarrow> bool" where
  "host_start s \<longleftrightarrow> license_keys s = [] \<and> redis s = []"

definition host_inv :: "crypto \<Rightarrow> host \<Rightarrow> bool" where
  "host_inv C s \<longleftrightarrow> cache_ok C s \<and> keys_ok C s"

lemma host_inv_simps [simp]:
  "host_inv C (s\<lparr>faults := t\<rparr>) = host_inv C s" "host_inv C (s\<lparr>inst := i\<rparr>) = host_inv C s"
  "host_inv C (s\<lparr>renewalFailing := b\<rparr>) = host_inv C s" "host_inv C (s\<lparr>calls := c\<rparr>) = host_inv C s"
  "host_inv C (s\<lparr>refresh_org := p\<rparr>) = host_inv C s"
  by (simp_all add: host_inv_def)

lemma host_inv_tick: "host_inv C s \<Longrightarrow> 0 \<le> d \<Longrightarrow> host_inv C (s\<lparr>now := now s + d\<rparr>)"
  unfolding host_inv_def cache_ok_def keys_ok_def by fastforce

lemma host_inv_delete: "host_inv C s \<Longrightarrow> host_inv C (s\<lparr>redis := AList.delete k (redis s)\<rparr>)"
  by (simp add: host_inv_def cache_ok_del)

lemma keys_ok_upsert:
  assumes "keys_ok C s" "parse C (now s) key = Inr l"
  shows "keys_ok C (s\<lparr>license_keys := upsert_key org key (now s) user (license_keys s)\<rparr>)"
proof -
  have "k_activated r \<le> now s \<and> k_value r \<noteq> [] \<and> (\<exists>l. parse C (k_activated r) (k_value r) = Inr l)"
    if "r \<in> set (upsert_key org key (now s) user (license_keys s))" for r
    using set_upsert_key [OF that] assms toy_key_nonempty [OF assms(2)]
    unfolding keys_ok_def by (elim disjE) auto
  then show ?thesis using assms(1) by (simp add: keys_ok_def upsert_key_orgs)
qed

lemma keys_ok_renewed:
  assumes "keys_ok C s" "parse C (now s) key = Inr l"
  shows "keys_ok C (s\<lparr>license_keys := renewed_rows p key (now s) (license_keys s)\<rparr>)"
  using assms toy_key_nonempty [OF assms(2)]
  by (auto simp: keys_ok_def renewed_rows_def map_update_where set_update_where)

lemma keeps_persist_key:
  assumes "host_inv C s" "parse C (now s) key = Inr l"
  shows "wp (persist_key W r key) (\<lambda>_. host_inv C) s"
proof -
  have "host_inv C (s\<lparr>faults := t, license_keys := upsert_key org key (now s) user (license_keys s)\<rparr>)"
    for t org user
    using keys_ok_upsert [of C "s\<lparr>faults := t\<rparr>" key l] assms by (simp add: host_inv_def)
  then show ?thesis unfolding persist_key_def using assms(1)
    by (intro wp_intros) simp_all
qed

lemma keeps_Invalidate: "keeps (host_inv C) (InvalidateLicenseCache W org)"
  unfolding InvalidateLicenseCache_def by (intro hoare_rules keeps_exec) (auto intro: host_inv_delete)

lemma keeps_Set_instance: "keeps (host_inv C) (Set_instance l)"
  unfolding Set_instance_def by (intro hoare_rules keeps_modify) simp

lemma keeps_RenewalFailing: "keeps (host_inv C) RenewalFailing"
  unfolding RenewalFailing_def by (rule keeps_gets)

lemma keeps_Activate: "keeps (host_inv C) (Activate C W r body)"
proof (rule keepsI)
  fix s :: host
  assume s: "host_inv C s"
  have tail: "wp (case failed of
                 Some e \<Rightarrow> State_Monad.return (Inl e)
               | None \<Rightarrow> do {
                   Set_instance (Some lic);
                   InvalidateLicenseCache W (rq_org r);
                   failing \<leftarrow> RenewalFailing;
                   State_Monad.return (Inr (response_of W failing lic)) }) (\<lambda>_. host_inv C) u"
    if "host_inv C u" for u failed lic
    by (rule hoareD [where P = "host_inv C", OF _ that], unfold keeps_def [symmetric])
      (intro hoare_rules keeps_Set_instance keeps_Invalidate keeps_RenewalFailing)
  show "wp (Activate C W r body) (\<lambda>_. host_inv C) s"
    unfolding Activate_def
    by (intro wp_intros; (simp add: s)?) (rule wp_mono [OF keeps_persist_key [OF s] tail]; simp)
qed

lemma keeps_check: "keeps (host_inv C) (check C W R server)"
proof (rule keepsI)
  fix s :: host
  assume s: "host_inv C s"
  have "host_inv C s'" if o: "offers C R server s l key" and n: "now s' = now s"
    and f: "fewer (redis s') (redis s)"
    and k: "license_keys s' = license_keys s \<or> (\<exists>p. license_keys s' = renewed_rows p key (now s) (license_keys s))"
    for l key s'
  proof -
    have "cache_ok C (s\<lparr>redis := redis s'\<rparr>)" using s f by (simp add: host_inv_def cache_ok_fewer)
    then have "cache_ok C s'" using n by (simp add: cache_ok_def)
    moreover have "keys_ok C (s\<lparr>license_keys := license_keys s'\<rparr>)"
      using s k o keys_ok_renewed by (auto simp: host_inv_def offers_def)
    then have "keys_ok C s'" using n by (simp add: keys_ok_def)
    ultimately show ?thesis by (simp add: host_inv_def)
  qed
  with s show "wp (check C W R server) (\<lambda>_. host_inv C) s"
    by (intro wp_check wp_tryRefresh) auto
qed

lemma keeps_AdoptActivatedKey: "keeps (host_inv C) (AdoptActivatedKey C W)"
proof -
  have a: "keeps (host_inv C) attempt" by (rule keeps_attempt) simp
  have g: "keeps (host_inv C) Get_instance"
    unfolding Get_instance_def by (intro hoare_rules)
  show ?thesis unfolding AdoptActivatedKey_def by (intro hoare_rules a g keeps_Set_instance)
qed

lemma keeps_start_process: "keeps (host_inv C) (start_process C W key demo)"
  unfolding start_process_def NewInstance_def
  by (intro hoare_rules keeps_Set_instance keeps_AdoptActivatedKey keeps_modify) simp

lemma keeps_activate_route: "keeps (host_inv C) (activate_route C W limited r body)"
  unfolding activate_route_def by (intro hoare_rules keeps_Activate)

lemma keeps_request: "keeps (host_inv C) (DBMiddleware C W org ctx)"
  using keeps_DBMiddleware unfolding host_inv_def by blast

lemma host_step_inv: "host_inv C s \<Longrightarrow> host_step C W s t \<Longrightarrow> host_inv C t"
proof (erule host_step.cases, goal_cases)
  case 1
  then show ?case by (simp add: host_inv_tick)
next
  case 2
  then show ?case by simp
next
  case (3 org ctx s lic s')
  then show ?case using keepsD [OF keeps_request [of C W org ctx]] by fastforce
next
  case (4 limited r body s a s')
  then show ?case using keepsD [OF keeps_activate_route [of C W limited r body]] by fastforce
next
  case (5 R server s s')
  then show ?case using keepsD [OF keeps_check [of C W R server]] by fastforce
next
  case 6
  then show ?case by (simp add: host_inv_delete)
next
  case (7 key demo s s')
  then show ?case using keepsD [OF keeps_start_process [of C W key demo]] by fastforce
qed

interpretation host: machine host_start "host_step C W" "host_inv C" for C W
  by unfold_locales (simp add: host_start_def host_inv_def cache_ok_def keys_ok_def, rule host_step_inv)

text \<open>C3: in every state an installation can get into, each organisation has at most one key,
  each stored key still verifies (so the fallback for an invalid stored key is never taken),
  and every cached licence came from a verified key and lapses within sixty seconds.\<close>

theorem installation_keys_valid:
  assumes "host_start s0" "(host_step C W)\<^sup>*\<^sup>* s0 s"
  shows "distinct (map k_org (license_keys s))
    \<and> (\<forall>r \<in> set (license_keys s). \<exists>l. parse C (now s) (k_value r) = Inr l)
    \<and> (\<forall>k lc d. map_of (redis s) k = Some (Some lc, d) \<longrightarrow> d \<le> now s + 60
        \<and> (\<exists>key l. parse C (d - 60) key = Inr l \<and> lc = licenseToCache l False))"
proof -
  have i: "host_inv C s" using host.reachable_inv assms by blast
  then have "\<forall>r \<in> set (license_keys s). \<exists>l. parse C (now s) (k_value r) = Inr l"
    using keys_ok_parse unfolding host_inv_def by blast
  with i show ?thesis
    unfolding host_inv_def keys_ok_def cache_ok_def licenceCacheTTL_def by blast
qed

theorem installation_keys_valid_witness:
  "\<exists>s. (host_step toy_strict wired)\<^sup>*\<^sup>* (sample_host 2000 []) s \<and> length (license_keys s) = 1
     \<and> (\<forall>r \<in> set (license_keys s). \<exists>l. parse toy_strict (now s) (k_value r) = Inr l)"
proof -
  obtain key where k: "parse toy_strict 2000 key = Inr (license_of_payload 2000 (toy_payload ''pro''))"
    using toy_strict_key by blast
  have g: "requireCSRF admin_request = None" "requireAdminRole admin_request = None"
    "faults (sample_host 2000 []) = []" "has_db wired"
    by (simp_all add: requireCSRF_def requireAdminRole_def admin_request_def has_prefix_def
        sample_host_def wired_def)
  obtain a s' where r: "run_state (activate_route toy_strict wired False admin_request (Some key))
      (sample_host 2000 []) = (a, s')" by fastforce
  have "length (license_keys s') = 1"
    using r g run_activate_valid [OF g(3,4), of toy_strict key] k toy_key_nonempty [OF k]
    by (auto simp: activate_route_def run_simps sample_host_def admin_request_def upsert_key_def)
  moreover have st: "(host_step toy_strict wired)\<^sup>*\<^sup>* (sample_host 2000 []) s'"
    using activate [OF r] by (rule r_into_rtranclp)
  moreover have "host_start (sample_host 2000 [])" by (simp add: host_start_def sample_host_def)
  ultimately show ?thesis using installation_keys_valid [of "sample_host 2000 []" toy_strict wired s'] by blast
qed

end
