(* ===== verification/Billing_Plans.thy ===== *)
theory Billing_Plans
  imports Complex_Main Prelude Go_Time "HOL-Library.Signed_Division"
begin

text \<open>
  The price list (\<^verbatim>\<open>internal/billing/lexware/plans.go\<close>): plans, billing periods
  in calendar months with the day clamped, the date of the next invoice, and the
  price of one invoice in cents. Prices in euros are Go floats; the two that exist
  are whole numbers, so \<^typ>\<open>rat\<close> is exact. \<^verbatim>\<open>int64\<close> arithmetic wraps
  (\<open>int64\<close> below).
\<close>

section \<open>The catalogue\<close>

record plan =
  pl_product :: string
  pl_interval :: string
  pl_net_eur :: rat
  pl_title :: string
  pl_desc :: string
  pl_period_months :: int
  pl_grace_days :: int
  pl_lead_days :: int
  pl_due_days :: int

text \<open>UTF-8 bytes of the non-ASCII characters in the texts: dash, euro sign, a with
  grave, a umlaut.\<close>

definition u_dash :: string where "u_dash = [CHR 0xE2, CHR 0x80, CHR 0x94]"
definition u_euro :: string where "u_euro = [CHR 0xE2, CHR 0x82, CHR 0xAC]"
definition u_agrave :: string where "u_agrave = [CHR 0xC3, CHR 0xA0]"
definition u_auml :: string where "u_auml = [CHR 0xC3, CHR 0xA4]"

definition PeriodKey :: "string \<Rightarrow> string \<Rightarrow> string" where
  "PeriodKey product interval = product @ ''/'' @ interval"

definition pro_month :: plan where
  "pro_month = \<lparr>pl_product = ''pro'', pl_interval = ''month'', pl_net_eur = 299,
     pl_title = ''Vakt Pro '' @ u_dash @ '' Monatslizenz'',
     pl_desc = ''Vakt Pro '' @ u_dash @ '' self-hosted ISMS-Plattform, unbegrenzte Nutzer'',
     pl_period_months = 1, pl_grace_days = 5, pl_lead_days = 10, pl_due_days = 10\<rparr>"

definition pro_year :: plan where
  "pro_year = \<lparr>pl_product = ''pro'', pl_interval = ''year'', pl_net_eur = 2990,
     pl_title = ''Vakt Pro '' @ u_dash @ '' Jahreslizenz'',
     pl_desc = ''Vakt Pro '' @ u_dash @ '' self-hosted ISMS-Plattform, unbegrenzte Nutzer'',
     pl_period_months = 12, pl_grace_days = 30, pl_lead_days = 21, pl_due_days = 14\<rparr>"

definition plans :: "string \<Rightarrow> plan option" where
  "plans = [PeriodKey ''pro'' ''month'' \<mapsto> pro_month, PeriodKey ''pro'' ''year'' \<mapsto> pro_year]"

text \<open>\<^term>\<open>None\<close> is the error \<^verbatim>\<open>billing: no plan for ...\<close>.\<close>

definition PlanFor :: "string \<Rightarrow> string \<Rightarrow> plan option" where
  "PlanFor product interval = plans (PeriodKey product interval)"

section \<open>Periods\<close>

definition daysInMonth :: "int \<Rightarrow> int \<Rightarrow> int" where
  "daysInMonth year m = c_day (date_of (go_date year (m + 1) 0 0))"

definition addMonthsClamped :: "instant \<Rightarrow> int \<Rightarrow> instant" where
  "addMonthsClamped t months =
     (let c = date_of t;
          target = date_of (go_date (c_year c) (c_month c + months) 1 (clock_of t));
          last = daysInMonth (c_year target) (c_month target);
          d = (if c_day c > last then last else c_day c)
      in go_date (c_year target) (c_month target) d (clock_of t))"

definition Period :: "plan \<Rightarrow> instant \<Rightarrow> instant \<times> instant" where
  "Period p start = (start, addMonthsClamped start (pl_period_months p))"

definition NextInvoiceAt :: "plan \<Rightarrow> instant \<Rightarrow> instant" where
  "NextInvoiceAt p periodEnd = add_date periodEnd 0 0 (- pl_lead_days p)"

section \<open>Prices\<close>

definition int64 :: "int \<Rightarrow> int" where
  "int64 x = (x + 2 ^ 63) mod 2 ^ 64 - 2 ^ 63"

definition Cents :: "plan \<Rightarrow> int" where
  "Cents p = int64 \<lfloor>pl_net_eur p * 100 + 1 / 2\<rfloor>"

definition MaxDiscountPercent :: int where "MaxDiscountPercent = 90"

datatype discount_error = NegativeDiscount int | DiscountTooHigh int

definition ValidateDiscount :: "int \<Rightarrow> discount_error option" where
  "ValidateDiscount percent =
     (if percent < 0 then Some (NegativeDiscount percent)
      else if percent > MaxDiscountPercent then Some (DiscountTooHigh percent)
      else None)"

record charge =
  ch_quantity :: int
  ch_percent :: int
  ch_list_cents :: int
  ch_discount_cents :: int
  ch_net_cents :: int

definition Charge :: "plan \<Rightarrow> int \<Rightarrow> int \<Rightarrow> discount_error + charge" where
  "Charge p quantity discountPercent =
     (let quantity = (if quantity < 1 then 1 else quantity) in
      case ValidateDiscount discountPercent of
        Some e \<Rightarrow> Inl e
      | None \<Rightarrow>
          (let list = int64 (Cents p * int64 quantity);
               discount = int64 (int64 (list * int64 discountPercent) + 50) sdiv 100
           in Inr \<lparr>ch_quantity = quantity, ch_percent = discountPercent, ch_list_cents = list,
                ch_discount_cents = discount, ch_net_cents = int64 (list - discount)\<rparr>))"

definition NetEUR :: "charge \<Rightarrow> rat" where
  "NetEUR c = of_int (ch_net_cents c) / 100"

definition ListEUR :: "charge \<Rightarrow> rat" where
  "ListEUR c = of_int (ch_list_cents c) / 100"

definition Discounted :: "charge \<Rightarrow> bool" where
  "Discounted c \<longleftrightarrow> ch_percent c > 0 \<and> ch_discount_cents c > 0"

text \<open>\<^verbatim>\<open>%.2f\<close> of a non-negative amount.\<close>

definition fmt_2f :: "rat \<Rightarrow> string" where
  "fmt_2f x = (let c = nat \<lfloor>x * 100 + 1 / 2\<rfloor>
     in show_nat (c div 100) @ ''.'' @ pad_nat 2 (c mod 100))"

definition LineDesc :: "plan \<Rightarrow> int \<Rightarrow> string" where
  "LineDesc p quantity =
     (if quantity > 1 then pl_desc p @ '' '' @ u_dash @ '' '' @ show_nat (nat quantity)
        @ '' Lizenzen '' @ u_agrave @ '' '' @ fmt_2f (pl_net_eur p) @ '' '' @ u_euro
      else pl_desc p)"

section \<open>The catalogue is closed\<close>

lemma plans_simps: "PlanFor ''pro'' ''month'' = Some pro_month" "PlanFor ''pro'' ''year'' = Some pro_year"
  by (simp_all add: PlanFor_def plans_def PeriodKey_def)

lemma PeriodKey_inj:
  "CHR ''/'' \<notin> set a \<Longrightarrow> CHR ''/'' \<notin> set b \<Longrightarrow> PeriodKey product interval = PeriodKey a b \<Longrightarrow> product = a \<and> interval = b"
proof (induction a arbitrary: product)
  case Nil
  then show ?case by (cases product) (auto simp: PeriodKey_def)
next
  case (Cons c a)
  then show ?case by (cases product) (auto simp: PeriodKey_def)
qed

lemma PlanFor_Some:
  assumes "PlanFor product interval = Some p"
  shows "product = ''pro'' \<and> (interval = ''month'' \<and> p = pro_month \<or> interval = ''year'' \<and> p = pro_year)"
proof -
  from assms consider "PeriodKey product interval = PeriodKey ''pro'' ''year''" "p = pro_year"
    | "PeriodKey product interval = PeriodKey ''pro'' ''month''" "p = pro_month"
    by (auto simp: PlanFor_def plans_def split: if_splits)
  then show ?thesis
    using PeriodKey_inj [of "''pro''" "''year''" product interval]
      PeriodKey_inj [of "''pro''" "''month''" product interval] by cases auto
qed

lemma plan_cases:
  assumes "PlanFor product interval = Some p"
  obtains "p = pro_month" | "p = pro_year"
  using PlanFor_Some [OF assms] by blast

section \<open>Calendar months\<close>

lemma daysInMonth_eq: "1 \<le> m \<Longrightarrow> m \<le> 12 \<Longrightarrow> daysInMonth y m = month_len y m"
proof -
  assume m: "1 \<le> m" "m \<le> 12"
  have v: "valid_civil (Civil y m (month_len y m))"
    using m month_len_bounds [of y m] by (simp add: valid_civil_def)
  have "day_of (go_date y (m + 1) 0 0) = day_number y m (month_len y m)"
  proof (cases "m = 12")
    case True
    then show ?thesis
      using days_before_year_step [of y]
      by (simp add: go_date_def day_of_def Let_def day_number_def days_before_month_def month_len_def)
  next
    case False
    then have "1 \<le> m" "m < 12" using m by simp_all
    from days_before_month_step [OF this, of y] show ?thesis
      using m False by (simp add: go_date_def day_of_def Let_def day_number_def)
  qed
  then show "daysInMonth y m = month_len y m"
    by (simp add: daysInMonth_def date_of_def civil_of_day_number [OF v])
qed

text \<open>The civil date \<open>k\<close> months after \<open>c\<close>, clamped: the specification of
  \<open>addMonthsClamped\<close>.\<close>

definition month_shift :: "civil \<Rightarrow> int \<Rightarrow> civil" where
  "month_shift c k = (let z = c_month c - 1 + k; y = c_year c + z div 12; m = z mod 12 + 1
     in Civil y m (min (c_day c) (month_len y m)))"

lemma month_len_pos: "1 \<le> month_len y m"
  using month_len_bounds(1) [of y m] by simp

lemma valid_month_shift: "valid_civil c \<Longrightarrow> valid_civil (month_shift c k)"
  by (auto simp: month_shift_def Let_def valid_civil_def month_len_pos)

lemma date_of_valid: "valid_civil (date_of t)"
  by (simp add: date_of_def valid_civil_of)

lemma addMonthsClamped_date:
  "date_of (addMonthsClamped t k) = month_shift (date_of t) k"
  "clock_of (addMonthsClamped t k) = clock_of t"
proof -
  define c where "c = date_of t"
  define z where "z = c_month c - 1 + k"
  define y where "y = c_year c + z div 12"
  define m where "m = z mod 12 + 1"
  have vc: "valid_civil c" by (simp add: c_def date_of_valid)
  have m: "1 \<le> m" "m \<le> 12" by (simp_all add: m_def)
  have clk: "0 \<le> clock_of t" "clock_of t < secs_per_day" by (rule clock_range)+
  have v1: "valid_civil (Civil y m 1)"
    using m month_len_bounds [of y m] by (simp add: valid_civil_def)
  have "go_date (c_year c) (c_month c + k) 1 (clock_of t) = go_date y m 1 (clock_of t)"
    using m by (simp add: go_date_def Let_def y_def m_def z_def algebra_simps)
  then have t1: "date_of (go_date (c_year c) (c_month c + k) 1 (clock_of t)) = Civil y m 1"
    using clk m by (simp add: date_of_def go_date_day civil_of_day_number [OF v1])
  define d where "d = min (c_day c) (month_len y m)"
  have a: "addMonthsClamped t k = go_date y m d (clock_of t)"
    unfolding addMonthsClamped_def Let_def c_def [symmetric] t1
    using m by (simp add: daysInMonth_eq d_def min_def)
  have "valid_civil (Civil y m d)"
    using vc m month_len_bounds [of y m] by (simp add: d_def valid_civil_def)
  then show "date_of (addMonthsClamped t k) = month_shift (date_of t) k"
    using clk m by (simp add: a date_of_def go_date_day civil_of_day_number)
      (simp add: month_shift_def Let_def d_def y_def m_def z_def c_def date_of_def)
  show "clock_of (addMonthsClamped t k) = clock_of t"
    using clk by (simp add: a go_date_clock)
qed

text \<open>Instants in terms of their date and clock.\<close>

lemma date_less_iff:
  assumes "clock_of s = clock_of t"
  shows "s < t \<longleftrightarrow> date_of s < date_of t"
proof
  assume "s < t"
  then have "day_of s < day_of t" using day_clock [of s] day_clock [of t] assms by linarith
  then show "date_of s < date_of t" by (simp add: date_of_def civil_of_mono)
next
  assume "date_of s < date_of t"
  moreover have False if "day_of t = day_of s"
    using \<open>date_of s < date_of t\<close> that by (simp add: date_of_def)
  moreover have False if "day_of t < day_of s"
    using \<open>date_of s < date_of t\<close> civil_of_mono [OF that] unfolding date_of_def by (rule less_asym)
  ultimately have "\<not> day_of t \<le> day_of s"
    by (cases "day_of s" "day_of t" rule: linorder_cases) auto
  then show "s < t" using day_clock [of s] day_clock [of t] assms by linarith
qed

lemma civil_less: "Civil y m d < Civil y' m' d' \<longleftrightarrow>
    y < y' \<or> y = y' \<and> (m < m' \<or> m = m' \<and> d < d')"
  by (auto simp: less_civil_def less_eq_civil_def)

lemma shift_index:
  "12 * c_year (month_shift c k) + c_month (month_shift c k) = 12 * c_year c + c_month c + k"
proof -
  define z where "z = c_month c - 1 + k"
  have "12 * (z div 12) + z mod 12 = z" by simp
  moreover have "12 * c_year (month_shift c k) + c_month (month_shift c k)
      = 12 * c_year c + 12 * (z div 12) + z mod 12 + 1"
    by (simp add: month_shift_def Let_def z_def distrib_left)
  ultimately show ?thesis by (simp add: z_def)
qed

lemma civil_index_less:
  assumes "valid_civil a" "valid_civil b" "12 * c_year a + c_month a < 12 * c_year b + c_month b"
  shows "a < b"
proof -
  obtain y m d y' m' d' where e: "a = Civil y m d" "b = Civil y' m' d'"
    by (cases a, cases b) blast
  from assms have "1 \<le> m" "m \<le> 12" "1 \<le> m'" "m' \<le> 12" "12 * y + m < 12 * y' + m'"
    by (auto simp: e valid_civil_def)
  then show ?thesis unfolding e civil_less by linarith
qed

lemma civil_of_mono_le: "a \<le> b \<Longrightarrow> civil_of a \<le> civil_of b"
  using civil_of_mono [of a b] by (cases "a = b") auto

lemma civil_of_less_iff: "civil_of a < civil_of b \<longleftrightarrow> a < b"
  using civil_of_mono [of a b] civil_of_mono_le [of b a] by (meson linorder_not_le)

lemma civil_le: "Civil y m d \<le> Civil y' m' d' \<longleftrightarrow>
    y < y' \<or> y = y' \<and> (m < m' \<or> m = m' \<and> d \<le> d')"
  by (auto simp: less_eq_civil_def)

lemma month_shift_mono:
  assumes "valid_civil a" "valid_civil b" "a \<le> b"
  shows "month_shift a k \<le> month_shift b k"
proof (cases "12 * c_year a + c_month a < 12 * c_year b + c_month b")
  case True
  then have "12 * c_year (month_shift a k) + c_month (month_shift a k)
      < 12 * c_year (month_shift b k) + c_month (month_shift b k)" by (simp add: shift_index)
  then show ?thesis using civil_index_less valid_month_shift assms(1,2) less_imp_le by blast
next
  case False
  obtain y m d y' m' d' where e: "a = Civil y m d" "b = Civil y' m' d'"
    by (cases a, cases b) blast
  have "1 \<le> m" "m \<le> 12" "1 \<le> m'" "m' \<le> 12" using assms by (auto simp: e valid_civil_def)
  then have "y = y'" "m = m'" "d \<le> d'"
    using assms(3) False unfolding e civil_le civil.sel by linarith+
  then show ?thesis by (simp add: e month_shift_def Let_def civil_le min_le_iff_disj)
qed

text \<open>The end of a period on a calendar: what \<open>Period\<close> has to do with dates.\<close>

lemma addMonthsClamped_day_mono:
  assumes "day_of t \<le> day_of u"
  shows "day_of (addMonthsClamped t k) \<le> day_of (addMonthsClamped u k)"
proof -
  have "date_of (addMonthsClamped t k) \<le> date_of (addMonthsClamped u k)"
    unfolding addMonthsClamped_date
    using assms by (intro month_shift_mono date_of_valid) (simp add: date_of_def civil_of_mono_le)
  then show ?thesis unfolding date_of_def by (meson civil_of_less_iff linorder_not_le)
qed

text \<open>a period of a positive number of calendar months ends strictly after it starts, at the
  same time of day, in the month that many months on, on the same day of the month or on
  the last one the month has; and a later starting day never gives an earlier last day.\<close>

theorem period_end:
  "date_of (addMonthsClamped t k) = month_shift (date_of t) k
   \<and> clock_of (addMonthsClamped t k) = clock_of t
   \<and> (k > 0 \<longrightarrow> t < addMonthsClamped t k)
   \<and> (\<forall>u. day_of t \<le> day_of u \<longrightarrow> day_of (addMonthsClamped t k) \<le> day_of (addMonthsClamped u k))"
proof -
  have "t < addMonthsClamped t k" if "k > 0"
  proof -
    have "date_of t < date_of (addMonthsClamped t k)"
      using that shift_index [of "date_of t" k]
      by (intro civil_index_less) (simp_all add: addMonthsClamped_date valid_month_shift date_of_valid)
    then show ?thesis using date_less_iff addMonthsClamped_date(2) by metis
  qed
  then show ?thesis by (simp add: addMonthsClamped_date addMonthsClamped_day_mono)
qed

theorem period_end_witness:
  "day_of (addMonthsClamped 0 1) \<le> day_of (addMonthsClamped 86400 1) \<and> 0 < addMonthsClamped 0 1"
  using period_end [of 0 1] by (simp add: day_of_def)

section \<open>Chained periods\<close>

text \<open>Renewals chain: each period starts where the last one ended.\<close>

definition chain :: "plan \<Rightarrow> nat \<Rightarrow> instant \<Rightarrow> instant" where
  "chain p n t = ((\<lambda>u. snd (Period p u)) ^^ n) t"

lemma chain_Suc: "chain p (Suc n) t = addMonthsClamped (chain p n t) (pl_period_months p)"
  by (simp add: chain_def Period_def)

lemma month_shift_day:
  "min (c_day c) 28 \<le> c_day (month_shift c k)" "c_day (month_shift c k) \<le> c_day c"
  by (simp_all add: month_shift_def Let_def month_len_bounds min.coboundedI2)

text \<open>any number of chained renewals keeps the calendar: the n-th period ends n periods of
  months after the start, at the same time of day, never on a later day of the month and
  never earlier than the 28th on account of the clamping; so a start on day 1 to 28 keeps
  its day for good.\<close>

theorem renewal_chain:
  "12 * c_year (date_of (chain p n t)) + c_month (date_of (chain p n t))
     = 12 * c_year (date_of t) + c_month (date_of t) + int n * pl_period_months p
   \<and> clock_of (chain p n t) = clock_of t
   \<and> min (c_day (date_of t)) 28 \<le> c_day (date_of (chain p n t))
   \<and> c_day (date_of (chain p n t)) \<le> c_day (date_of t)"
proof (induction n)
  case 0
  show ?case by (simp add: chain_def)
next
  case (Suc n)
  have e: "int (Suc n) * pl_period_months p = int n * pl_period_months p + pl_period_months p"
    by (simp add: distrib_right)
  show ?case
    using Suc month_shift_day [of "date_of (chain p n t)" "pl_period_months p"]
    unfolding chain_Suc addMonthsClamped_date shift_index e min_def
    by (auto split: if_splits)
qed

lemma month_index_unique:
  "12 * y + m = 12 * y' + m' \<Longrightarrow> 1 \<le> m \<Longrightarrow> m \<le> 12 \<Longrightarrow> 1 \<le> m' \<Longrightarrow> m' \<le> 12 \<Longrightarrow>
   y = y' \<and> m = (m' :: int)"
  by presburger

text \<open>a monthly customer who starts on day 1 to 28 gets exactly twelve invoices a year: twelve
  monthly periods end at the instant the yearly period ends.\<close>

theorem twelve_months:
  assumes "c_day (date_of t) \<le> 28"
  shows "chain pro_month 12 t = snd (Period pro_year t)"
proof -
  let ?u = "chain pro_month 12 t" and ?v = "addMonthsClamped t 12"
  let ?a = "date_of ?u" and ?b = "date_of ?v"
  have a: "12 * c_year ?a + c_month ?a = 12 * c_year (date_of t) + c_month (date_of t) + 12"
    "clock_of ?u = clock_of t" "c_day ?a = c_day (date_of t)"
    using renewal_chain [of pro_month 12 t] assms by (simp_all add: pro_month_def)
  have b: "12 * c_year ?b + c_month ?b = 12 * c_year (date_of t) + c_month (date_of t) + 12"
    "clock_of ?v = clock_of t" "c_day ?b = c_day (date_of t)"
    using assms month_shift_day [of "date_of t" 12]
    by (simp_all add: addMonthsClamped_date shift_index)
  have "1 \<le> c_month ?a" "c_month ?a \<le> 12" "1 \<le> c_month ?b" "c_month ?b \<le> 12"
    using date_of_valid [of ?u] date_of_valid [of ?v] by (simp_all add: valid_civil_def)
  with a(1) b(1) have "c_year ?a = c_year ?b" "c_month ?a = c_month ?b"
    using month_index_unique [of "c_year ?a" "c_month ?a" "c_year ?b" "c_month ?b"] by simp_all
  with a(3) b(3) have "?a = ?b" by (simp add: civil.expand)
  then have "day_of ?u = day_of ?v" unfolding date_of_def by (rule civil_of_inj)
  then have "?u = ?v" using day_clock [of ?u] day_clock [of ?v] a(2) b(2) by linarith
  then show ?thesis by (simp add: Period_def pro_year_def)
qed

theorem twelve_months_witness: "chain pro_month 12 1700000000 = snd (Period pro_year 1700000000)"
proof -
  have "c_day (date_of 1700000000) \<le> 28" by code_simp
  from twelve_months [OF this] show ?thesis .
qed

section \<open>The invariants of the catalogue\<close>

text \<open>One calendar month is between 28 and 31 days.\<close>

lemma month_step_days:
  assumes "valid_civil c"
  shows "day_number (c_year (month_shift c 1)) (c_month (month_shift c 1)) (c_day (month_shift c 1))
    \<ge> day_number (c_year c) (c_month c) (c_day c) + 28"
proof -
  obtain y m d where c: "c = Civil y m d" by (cases c)
  have m: "1 \<le> m" "m \<le> 12" "1 \<le> d" "d \<le> month_len y m" using assms by (auto simp: c valid_civil_def)
  show ?thesis
  proof (cases "m = 12")
    case True
    then have "month_shift c 1 = Civil (y + 1) 1 d"
      using m month_len_bounds [of "y + 1" 1] by (simp add: c month_shift_def Let_def month_len_def)
    then show ?thesis using True days_before_year_step [of y]
      by (simp add: c day_number_def days_before_month_def)
  next
    case False
    then have "m < 12" using m by simp
    have "m mod 12 = m" using m \<open>m < 12\<close> by simp
    then have s: "month_shift c 1 = Civil y (m + 1) (min d (month_len y (m + 1)))"
      using m \<open>m < 12\<close> by (simp add: c month_shift_def Let_def)
    have "min d (month_len y (m + 1)) + month_len y m \<ge> d + 28"
      using m month_len_bounds [of y m] month_len_bounds [of y "m + 1"] by (simp add: min_def)
    then show ?thesis using days_before_month_step [OF m(1) \<open>m < 12\<close>, of y]
      unfolding s unfolding c by (simp add: day_number_def)
  qed
qed

lemma month_step: "add_days t 28 \<le> addMonthsClamped t 1"
proof -
  have "day_of (addMonthsClamped t 1) \<ge> day_of t + 28"
    using month_step_days [OF date_of_valid [of t]] addMonthsClamped_date(1) [of t 1]
      day_number_civil_of [of "day_of t"] day_number_civil_of [of "day_of (addMonthsClamped t 1)"]
    by (simp add: date_of_def)
  then show ?thesis
    using day_clock [of t] day_clock [of "addMonthsClamped t 1"] addMonthsClamped_date(2) [of t 1]
    unfolding add_days_def by linarith
qed

lemma month_shift_less:
  assumes "valid_civil c" "j < k"
  shows "month_shift c j < month_shift c k"
  using assms by (intro civil_index_less valid_month_shift) (simp_all add: shift_index)

lemma addMonthsClamped_less: "j < k \<Longrightarrow> addMonthsClamped t j < addMonthsClamped t k"
  using month_shift_less [OF date_of_valid, of j k t] date_less_iff
  by (simp add: addMonthsClamped_date)

text \<open>for every plan on sale and every start of a period: the next invoice goes out inside the
  paid period, and it falls due before the key of the paid period runs out, with days to
  spare for the transfer.\<close>

theorem invoice_timing:
  assumes "PlanFor product interval = Some p"
  shows "start < NextInvoiceAt p (snd (Period p start))
    \<and> NextInvoiceAt p (snd (Period p start)) < snd (Period p start)
    \<and> add_days (NextInvoiceAt p (snd (Period p start))) (pl_due_days p + 5)
        \<le> add_days (snd (Period p start)) (pl_grace_days p)"
proof -
  have y: "addMonthsClamped start 1 < addMonthsClamped start 12" by (rule addMonthsClamped_less) simp
  have m: "add_days start 28 \<le> addMonthsClamped start 1" by (rule month_step)
  from assms show ?thesis
    by (rule plan_cases)
      (use y m in \<open>simp_all add: pro_month_def pro_year_def Period_def NextInvoiceAt_def
        add_date_days add_days_def\<close>)
qed

theorem invoice_timing_witness:
  "0 < NextInvoiceAt pro_month (snd (Period pro_month 0))"
  using invoice_timing [OF plans_simps(1), of 0] by simp

section \<open>The invariants of the prices\<close>

lemma int64_id: "- (2 ^ 63) \<le> x \<Longrightarrow> x < 2 ^ 63 \<Longrightarrow> int64 x = x"
  by (simp add: int64_def)

lemma Cents_plans: "Cents pro_month = 29900" "Cents pro_year = 299000"
  by (code_simp, code_simp)

lemma Cents_cases: "PlanFor product interval = Some p \<Longrightarrow> Cents p = 29900 \<or> Cents p = 299000"
  by (auto elim!: plan_cases simp: Cents_plans)

lemma Cents_hundreds: "PlanFor product interval = Some p \<Longrightarrow> 100 dvd Cents p"
  by (auto dest!: Cents_cases)

lemma ValidateDiscount_None: "ValidateDiscount d = None \<longleftrightarrow> 0 \<le> d \<and> d \<le> 90"
  by (auto simp: ValidateDiscount_def MaxDiscountPercent_def)

lemma sdiv_hundred: "0 \<le> x \<Longrightarrow> x sdiv 100 = (x :: int) div 100"
  by (simp add: signed_divide_int_def sgn_if)

lemma tenth_left: "100 * x \<le> 90 * l \<Longrightarrow> 100 \<le> l \<Longrightarrow> l \<le> 10 * (l - x) \<and> 0 < l - (x :: int)"
  by (auto simp: right_diff_distrib)

lemma Charge_result:
  assumes "PlanFor product interval = Some p" "quantity \<le> 2 ^ 31"
  shows "(\<not> (0 \<le> d \<and> d \<le> 90) \<longrightarrow> isl (Charge p quantity d)) \<and>
    (0 \<le> d \<and> d \<le> 90 \<longrightarrow> (\<exists>c. Charge p quantity d = Inr c \<and>
       ch_quantity c = max 1 quantity \<and> ch_percent c = d \<and>
       ch_list_cents c = Cents p * max 1 quantity \<and>
       100 * ch_discount_cents c = ch_list_cents c * d \<and>
       ch_net_cents c = ch_list_cents c - ch_discount_cents c \<and>
       0 \<le> ch_discount_cents c \<and> 10 * ch_net_cents c \<ge> ch_list_cents c \<and> 0 < ch_net_cents c))"
proof (cases "0 \<le> d \<and> d \<le> 90")
  case False
  then obtain e where "ValidateDiscount d = Some e" using ValidateDiscount_None by fastforce
  with False show ?thesis by (auto simp: Charge_def Let_def)
next
  case True
  define q where "q = max 1 quantity"
  have q: "1 \<le> q" "q \<le> 2147483648" using assms(2) by (simp_all add: q_def)
  obtain k where k: "Cents p = 100 * k" "0 < k" "k \<le> 2990"
    using Cents_cases [OF assms(1)] by (elim disjE) (auto intro: that [of 299] that [of 2990])
  define list where "list = 100 * (k * q)"
  have "k * q \<le> 2990 * 2147483648" "1 \<le> k * q"
    using k q mult_mono [of k 2990 q 2147483648] mult_mono [of 1 k 1 q] by simp_all
  then have list: "100 \<le> list" "list \<le> 642097610752000" by (simp_all add: list_def)
  have ld: "0 \<le> list * d" "list * d \<le> 642097610752000 * 90"
    using list True mult_mono [of list 642097610752000 d 90] by simp_all
  have disc: "(list * d + 50) sdiv 100 = k * q * d"
  proof -
    have "list * d + 50 = 50 + 100 * (k * q * d)" by (simp add: list_def algebra_simps)
    then have "(list * d + 50) div 100 = (50 + 100 * (k * q * d)) div 100" by (simp only:)
    also have "\<dots> = k * q * d" using div_mult_self2 [of 100 50 "k * q * d"] by simp
    finally have "(list * d + 50) div 100 = k * q * d" .
    then show ?thesis using ld by (simp add: sdiv_hundred)
  qed
  have kd: "0 \<le> k * q * d" "100 * (k * q * d) \<le> 90 * list"
    using True k q mult_left_mono [of d 90 "k * q"] by (simp_all add: list_def)
  have kd_le: "k * q * d \<le> list" using tenth_left [OF kd(2) list(1)] by simp
  have w: "int64 (Cents p * int64 q) = list" "int64 (list * int64 d) = list * d"
    "int64 (list * d + 50) = list * d + 50" "int64 (list - k * q * d) = list - k * q * d"
  proof -
    have "int64 q = q" "int64 d = d" by (rule int64_id; use q True in simp)+
    moreover have "Cents p * q = list" by (simp add: list_def k)
    moreover have "int64 list = list" by (rule int64_id; use list in simp)
    moreover show "int64 (list * d + 50) = list * d + 50" "int64 (list - k * q * d) = list - k * q * d"
      using list ld kd_le kd(1) by (auto intro!: int64_id)
    moreover have "int64 (list * d) = list * d" by (rule int64_id; use ld in simp)
    ultimately show "int64 (Cents p * int64 q) = list" "int64 (list * int64 d) = list * d" by simp_all
  qed
  have "ValidateDiscount d = None" using True by (simp add: ValidateDiscount_None)
  moreover have "(if quantity < 1 then 1 else quantity) = q" by (simp add: q_def max_def)
  ultimately have c: "Charge p quantity d = Inr \<lparr>ch_quantity = q, ch_percent = d, ch_list_cents = list,
      ch_discount_cents = k * q * d, ch_net_cents = list - k * q * d\<rparr>"
    by (simp add: Charge_def Let_def w disc)
  have "list = Cents p * q" by (simp add: list_def k)
  moreover have "10 * (list - k * q * d) \<ge> list" "0 < list - k * q * d"
    using tenth_left [OF kd(2) list(1)] by simp_all
  moreover have "100 * (k * q * d) = list * d" by (simp add: list_def algebra_simps)
  ultimately show ?thesis using True c kd(1) by (simp add: q_def)
qed

text \<open>C20: the price of an invoice, for every plan on sale and any quantity up to two billion.
  A discount is refused exactly outside 0 to 90; otherwise no \<^verbatim>\<open>int64\<close> overflows, the
  discount is exact to the cent, list = discount + net, and at least a tenth of a positive
  list price is left to pay.\<close>

theorem Charge_exact:
  assumes "PlanFor product interval = Some p" "quantity \<le> 2 ^ 31"
  shows "(\<not> (0 \<le> d \<and> d \<le> 90) \<longrightarrow> isl (Charge p quantity d)) \<and>
    (0 \<le> d \<and> d \<le> 90 \<longrightarrow> (\<exists>c. Charge p quantity d = Inr c \<and>
       ch_quantity c = max 1 quantity \<and> ch_percent c = d \<and>
       ch_list_cents c = Cents p * max 1 quantity \<and>
       100 * ch_discount_cents c = ch_list_cents c * d \<and>
       ch_net_cents c = ch_list_cents c - ch_discount_cents c \<and>
       0 \<le> ch_discount_cents c \<and> 10 * ch_net_cents c \<ge> ch_list_cents c \<and> 0 < ch_net_cents c))"
  using assms by (rule Charge_result)

theorem Charge_exact_witness:
  "\<exists>c. Charge pro_year 3 25 = Inr c \<and> ch_list_cents c = 897000 \<and> ch_discount_cents c = 224250
     \<and> ch_net_cents c = 672750"
  using Charge_exact [OF plans_simps(2), of 3 25] by (auto simp: Cents_plans)

text \<open>What a valid price says, for the clients of \<open>Charge\<close>.\<close>

lemma Charge_Inr:
  "PlanFor product interval = Some p \<Longrightarrow> quantity \<le> 2 ^ 31 \<Longrightarrow> Charge p quantity d = Inr c \<Longrightarrow>
   0 \<le> d \<and> d \<le> 90 \<and> 0 < ch_net_cents c \<and> ch_net_cents c = ch_list_cents c - ch_discount_cents c
   \<and> ch_list_cents c = Cents p * max 1 quantity"
  using Charge_result [of product interval p quantity d] by (cases "0 \<le> d \<and> d \<le> 90") auto

lemma Charge_Inr_iff:
  "isl (Charge p quantity d) \<longleftrightarrow> \<not> (0 \<le> d \<and> d \<le> 90)"
  using ValidateDiscount_None [of d] by (auto simp: Charge_def Let_def split: option.splits)

lemma Discounted_iff:
  assumes "PlanFor product interval = Some p" "quantity \<le> 2 ^ 31" "Charge p quantity d = Inr c"
  shows "Discounted c \<longleftrightarrow> d > 0"
proof -
  have d: "0 \<le> d \<and> d \<le> 90" using Charge_Inr [OF assms] by simp
  with Charge_result [OF assms(1,2), of d] assms(3) have c: "100 * ch_discount_cents c = ch_list_cents c * d"
    "ch_percent c = d" "ch_list_cents c = Cents p * max 1 quantity" by auto
  have "0 < Cents p * max 1 quantity" using Cents_cases [OF assms(1)] by auto
  then show ?thesis using c by (auto simp: Discounted_def zero_less_mult_iff)
       (smt (verit) mult_pos_pos)
qed

end
