(* ===== verification/Billing_Licensing.thy ===== *)
theory Billing_Licensing
  imports License_Key Billing_Plans "HOL-Library.Countable"
begin

text \<open>
  Issuing licence keys on the billing server
  (\<^verbatim>\<open>internal/billing/licensing/service.go\<close>, \<^verbatim>\<open>internal/shared/mailhdr\<close>): the request types, the
  signing paths, the text of the licence mail and the assembly of one mail. The
  world \<open>mailer\<close> adds an outbox to the tape and the clock; a mail is its envelope
  recipient and its full text. The texts are the source's, in UTF-8 bytes.
\<close>

section \<open>The issuer\<close>

record SMTPConfig =
  sm_user :: string
  sm_from :: string
  sm_reply_to :: string

record issuer =
  is_pem :: string
  is_smtp :: SMTPConfig

record mailer = effects +
  outbox :: "(string \<times> string) list"

definition Enabled :: "issuer \<Rightarrow> bool" where
  "Enabled i \<longleftrightarrow> is_pem i \<noteq> ''''"

record request =
  rq_orgname :: string
  rq_email :: string
  rq_interval :: string
  rq_trial :: bool
  rq_token :: string
  rq_seat :: bool

definition ForLicence :: "string \<Rightarrow> string \<Rightarrow> string \<Rightarrow> string \<Rightarrow> request" where
  "ForLicence renewalToken orgName email interval = \<lparr>rq_orgname = orgName, rq_email = email,
     rq_interval = interval, rq_trial = False, rq_token = renewalToken, rq_seat = False\<rparr>"

definition AsTrial :: "request \<Rightarrow> request" where
  "AsTrial l = l\<lparr>rq_trial := True\<rparr>"

definition ForSeat :: "request \<Rightarrow> request" where
  "ForSeat l = l\<lparr>rq_seat := True\<rparr>"

definition orgOf :: "request \<Rightarrow> string" where
  "orgOf r = (let org = trim_space (rq_orgname r) in if org \<noteq> '''' then org else rq_email r)"

datatype issue_error =
    NoSigningKey
  | NoRenewalToken
  | NotSigned signError
  | MailFailed

definition SignUntil :: "crypto \<Rightarrow> issuer \<Rightarrow> instant \<Rightarrow> request \<Rightarrow> instant \<Rightarrow> issue_error + string" where
  "SignUntil C i t l expires =
     (if \<not> Enabled i then Inl NoSigningKey
      else if rq_token l = '''' then Inl NoRenewalToken
      else case SignWithToken C t (is_pem i) ''pro'' (orgOf l) (rq_token l) ProTier (Some expires) of
          Inl e \<Rightarrow> Inl (NotSigned e) | Inr key \<Rightarrow> Inr key)"

text \<open>\<^verbatim>\<open>sign\<close>: the key and the moment it stops working.\<close>

definition sign_request :: "crypto \<Rightarrow> issuer \<Rightarrow> instant \<Rightarrow> request \<Rightarrow> issue_error + string \<times> instant" where
  "sign_request C i t r =
     (if \<not> Enabled i then Inl NoSigningKey
      else let status = (if rq_trial r then ''trialing'' else '''');
               expiry = KeyExpiry t (rq_interval r) status
        in case SignWithToken C t (is_pem i) ''pro'' (orgOf r) (rq_token r) ProTier (Some expiry) of
             Inl e \<Rightarrow> Inl (NotSigned e) | Inr key \<Rightarrow> Inr (key, expiry))"

definition Sign_issuer :: "crypto \<Rightarrow> issuer \<Rightarrow> instant \<Rightarrow> request \<Rightarrow> issue_error + string" where
  "Sign_issuer C i t r = (case sign_request C i t r of Inl e \<Rightarrow> Inl e | Inr (key, _) \<Rightarrow> Inr key)"

section \<open>The licence mail\<close>

definition u_uuml :: string where "u_uuml = [CHR 0xC3, CHR 0xBC]"
definition u_ouml :: string where "u_ouml = [CHR 0xC3, CHR 0xB6]"
definition u_szlig :: string where "u_szlig = [CHR 0xC3, CHR 0x9F]"
definition u_arrow :: string where "u_arrow = [CHR 0xE2, CHR 0x86, CHR 0x92]"
definition crlf :: string where "crlf = [CHR 0x0D, CHR 0x0A]"
definition nl :: string where "nl = [CHR 0x0A]"

definition termOf :: "string \<Rightarrow> string" where
  "termOf interval = (if interval = ''year'' then ''ein volles Jahr'' else ''einen vollen Monat'')"

definition mail_subject :: "request \<Rightarrow> string" where
  "mail_subject r =
     (if rq_seat r then ''Deine Vakt Pro Lizenz''
      else if rq_trial r then ''Deine Vakt Pro Lizenz (45 Tage, bis zum Zahlungseingang)''
      else ''Deine Vakt Pro Lizenz '' @ u_dash @ '' Zahlung eingegangen'')"

definition mail_intro :: "request \<Rightarrow> string \<Rightarrow> string" where
  "mail_intro r until =
     (if rq_seat r then
        ''dein Zugang zu Vakt Pro ist eingerichtet '' @ u_dash @ '' dein IT-Dienstleister hat ihn f'' @ u_uuml
        @ ''r dich bereitgestellt.'' @ crlf @ crlf
        @ ''Hier ist dein Lizenzschl'' @ u_uuml @ ''ssel: einfach in deiner Instanz eintragen, dann l'' @ u_auml
        @ ''uft die Lizenz bis zum '' @ until @ ''.''
      else if rq_trial r then
        ''vielen Dank f'' @ u_uuml @ ''r deinen Auftrag. Anbei findest du deine Rechnung.'' @ crlf @ crlf
        @ ''Damit du sofort loslegen kannst, liegt schon jetzt ein Lizenzschl'' @ u_uuml @ ''ssel bei '' @ u_dash
        @ '' er l'' @ u_auml @ ''uft bis zum '' @ until @ ''. ''
        @ ''Sobald deine Zahlung eingegangen ist, bekommst du automatisch den Schl'' @ u_uuml @ ''ssel f'' @ u_uuml
        @ ''r '' @ termOf (rq_interval r) @ ''. '' @ ''Du musst daf'' @ u_uuml @ ''r nichts tun.''
      else
        ''deine Zahlung ist eingegangen '' @ u_dash @ '' vielen Dank. Hier ist dein Lizenzschl'' @ u_uuml
        @ ''ssel f'' @ u_uuml @ ''r '' @ termOf (rq_interval r) @ ''.'' @ crlf @ crlf
        @ ''Er ersetzt den 45-Tage-Schl'' @ u_uuml @ ''ssel aus der Auftragsbest'' @ u_auml
        @ ''tigung: einfach in deiner Instanz eintragen, dann l'' @ u_auml @ ''uft die Lizenz bis zum ''
        @ until @ ''.'')"

definition mail_renewal :: "string \<Rightarrow> string" where
  "mail_renewal token = (if token = '''' then '''' else
     nl @ ''Damit sich die Lizenz k'' @ u_uuml @ ''nftig von selbst verl'' @ u_auml @ ''ngert, trage zus'' @ u_auml @ ''tzlich ein:'' @ nl
     @ ''  VAKT_LICENSE_TOKEN='' @ token @ nl @ nl
     @ ''Deine Instanz holt sich damit einmal t'' @ u_auml @ ''glich den aktuellen Schl'' @ u_uuml @ ''ssel. Bei einer'' @ nl
     @ ''Verl'' @ u_auml @ ''ngerung musst du dann nichts mehr eintragen. '' @ [CHR 0xC3, CHR 0x9C] @ ''bertragen wird ausschlie'' @ u_szlig @ ''lich'' @ nl
     @ ''dieser Token '' @ u_dash @ '' keine Daten aus deiner Instanz. Der Token ist optional; ohne ihn'' @ nl
     @ ''funktioniert alles wie gewohnt, nur der Schl'' @ u_uuml @ ''sselwechsel bleibt manuell.'' @ nl)"

definition licenseMail :: "request \<Rightarrow> string \<Rightarrow> instant \<Rightarrow> string \<times> string" where
  "licenseMail r key expires = (let until = fmt_german expires in
     (mail_subject r,
      ''Hallo,'' @ nl @ nl @ mail_intro r until @ nl @ nl
      @ ''Dein Lizenzschl'' @ u_uuml @ ''ssel:'' @ nl @ nl @ key @ nl @ nl
      @ ''So aktivierst du ihn:'' @ nl
      @ ''  1. In deiner Vakt-Instanz auf \"Einstellungen\" '' @ u_arrow @ '' \"Lizenz\"'' @ nl
      @ ''  2. Schl'' @ u_uuml @ ''ssel einf'' @ u_uuml @ ''gen, speichern '' @ u_dash @ '' fertig.'' @ nl @ nl
      @ ''Alternativ per Umgebungsvariable in der .env deiner Instanz:'' @ nl
      @ ''  VAKT_LICENSE_KEY='' @ key @ nl @ mail_renewal (rq_token r) @ nl
      @ ''Fragen? Antworte einfach auf diese Mail.'' @ nl @ nl
      @ ''Viele Gr'' @ u_uuml @ u_szlig @ ''e'' @ nl @ ''Stefan'' @ nl @ ''Norvik Ops'' @ nl))"

section \<open>One mail\<close>

definition Sanitize :: "string \<Rightarrow> string" where
  "Sanitize v = filter (\<lambda>c. c \<noteq> CHR 0x0D \<and> c \<noteq> CHR 0x0A) v"

text \<open>Base64 of the standard alphabet, padded, for the attachment.\<close>

definition std_char :: "nat \<Rightarrow> char" where
  "std_char n = (if n = 62 then CHR ''+'' else if n = 63 then CHR ''/'' else sextet_char n)"

definition std_b64 :: "string \<Rightarrow> string" where
  "std_b64 s = (let e = map std_char (sextets (map of_char s))
     in e @ replicate ((4 - length e mod 4) mod 4) CHR ''='')"

function chunk76 :: "string \<Rightarrow> string" where
  "chunk76 s = (if length s > 76 then take 76 s @ crlf @ chunk76 (drop 76 s) else s)"
  by auto
termination by (relation "measure length") auto

declare chunk76.simps [simp del]

definition boundary :: string where "boundary = ''vakt-license-boundary-8f3a1c''"

definition message :: "SMTPConfig \<Rightarrow> string \<Rightarrow> string \<Rightarrow> string \<Rightarrow> string \<Rightarrow> string \<Rightarrow> string" where
  "message cfg toAddr subject body pdf pdfName =
     (let from = Sanitize (sm_from cfg); to = Sanitize toAddr; subj = Sanitize subject;
          replyTo = (if sm_reply_to cfg \<noteq> '''' then ''Reply-To: '' @ Sanitize (sm_reply_to cfg) @ crlf else '''');
          head = ''From: '' @ from @ crlf @ ''To: '' @ to @ crlf @ replyTo @ ''Subject: '' @ subj @ crlf
            @ ''MIME-Version: 1.0'' @ crlf
      in if length pdf > 0 then
           head @ ''Content-Type: multipart/mixed; boundary=\"'' @ boundary @ ''\"'' @ crlf @ crlf
           @ ''--'' @ boundary @ crlf @ ''Content-Type: text/plain; charset=\"utf-8\"'' @ crlf @ crlf
           @ body @ crlf
           @ ''--'' @ boundary @ crlf @ ''Content-Type: application/pdf'' @ crlf
           @ ''Content-Transfer-Encoding: base64'' @ crlf
           @ ''Content-Disposition: attachment; filename=\"'' @ Sanitize pdfName @ ''\"'' @ crlf @ crlf
           @ chunk76 (std_b64 pdf) @ crlf @ ''--'' @ boundary @ ''--'' @ crlf
         else head @ ''Content-Type: text/plain; charset=\"utf-8\"'' @ crlf @ crlf @ body)"

text \<open>\<^verbatim>\<open>smtp.SendMail\<close> refuses an envelope address with a CR or LF before it talks to anyone.\<close>

definition bad_line :: "string \<Rightarrow> bool" where
  "bad_line s \<longleftrightarrow> CHR 0x0D \<in> set s \<or> CHR 0x0A \<in> set s"

definition Send :: "issuer \<Rightarrow> string \<Rightarrow> string \<Rightarrow> string \<Rightarrow> string \<Rightarrow> string
    \<Rightarrow> ('z mailer_scheme, bool) state" where
  "Send i toAddr subject body pdf pdfName =
     (if bad_line (sm_from (is_smtp i)) \<or> bad_line toAddr then State_Monad.return False
      else exec (\<lambda>s. s\<lparr>outbox := outbox s @ [(toAddr, message (is_smtp i) toAddr subject body pdf pdfName)]\<rparr>))"

definition sendMail :: "issuer \<Rightarrow> request \<Rightarrow> string \<Rightarrow> instant \<Rightarrow> string \<Rightarrow> string
    \<Rightarrow> ('z mailer_scheme, bool) state" where
  "sendMail i r key expires pdf pdfName = (case licenseMail r key expires of
     (subject, body) \<Rightarrow> Send i (rq_email r) subject body pdf pdfName)"

text \<open>A signed key is returned even when its mail failed.\<close>

definition IssueUntil :: "crypto \<Rightarrow> issuer \<Rightarrow> request \<Rightarrow> instant \<Rightarrow> string \<Rightarrow> string
    \<Rightarrow> ('z mailer_scheme, string \<times> issue_error option) state" where
  "IssueUntil C i l expires invoicePDF invoiceName = do {
     t \<leftarrow> gets now;
     (case SignUntil C i t l expires of
        Inl e \<Rightarrow> State_Monad.return ('''', Some e)
      | Inr key \<Rightarrow> do {
          ok \<leftarrow> sendMail i l key expires invoicePDF invoiceName;
          State_Monad.return (key, if ok then None else Some MailFailed) }) }"

definition Issue :: "crypto \<Rightarrow> issuer \<Rightarrow> request \<Rightarrow> string \<Rightarrow> string
    \<Rightarrow> ('z mailer_scheme, string \<times> issue_error option) state" where
  "Issue C i r invoicePDF invoiceName = do {
     t \<leftarrow> gets now;
     (case sign_request C i t r of
        Inl e \<Rightarrow> State_Monad.return ('''', Some e)
      | Inr (key, expires) \<Rightarrow> do {
          ok \<leftarrow> sendMail i r key expires invoicePDF invoiceName;
          State_Monad.return (key, if ok then None else Some MailFailed) }) }"

section \<open>No header can be injected\<close>

definition header_name :: "string \<Rightarrow> string" where
  "header_name l = takeWhile (\<lambda>c. c \<noteq> CHR '':'') l"

definition header_lines :: "string list \<Rightarrow> string" where
  "header_lines ls = concat (map (\<lambda>l. l @ crlf) ls)"

lemma Sanitize_no_crlf: "CHR 0x0D \<notin> set (Sanitize v)" "CHR 0x0A \<notin> set (Sanitize v)"
  by (simp_all add: Sanitize_def)

lemma header_lines_append: "header_lines (ls @ ms) = header_lines ls @ header_lines ms"
  by (simp add: header_lines_def)

text \<open>whatever a customer put into the company name, the address or the subject, and whatever
  the file is called: the mail starts with exactly the fixed header lines, each of them
  one line, followed by the blank line that ends the headers.\<close>

theorem mail_headers_fixed:
  "\<exists>ls rest. message cfg to subject body pdf name = header_lines ls @ crlf @ rest
     \<and> (\<forall>l \<in> set ls. \<not> bad_line l)
     \<and> map header_name ls = [''From'', ''To''] @ (if sm_reply_to cfg \<noteq> '''' then [''Reply-To''] else [])
         @ [''Subject'', ''MIME-Version'', ''Content-Type'']"
proof -
  define ct where "ct = (if length pdf > 0
     then ''Content-Type: multipart/mixed; boundary=\"'' @ boundary @ ''\"''
     else ''Content-Type: text/plain; charset=\"utf-8\"'')"
  define ls where "ls = [''From: '' @ Sanitize (sm_from cfg), ''To: '' @ Sanitize to]
    @ (if sm_reply_to cfg \<noteq> '''' then [''Reply-To: '' @ Sanitize (sm_reply_to cfg)] else [])
    @ [''Subject: '' @ Sanitize subject, ''MIME-Version: 1.0'', ct]"
  have "\<exists>rest. message cfg to subject body pdf name = header_lines ls @ crlf @ rest"
    by (cases "length pdf > 0") (simp_all add: message_def Let_def header_lines_def ls_def ct_def)
  moreover have "\<forall>l \<in> set ls. \<not> bad_line l"
    by (simp add: ls_def ct_def bad_line_def Sanitize_no_crlf boundary_def)
  moreover have "map header_name ls = [''From'', ''To''] @ (if sm_reply_to cfg \<noteq> '''' then [''Reply-To''] else [])
         @ [''Subject'', ''MIME-Version'', ''Content-Type'']"
    by (simp add: ls_def ct_def header_name_def)
  ultimately show ?thesis by blast
qed

theorem mail_headers_fixed_witness:
  "\<exists>ls rest. message \<lparr>sm_user = '''', sm_from = ''a'', sm_reply_to = ''''\<rparr> ''b''
      (''x'' @ crlf @ ''Bcc: evil'') ''body'' '''' '''' = header_lines ls @ crlf @ rest
     \<and> map header_name ls = [''From'', ''To'', ''Subject'', ''MIME-Version'', ''Content-Type'']"
  using mail_headers_fixed [of "\<lparr>sm_user = '''', sm_from = ''a'', sm_reply_to = ''''\<rparr>" "''b''"
      "''x'' @ crlf @ ''Bcc: evil''" "''body''" "''''" "''''"] by auto

fun join_lines :: "string list \<Rightarrow> string" where
  "join_lines [] = ''''"
| "join_lines [l] = l"
| "join_lines (l # ls) = l @ crlf @ join_lines ls"

text \<open>wrapping an attachment cuts it into lines of at most 76 characters and loses nothing.\<close>

theorem chunk76_lines:
  "\<exists>ls. chunk76 s = join_lines ls \<and> concat ls = s \<and> (\<forall>l \<in> set ls. length l \<le> 76)"
proof (induction s rule: chunk76.induct)
  case (1 s)
  show ?case
  proof (cases "length s > 76")
    case True
    with 1 obtain ls where ls: "chunk76 (drop 76 s) = join_lines ls" "concat ls = drop 76 s"
      "\<forall>l \<in> set ls. length l \<le> 76" by blast
    have "ls \<noteq> []" using True ls(2) by auto
    then have "join_lines (take 76 s # ls) = take 76 s @ crlf @ join_lines ls"
      by (cases ls) simp_all
    then have "chunk76 s = join_lines (take 76 s # ls)"
      using True ls(1) by (subst chunk76.simps) simp
    moreover have "concat (take 76 s # ls) = s" by (simp add: ls(2))
    ultimately show ?thesis using ls(3)
      by (intro exI [of _ "take 76 s # ls"]) simp
  next
    case False
    then show ?thesis by (intro exI [of _ "[s]"]) (subst chunk76.simps, simp)
  qed
qed

theorem chunk76_lines_witness: "\<exists>ls. chunk76 ''abc'' = join_lines ls \<and> concat ls = ''abc''"
  using chunk76_lines [of "''abc''"] by blast

section \<open>What is issued\<close>

text \<open>The libraries as the billing server relies on them: the configured key is a private key
  whose signatures the embedded public key accepts, and JSON reads payloads back.\<close>

definition good_crypto :: "crypto \<Rightarrow> issuer \<Rightarrow> bool" where
  "good_crypto C i \<longleftrightarrow> (\<forall>p. json_dec C (json_enc C p) = Some p) \<and>
     (\<exists>sk. priv_of_pem C (unescape_newlines (is_pem i)) = Some sk \<and> (\<forall>h. pair_signs C sk h))"

lemma pro_known: "KnownTier ''pro''"
  by (simp add: KnownTier_def sellableTiers_def)

lemma good_sign:
  assumes "good_crypto C i"
  obtains key where "SignWithToken C t (is_pem i) ''pro'' org rt fs (Some e) = Inr key" "key \<noteq> ''''"
    "\<And>u. parse C u key = Inr \<lparr>l_tier = ''pro'', l_features = fs, l_org = org, l_issued = t,
      l_expires = Some e, l_demo = False, l_token = rt, l_expired = (e < u)\<rparr>"
proof -
  let ?p = "payload_of t ''pro'' org rt fs (Some e)"
  from assms obtain sk where "priv_of_pem C (unescape_newlines (is_pem i)) = Some sk"
    and h: "json_dec C (json_enc C ?p) = Some ?p" "pair_signs C sk (sha256 C (b64_enc (json_enc C ?p)))"
    by (auto simp: good_crypto_def)
  then have "SignWithToken C t (is_pem i) ''pro'' org rt fs (Some e) = signWith C t sk ''pro'' org rt fs (Some e)"
    by (simp add: SignWithToken_def pro_known)
  moreover obtain key where "signWith C t sk ''pro'' org rt fs (Some e) = Inr key" "key \<noteq> ''''"
    "\<And>u. parse C u key = Inr (license_of_payload u ?p)"
    using signWith_parse [OF pro_known refl h] by metis
  ultimately show thesis using that by (simp add: license_of_payload_def payload_of_def)
qed

text \<open>\<open>key_for\<close>: a key the instance reads as a pro licence with this token, expiry and name.\<close>

definition key_for :: "crypto \<Rightarrow> string \<Rightarrow> string \<Rightarrow> string \<Rightarrow> instant \<Rightarrow> bool" where
  "key_for C key token org e \<longleftrightarrow> key \<noteq> '''' \<and> (\<exists>t. \<forall>u. parse C u key =
     Inr \<lparr>l_tier = ''pro'', l_features = ProTier, l_org = org, l_issued = t, l_expires = Some e,
       l_demo = False, l_token = token, l_expired = (e < u)\<rparr>)"

lemma SignUntil_key:
  assumes "good_crypto C i" "SignUntil C i t l e = Inr key"
  shows "key_for C key (rq_token l) (orgOf l) e"
proof -
  obtain k where "SignWithToken C t (is_pem i) ''pro'' (orgOf l) (rq_token l) ProTier (Some e) = Inr k" "k \<noteq> ''''"
    "\<And>u. parse C u k = Inr \<lparr>l_tier = ''pro'', l_features = ProTier, l_org = orgOf l, l_issued = t,
      l_expires = Some e, l_demo = False, l_token = rq_token l, l_expired = (e < u)\<rparr>"
    using good_sign [OF assms(1)] by metis
  with assms(2) show ?thesis by (auto simp: SignUntil_def key_for_def split: if_splits)
qed

lemma SignUntil_total:
  assumes "good_crypto C i" "Enabled i" "rq_token l \<noteq> ''''"
  obtains key where "SignUntil C i t l e = Inr key"
proof -
  obtain k where "SignWithToken C t (is_pem i) ''pro'' (orgOf l) (rq_token l) ProTier (Some e) = Inr k"
    using good_sign [OF assms(1)] by metis
  then show thesis using that assms(2,3) by (simp add: SignUntil_def)
qed

lemma wp_Send:
  assumes "\<And>t. Q False (s\<lparr>faults := t\<rparr>)"
    and "\<And>t. Q True (s\<lparr>faults := t, outbox := outbox s @ [(to, message (is_smtp i) to subj body pdf name)]\<rparr>)"
  shows "wp (Send i to subj body pdf name) Q s"
proof -
  have "Q False s" using assms(1) [of "faults s"] by simp
  then show ?thesis unfolding Send_def by (intro wp_intros) (simp_all add: assms)
qed

lemma wp_IssueUntil:
  assumes "\<And>e. Q ('''', Some e) s"
    and "\<And>key t err ob. SignUntil C i (now s) l e = Inr key \<Longrightarrow> Q (key, err) (s\<lparr>faults := t, outbox := ob\<rparr>)"
  shows "wp (IssueUntil C i l e pdf name) Q s"
proof -
  have "Q (key, err) (s\<lparr>faults := t\<rparr>)" if "SignUntil C i (now s) l e = Inr key" for key err t
    using assms(2) [OF that, where err = err and t = t and ob = "outbox s"] by simp
  with assms show ?thesis unfolding IssueUntil_def sendMail_def licenseMail_def Let_def
    by (intro wp_intros wp_Send) simp_all
qed

lemma message_contains_body: "\<exists>a b. message cfg to subj body pdf name = a @ body @ b"
proof (cases "length pdf > 0")
  case False
  define a where "a = ''From: '' @ Sanitize (sm_from cfg) @ crlf @ ''To: '' @ Sanitize to @ crlf
    @ (if sm_reply_to cfg \<noteq> '''' then ''Reply-To: '' @ Sanitize (sm_reply_to cfg) @ crlf else '''')
    @ ''Subject: '' @ Sanitize subj @ crlf @ ''MIME-Version: 1.0'' @ crlf
    @ ''Content-Type: text/plain; charset=\"utf-8\"'' @ crlf @ crlf"
  have "message cfg to subj body pdf name = a @ body @ ''''"
    using False by (simp add: message_def Let_def a_def)
  then show ?thesis by blast
next
  case True
  define a where "a = ''From: '' @ Sanitize (sm_from cfg) @ crlf @ ''To: '' @ Sanitize to @ crlf
    @ (if sm_reply_to cfg \<noteq> '''' then ''Reply-To: '' @ Sanitize (sm_reply_to cfg) @ crlf else '''')
    @ ''Subject: '' @ Sanitize subj @ crlf @ ''MIME-Version: 1.0'' @ crlf
    @ ''Content-Type: multipart/mixed; boundary=\"'' @ boundary @ ''\"'' @ crlf @ crlf
    @ ''--'' @ boundary @ crlf @ ''Content-Type: text/plain; charset=\"utf-8\"'' @ crlf @ crlf"
  have "\<exists>b. message cfg to subj body pdf name = a @ body @ b"
    using True by (simp add: message_def Let_def a_def)
  then show ?thesis by blast
qed

lemma sub_head: "sublist u (u @ y)"
  by (auto simp: sublist_def)

lemma sub_tail: "sublist u y \<Longrightarrow> sublist u (x @ y)"
  by (auto simp: sublist_def) (metis append.assoc)

lemma sub_left: "sublist u x \<Longrightarrow> sublist u (x @ y)"
  by (auto simp: sublist_def) blast

lemma mail_intro_until: "sublist until (mail_intro r until)"
  unfolding mail_intro_def
  by (cases "rq_seat r"; cases "rq_trial r"; simp only: if_True if_False; (rule sub_head | rule sub_tail)+)

lemma licenseMail_contents:
  "sublist key (snd (licenseMail r key e))" "sublist (fmt_german e) (snd (licenseMail r key e))"
  "rq_token r \<noteq> '''' \<Longrightarrow> sublist (rq_token r) (snd (licenseMail r key e))"
proof -
  show "sublist key (snd (licenseMail r key e))"
    unfolding licenseMail_def Let_def snd_conv by (rule sub_head | rule sub_tail)+
  show "sublist (fmt_german e) (snd (licenseMail r key e))"
    unfolding licenseMail_def Let_def snd_conv
    by (rule sub_tail, rule sub_tail, rule sub_tail, rule sub_left, rule mail_intro_until)
  assume "rq_token r \<noteq> ''''"
  then have "sublist (rq_token r) (mail_renewal (rq_token r))"
    unfolding mail_renewal_def by (simp only: if_False) ((rule sub_head | rule sub_tail)+)
  then show "sublist (rq_token r) (snd (licenseMail r key e))"
    unfolding licenseMail_def Let_def snd_conv
    by - (rule sub_tail, rule sub_tail, rule sub_tail, rule sub_tail, rule sub_tail, rule sub_tail,
      (assumption | rule sub_left, assumption | rule sub_tail)+)
qed

lemma message_contains: "sublist x body \<Longrightarrow> sublist x (message cfg to subj body pdf name)"
  by (metis message_contains_body sub_left sub_tail)

text \<open>C21: issuing. The key that comes back is read by an instance as a pro licence with the row's
  own renewal token and exactly the expiry asked for; when the mail went out it carries
  that key and names the date that key runs out on.\<close>

theorem IssueUntil_correct:
  assumes "good_crypto C i" "run_state (IssueUntil C i l e pdf name) s = ((key, err), s')" "key \<noteq> ''''"
  shows "key_for C key (rq_token l) (orgOf l) e \<and>
    (err = None \<longrightarrow> (\<exists>m. outbox s' = outbox s @ [(rq_email l, m)] \<and> sublist key m \<and> sublist (fmt_german e) m))"
proof -
  obtain k where sg: "SignUntil C i (now s) l e = Inr k" and "k = key"
    and ok: "run_state (sendMail i l k e pdf name) s = (err = None, s')"
    using assms(2,3) by (auto simp: IssueUntil_def run_simps split: sum.splits prod.splits if_splits)
  have "\<exists>m. outbox s' = outbox s @ [(rq_email l, m)] \<and> sublist key m \<and> sublist (fmt_german e) m" if "err = None"
  proof -
    obtain subj body where lm: "licenseMail l k e = (subj, body)" by fastforce
    let ?m = "message (is_smtp i) (rq_email l) subj body pdf name"
    have "outbox s' = outbox s @ [(rq_email l, ?m)]"
      using ok that by (auto simp: sendMail_def lm Send_def exec_def run_simps attempt_def
          split: if_splits list.splits bool.splits)
    moreover have "sublist key body" "sublist (fmt_german e) body"
      using licenseMail_contents(1) [of k l e] licenseMail_contents(2) [of e l k] lm \<open>k = key\<close> by simp_all
    ultimately show ?thesis using message_contains by blast
  qed
  with SignUntil_key [OF assms(1) sg] \<open>k = key\<close> show ?thesis by blast
qed

section \<open>A concrete issuer\<close>

text \<open>Libraries that satisfy the laws: a payload is numbered, a hash is the text itself, and a
  signature names the key pair.\<close>

definition toy_enc :: "payload \<Rightarrow> string" where
  "toy_enc p = show_nat (to_nat (p_tier p, p_features p, p_org p, p_iat p, p_exp p, p_rt p))"

definition toy_dec :: "string \<Rightarrow> payload option" where
  "toy_dec s = (case from_nat (read_nat s) of (tier, fs, org, iat, e, rt) \<Rightarrow> Some
     \<lparr>p_tier = tier, p_features = fs, p_org = org, p_iat = iat, p_exp = e, p_rt = rt\<rparr>)"

definition toy_full :: crypto where
  "toy_full = \<lparr>json_enc = toy_enc, json_dec = toy_dec, sha256 = map of_char,
     priv_of_pem = (\<lambda>_. Some 7), pub_key = Some 7,
     ec_sign = (\<lambda>sk h. Some (sk, length h mod 65536)), ec_verify = (\<lambda>pk h r s. r = pk \<and> s = length h mod 65536)\<rparr>"

definition toy_issuer :: issuer where
  "toy_issuer = \<lparr>is_pem = ''pem'', is_smtp = \<lparr>sm_user = '''', sm_from = ''sales@vakt'', sm_reply_to = ''''\<rparr>\<rparr>"

lemma toy_full_good: "good_crypto toy_full toy_issuer"
proof -
  have "toy_dec (toy_enc p) = Some p" for p
    by (simp add: toy_dec_def toy_enc_def)
  moreover have "length h mod 65536 < 2 ^ 256" for h :: "nat list"
    by (rule less_trans [OF mod_less_divisor]) simp_all
  then have "pair_signs toy_full 7 h" for h
    by (simp add: pair_signs_def toy_full_def)
  moreover have "json_dec toy_full = toy_dec" "json_enc toy_full = toy_enc"
    "priv_of_pem toy_full x = Some 7" for x
    by (simp_all add: toy_full_def)
  ultimately show ?thesis unfolding good_crypto_def by metis
qed

definition toy_mailer :: "instant \<Rightarrow> mailer" where
  "toy_mailer t = \<lparr>faults = [], now = t, fresh = 0, outbox = []\<rparr>"

theorem IssueUntil_correct_witness:
  "\<exists>key s' m. run_state (IssueUntil toy_full toy_issuer (ForLicence ''tok'' '' Acme '' ''a@b'' ''year'') 864000 '''' '''')
     (toy_mailer 0) = ((key, None), s') \<and> key_for toy_full key ''tok'' ''Acme'' 864000
     \<and> outbox s' = [(''a@b'', m)] \<and> sublist ''11.01.1970'' m"
proof -
  let ?l = "ForLicence ''tok'' '' Acme '' ''a@b'' ''year''"
  have l: "rq_token ?l = ''tok''" "rq_email ?l = ''a@b''" "orgOf ?l = ''Acme''"
    by (simp_all add: ForLicence_def orgOf_def trim_space_def go_space_def)
  have e: "Enabled toy_issuer" by (simp add: Enabled_def toy_issuer_def)
  obtain key where k: "SignUntil toy_full toy_issuer 0 ?l 864000 = Inr key"
    using SignUntil_total [OF toy_full_good e] l by (metis list.distinct(1))
  have "key_for toy_full key ''tok'' ''Acme'' 864000" using SignUntil_key [OF toy_full_good k] l by simp
  then have n: "key \<noteq> ''''" by (simp add: key_for_def)
  obtain s' where r: "run_state (IssueUntil toy_full toy_issuer ?l 864000 '''' '''') (toy_mailer 0) = ((key, None), s')"
    using k l by (simp add: IssueUntil_def run_simps toy_mailer_def sendMail_def Send_def
        licenseMail_def Let_def bad_line_def toy_issuer_def)
  have "fmt_german 864000 = ''11.01.1970''" by code_simp
  with IssueUntil_correct [OF toy_full_good r n] r l show ?thesis
    by (auto simp: toy_mailer_def)
qed

end
