(* ===== verification/Billing_Tax.thy ===== *)
theory Billing_Tax
  imports Billing_Plans
begin

text \<open>
  The tax treatment of a sale (\<^verbatim>\<open>internal/billing/lexware/tax.go\<close>), the check of a
  foreign VAT number against VIES (\<^verbatim>\<open>vies.go\<close>) and the control view of the admin
  panel over issued invoices (\<^verbatim>\<open>internal/billing/admin/tax.go\<close>). Rates are Go
  floats with whole values; \<open>TaxOn\<close> is exact in \<^typ>\<open>rat\<close> (the float expression has a
  fractional part of a multiple of 1/100, so its rounding agrees below 2^40 cents).
\<close>

section \<open>Treatment\<close>

record TaxTreatment =
  tt_type :: string
  tt_rate :: rat
  tt_note :: string

record TaxContext =
  tc_country :: string
  tc_vat_verified :: bool
  tc_small_business :: bool

definition taxTypeDomestic :: string where "taxTypeDomestic = ''net''"
definition taxTypeSmallBusiness :: string where "taxTypeSmallBusiness = ''vatfree''"
definition taxTypeEUReverseCharge :: string where "taxTypeEUReverseCharge = ''externalService13b''"
definition taxTypeThirdCountry :: string where "taxTypeThirdCountry = ''thirdPartyCountryService''"
definition vatRateDE :: rat where "vatRateDE = 19"

definition noteEUReverseCharge :: string where
  "noteEUReverseCharge = ''Steuerschuldnerschaft des Leistungsempf'' @ u_auml @ ''ngers (Reverse Charge)''"

definition noteThirdCountry :: string where
  "noteThirdCountry = ''Nicht im Inland steuerbare sonstige Leistung (Drittland)''"

datatype tax_error = NoCountry | ErrVATIDRequired

definition euCountries :: "string list" where
  "euCountries = [''AT'', ''BE'', ''BG'', ''CY'', ''CZ'', ''DE'', ''DK'', ''EE'', ''ES'', ''FI'',
     ''FR'', ''GR'', ''HR'', ''HU'', ''IE'', ''IT'', ''LT'', ''LU'', ''LV'', ''MT'', ''NL'', ''PL'',
     ''PT'', ''RO'', ''SE'', ''SI'', ''SK'']"

definition IsEUCountry :: "string \<Rightarrow> bool" where
  "IsEUCountry countryCode \<longleftrightarrow> to_upper (trim_space countryCode) \<in> set euCountries"

definition taxTreatmentFor :: "TaxContext \<Rightarrow> tax_error + TaxTreatment" where
  "taxTreatmentFor i =
     (if tc_small_business i
      then Inr \<lparr>tt_type = taxTypeSmallBusiness, tt_rate = 0, tt_note = ''''\<rparr>
      else let country = to_upper (trim_space (tc_country i)) in
        if country = '''' then Inl NoCountry
        else if country = ''DE'' then Inr \<lparr>tt_type = taxTypeDomestic, tt_rate = vatRateDE, tt_note = ''''\<rparr>
        else if country \<in> set euCountries then
          (if \<not> tc_vat_verified i then Inl ErrVATIDRequired
           else Inr \<lparr>tt_type = taxTypeEUReverseCharge, tt_rate = 0, tt_note = noteEUReverseCharge\<rparr>)
        else Inr \<lparr>tt_type = taxTypeThirdCountry, tt_rate = 0, tt_note = noteThirdCountry\<rparr>)"

definition TaxOn :: "TaxTreatment \<Rightarrow> int \<Rightarrow> int" where
  "TaxOn t netCents = (if tt_rate t = 0 then 0
     else int64 \<lfloor>of_int netCents * tt_rate t / 100 + 1 / 2\<rfloor>)"

record InvoiceAmounts =
  ia_net :: int
  ia_tax :: int
  ia_gross :: int
  ia_type :: string
  ia_rate :: rat

definition amountsFor :: "int \<Rightarrow> TaxTreatment \<Rightarrow> InvoiceAmounts" where
  "amountsFor netCents t = (let tax = TaxOn t netCents in
     \<lparr>ia_net = netCents, ia_tax = tax, ia_gross = int64 (netCents + tax),
      ia_type = tt_type t, ia_rate = tt_rate t\<rparr>)"

definition InvoiceAmountsFor :: "bool \<Rightarrow> int \<Rightarrow> string \<Rightarrow> bool \<Rightarrow> tax_error + InvoiceAmounts" where
  "InvoiceAmountsFor smallBusiness netCents countryCode vatIDVerified =
     (case taxTreatmentFor \<lparr>tc_country = countryCode, tc_vat_verified = vatIDVerified,
        tc_small_business = smallBusiness\<rparr> of
        Inl e \<Rightarrow> Inl e
      | Inr tax \<Rightarrow> Inr (amountsFor netCents tax))"

section \<open>VIES\<close>

definition isAlpha2 :: "string \<Rightarrow> bool" where
  "isAlpha2 s \<longleftrightarrow> length s = 2 \<and> (\<forall>c \<in> set s. 65 \<le> (of_char c :: nat) \<and> (of_char c :: nat) \<le> 90)"

datatype vat_error =
    VatTooShort | VatNoCountry | VatNotEU string | VatNoNumber
  | ViesUnavailable | ViesBadRequest

text \<open>\<^verbatim>\<open>strings.ToUpper\<close>, \<^verbatim>\<open>TrimSpace\<close> and the three \<^verbatim>\<open>ReplaceAll\<close>.\<close>

definition vat_digits :: "string \<Rightarrow> string" where
  "vat_digits vatID = remove_char CHR ''-'' (remove_char CHR ''.'' (remove_char CHR '' ''
     (to_upper (trim_space vatID))))"

definition splitVATID :: "string \<Rightarrow> vat_error + string \<times> string" where
  "splitVATID vatID = (let s = vat_digits vatID; country = take 2 s; number = drop 2 s in
     if length s < 3 then Inl VatTooShort
     else if \<not> isAlpha2 country then Inl VatNoCountry
     else if country \<notin> set euCountries \<and> country \<noteq> ''EL'' then Inl (VatNotEU country)
     else if number = '''' then Inl VatNoNumber
     else Inr (country, number))"

record VIESResult =
  vr_country :: string
  vr_number :: string
  vr_valid :: bool
  vr_qualified :: bool
  vr_name :: string
  vr_addr :: string
  vr_checked :: instant
  vr_status :: string
  vr_request :: string

record vies_body =
  vb_valid :: bool
  vb_error :: string
  vb_name :: string
  vb_address :: string
  vb_request :: string

text \<open>What asking the commission can come to: a URL that does not parse, no answer, an answer
  that breaks off, a status with a body that decodes or not.\<close>

datatype vies_reply = BadURL | Unreachable | Unreadable | Answer nat "vies_body option"

definition checkAt :: "(string \<Rightarrow> string \<Rightarrow> vies_reply) \<Rightarrow> instant \<Rightarrow> string \<Rightarrow> string
    \<Rightarrow> VIESResult \<times> vat_error option" where
  "checkAt vies t cc num =
     (let res = \<lparr>vr_country = cc, vr_number = num, vr_valid = False, vr_qualified = False,
          vr_name = '''', vr_addr = '''', vr_checked = t, vr_status = '''', vr_request = ''''\<rparr> in
      case vies cc num of
        BadURL \<Rightarrow> (res, Some ViesBadRequest)
      | Unreachable \<Rightarrow> (res\<lparr>vr_status := ''unreachable''\<rparr>, Some ViesUnavailable)
      | Unreadable \<Rightarrow> (res\<lparr>vr_status := ''unreadable''\<rparr>, Some ViesUnavailable)
      | Answer code body \<Rightarrow>
          if code < 200 \<or> code > 299
          then (res\<lparr>vr_status := ''http_'' @ show_nat code\<rparr>, Some ViesUnavailable)
          else (case body of
              None \<Rightarrow> (res\<lparr>vr_status := ''undecodable''\<rparr>, Some ViesUnavailable)
            | Some b \<Rightarrow>
                (res\<lparr>vr_valid := vb_valid b, vr_name := vb_name b, vr_addr := vb_address b,
                  vr_request := vb_request b,
                  vr_status := (if vb_valid b then ''ok''
                     else if vb_error b \<noteq> '''' then ''invalid:'' @ vb_error b else ''invalid''),
                  vr_qualified := False\<rparr>, None)))"

definition Check :: "(string \<Rightarrow> string \<Rightarrow> vies_reply) \<Rightarrow> instant \<Rightarrow> string \<Rightarrow> VIESResult \<times> vat_error option" where
  "Check vies t vatID = (case splitVATID vatID of
     Inl e \<Rightarrow> (\<lparr>vr_country = '''', vr_number = '''', vr_valid = False, vr_qualified = False,
          vr_name = '''', vr_addr = '''', vr_checked = t, vr_status = ''malformed'', vr_request = ''''\<rparr>, Some e)
   | Inr (cc, num) \<Rightarrow> checkAt vies t cc num)"

section \<open>The control view\<close>

datatype tax_warning =
    Warn14c             \<comment> \<open>type "net" at 0 %\<close>
  | WarnReverseCharge   \<comment> \<open>EU abroad without a valid VAT check\<close>
  | WarnDomesticNoTax
  | WarnSmallBusiness

text \<open>The warning and whether it is severe; \<^term>\<open>None\<close> for nothing to see.\<close>

definition taxAnomaly :: "string \<Rightarrow> string \<Rightarrow> rat \<Rightarrow> bool \<Rightarrow> (tax_warning \<times> bool) option" where
  "taxAnomaly country taxType rate vatValid =
     (if taxType = ''net'' \<and> rate = 0 then Some (Warn14c, True)
      else if IsEUCountry country \<and> country \<noteq> ''DE'' \<and> rate = 0 \<and> \<not> vatValid
      then Some (WarnReverseCharge, True)
      else if country = ''DE'' \<and> rate = 0 \<and> taxType \<noteq> ''vatfree'' then Some (WarnDomesticNoTax, True)
      else if taxType = ''vatfree'' then Some (WarnSmallBusiness, False)
      else None)"

datatype tax_label = Domestic | TaxFree19 | EUReverseCharge | ThirdCountry | Other string

definition taxTypeLabel :: "string \<Rightarrow> tax_label" where
  "taxTypeLabel t =
     (if t = ''net'' then Domestic
      else if t = ''vatfree'' then TaxFree19
      else if t = ''externalService13b'' \<or> t = ''intraCommunitySupply'' then EUReverseCharge
      else if t = ''thirdPartyCountryService'' \<or> t = ''thirdPartyCountryDelivery'' then ThirdCountry
      else Other t)"

lemmas tax_types = taxTypeDomestic_def taxTypeSmallBusiness_def taxTypeEUReverseCharge_def
  taxTypeThirdCountry_def vatRateDE_def

section \<open>What is on the invoice\<close>

text \<open>the classification of a sale is total and never produces the combination that owes tax
  without showing it. Under the small-business rule everything is "vatfree" at 0; otherwise
  only a missing country and an unverified foreign EU customer are refused, 19 percent is
  charged exactly at home, and every other zero rate carries its legal note.\<close>

theorem tax_classification:
  "taxTreatmentFor i = Inr t \<Longrightarrow>
     \<not> (tt_type t = ''net'' \<and> tt_rate t = 0)
     \<and> (tc_small_business i \<longleftrightarrow> tt_type t = ''vatfree'')
     \<and> (tt_rate t = (if \<not> tc_small_business i \<and> to_upper (trim_space (tc_country i)) = ''DE'' then 19 else 0))
     \<and> (tt_note t = '''' \<longleftrightarrow> tc_small_business i \<or> tt_rate t = 19)
     \<and> (\<not> tc_small_business i \<and> IsEUCountry (tc_country i)
          \<and> to_upper (trim_space (tc_country i)) \<noteq> ''DE'' \<longrightarrow> tc_vat_verified i)"
  by (auto simp: taxTreatmentFor_def Let_def tax_types IsEUCountry_def noteEUReverseCharge_def
      noteThirdCountry_def split: if_splits)

definition vienna :: TaxContext where
  "vienna = \<lparr>tc_country = '' at'', tc_vat_verified = True, tc_small_business = False\<rparr>"

lemma vienna_treatment:
  "taxTreatmentFor vienna = Inr \<lparr>tt_type = ''externalService13b'', tt_rate = 0, tt_note = noteEUReverseCharge\<rparr>"
  by code_simp

theorem tax_classification_witness:
  "tt_note (projr (taxTreatmentFor vienna)) \<noteq> '''' \<and> tc_vat_verified vienna"
proof -
  have "\<not> tc_small_business vienna" by (simp add: vienna_def)
  then show ?thesis using tax_classification [OF vienna_treatment]
    unfolding vienna_treatment by (simp add: vienna_def)
qed

lemma taxTreatmentFor_error:
  "taxTreatmentFor i = Inl e \<longleftrightarrow> \<not> tc_small_business i \<and>
     (to_upper (trim_space (tc_country i)) = '''' \<and> e = NoCountry
      \<or> IsEUCountry (tc_country i) \<and> to_upper (trim_space (tc_country i)) \<noteq> ''DE''
        \<and> \<not> tc_vat_verified i \<and> e = ErrVATIDRequired)"
  by (auto simp: taxTreatmentFor_def Let_def IsEUCountry_def euCountries_def)

lemma TaxOn_DE:
  assumes "tt_rate t = 19" "0 \<le> n" "n < 2 ^ 58"
  shows "TaxOn t n = (19 * n + 50) div 100"
proof -
  have "of_int n * 19 / 100 + 1 / 2 = (of_int (19 * n + 50) / of_int 100 :: rat)" by simp
  then have "\<lfloor>of_int n * 19 / 100 + 1 / 2 :: rat\<rfloor> = (19 * n + 50) div 100"
    by (metis floor_divide_of_int_eq)
  moreover have "int64 ((19 * n + 50) div 100) = (19 * n + 50) div 100"
    using assms(2,3) by (intro int64_id) (simp_all add: div_le_dividend)
  ultimately show ?thesis using assms(1) by (simp add: TaxOn_def)
qed

text \<open>the amounts stored for an invoice are the amounts on it: gross = net + tax without
  overflow, and the tax is the rate on the net, rounded to the nearest cent.\<close>

theorem invoice_amounts:
  assumes "InvoiceAmountsFor sb net country verified = Inr a" "0 \<le> net" "net < 2 ^ 58"
  shows "ia_net a = net \<and> ia_gross a = net + ia_tax a
    \<and> 2 * \<bar>of_int (100 * ia_tax a) - ia_rate a * of_int net\<bar> \<le> 100 \<and> 0 \<le> ia_tax a
    \<and> (ia_rate a = 0 \<or> ia_rate a = 19 \<and> ia_type a = ''net'')"
proof -
  from assms(1) obtain t where t: "taxTreatmentFor \<lparr>tc_country = country, tc_vat_verified = verified,
      tc_small_business = sb\<rparr> = Inr t" and a: "a = amountsFor net t"
    by (auto simp: InvoiceAmountsFor_def split: sum.splits)
  from t consider "tt_rate t = 0" | "tt_rate t = 19" "tt_type t = ''net''"
    by (auto simp: taxTreatmentFor_def Let_def tax_types split: if_splits)
  then show ?thesis
  proof cases
    case 1
    then show ?thesis using assms by (simp add: a amountsFor_def TaxOn_def int64_id)
  next
    case 2
    let ?x = "(19 * net + 50) div 100"
    have x: "100 * ?x \<le> 19 * net + 50" "19 * net + 50 < 100 * ?x + 100"
      using mult_div_bounds [of 100 "19 * net + 50"] by simp_all
    have xb: "0 \<le> ?x" "?x \<le> net + 1" using x assms(2) by linarith+
    have "100 * ?x - 19 * net \<le> 50" "19 * net - 100 * ?x \<le> 50" using x by linarith+
    then have "2 * \<bar>100 * ?x - 19 * net\<bar> \<le> 100" by (simp add: abs_le_iff)
    then have "of_int (2 * \<bar>100 * ?x - 19 * net\<bar>) \<le> (100 :: rat)" by (simp only: of_int_le_numeral_iff)
    then have "2 * \<bar>of_int (100 * ?x) - 19 * of_int net\<bar> \<le> (100 :: rat)" by simp
    moreover have "int64 (net + ?x) = net + ?x" using xb assms(2,3) by (intro int64_id) simp_all
    ultimately show ?thesis
      using 2 xb assms(2) by (simp add: a amountsFor_def TaxOn_DE [OF 2(1) assms(2,3)] Let_def)
  qed
qed

theorem invoice_amounts_witness:
  "\<exists>a. InvoiceAmountsFor False 29900 ''DE'' False = Inr a \<and> ia_gross a = 29900 + ia_tax a \<and> ia_tax a = 5681"
proof -
  have e: "InvoiceAmountsFor False 29900 ''DE'' False = Inr \<lparr>ia_net = 29900, ia_tax = 5681,
      ia_gross = 35581, ia_type = ''net'', ia_rate = 19\<rparr>" by code_simp
  from invoice_amounts [OF e] e show ?thesis by auto
qed

section \<open>What a VAT check says\<close>

lemma isAlpha2_EU: "c \<in> set euCountries \<or> c = ''EL'' \<Longrightarrow> isAlpha2 c"
proof -
  have "list_all isAlpha2 (''EL'' # euCountries)" by code_simp
  then show "c \<in> set euCountries \<or> c = ''EL'' \<Longrightarrow> isAlpha2 c" by (auto simp: list_all_iff)
qed

text \<open>the VAT check fails closed. A number counts as valid exactly when it is well formed for a
  member state and the commission answered with a decodable success that says so; every
  failure on the way is an error that leaves it invalid, and no answer is ever a qualified
  proof.\<close>

theorem vies_fail_closed:
  "Check vies t vatID = (r, err) \<Longrightarrow>
     (vr_valid r \<longleftrightarrow> (\<exists>cc num code b. splitVATID vatID = Inr (cc, num) \<and> vies cc num = Answer code (Some b)
        \<and> 200 \<le> code \<and> code \<le> 299 \<and> vb_valid b))
     \<and> (err \<noteq> None \<longrightarrow> \<not> vr_valid r) \<and> (vr_valid r \<longleftrightarrow> vr_status r = ''ok'') \<and> \<not> vr_qualified r"
  by (auto simp: Check_def checkAt_def Let_def split: sum.splits vies_reply.splits option.splits if_splits)

definition answering :: "string \<Rightarrow> string \<Rightarrow> vies_reply" where
  "answering cc num = (if num = ''U12345678'' then Answer 200 (Some \<lparr>vb_valid = True, vb_error = '''',
     vb_name = ''ACME'', vb_address = '''', vb_request = ''''\<rparr>) else Unreachable)"

theorem vies_fail_closed_witness:
  "vr_valid (fst (Check answering 5 ''atu 1234.5678'')) \<and> \<not> vr_valid (fst (Check answering 5 ''DE1''))"
proof -
  have "splitVATID ''atu 1234.5678'' = Inr (''AT'', ''U12345678'')" "splitVATID ''DE1'' = Inr (''DE'', ''1'')"
    by code_simp+
  then show ?thesis
    using vies_fail_closed [of answering 5 "''atu 1234.5678''", OF surjective_pairing]
      vies_fail_closed [of answering 5 "''DE1''", OF surjective_pairing]
    by (auto simp: answering_def)
qed

text \<open>a normalised number is what is asked about: the split is upper case, has no separators, a
  member state's prefix (or EL) and a non-empty number.\<close>

theorem splitVATID_form:
  "splitVATID vatID = Inr (cc, num) \<longleftrightarrow> vat_digits vatID = cc @ num \<and> num \<noteq> ''''
     \<and> length cc = 2 \<and> (cc \<in> set euCountries \<or> cc = ''EL'')"
proof
  assume "splitVATID vatID = Inr (cc, num)"
  then have c: "cc = take 2 (vat_digits vatID)" "num = drop 2 (vat_digits vatID)"
    "\<not> length (vat_digits vatID) < 3" "cc \<in> set euCountries \<or> cc = ''EL''"
    by (simp_all add: splitVATID_def Let_def split: if_splits)
  then have "vat_digits vatID = cc @ num" "length cc = 2" "num \<noteq> ''''" by simp_all
  with c(4) show "vat_digits vatID = cc @ num \<and> num \<noteq> '''' \<and> length cc = 2 \<and> (cc \<in> set euCountries \<or> cc = ''EL'')"
    by blast
next
  assume a: "vat_digits vatID = cc @ num \<and> num \<noteq> '''' \<and> length cc = 2 \<and> (cc \<in> set euCountries \<or> cc = ''EL'')"
  then have "isAlpha2 cc" using isAlpha2_EU by blast
  moreover have "\<not> length (cc @ num) < 3" using a by (cases num) auto
  ultimately show "splitVATID vatID = Inr (cc, num)"
    using a by (auto simp: splitVATID_def Let_def)
qed

text \<open>the control view against the invoices this code issues. Under regular taxation nothing is
  ever flagged once the VAT check was valid. Under the small-business rule no invoice is
  flagged for the tax that paragraph 14c is about, but every invoice to another member state
  is flagged as an unproven reverse charge, severely, although it is not one.\<close>

theorem control_view:
  assumes "taxTreatmentFor \<lparr>tc_country = country, tc_vat_verified = verified, tc_small_business = sb\<rparr> = Inr t"
    and "to_upper (trim_space country) = country"
  shows "(\<not> sb \<longrightarrow> taxAnomaly country (tt_type t) (tt_rate t) verified = None)
    \<and> (sb \<longrightarrow> taxAnomaly country (tt_type t) (tt_rate t) verified =
        (if IsEUCountry country \<and> country \<noteq> ''DE'' \<and> \<not> verified then Some (WarnReverseCharge, True)
         else Some (WarnSmallBusiness, False)))"
proof -
  have "IsEUCountry country \<longleftrightarrow> country \<in> set euCountries" using assms(2) by (simp add: IsEUCountry_def)
  then show ?thesis using assms
    by (auto simp: taxTreatmentFor_def taxAnomaly_def Let_def tax_types split: if_splits)
qed

theorem control_view_witness:
  "taxAnomaly ''AT'' ''vatfree'' 0 False = Some (WarnReverseCharge, True)"
proof -
  have t: "taxTreatmentFor \<lparr>tc_country = ''AT'', tc_vat_verified = False, tc_small_business = True\<rparr>
      = Inr \<lparr>tt_type = ''vatfree'', tt_rate = 0, tt_note = ''''\<rparr>" by code_simp
  have u: "to_upper (trim_space ''AT'') = ''AT''" "IsEUCountry ''AT''" by code_simp+
  from control_view [OF t u(1)] u(2) show ?thesis by simp
qed

end
