(* ===== verification/Billing_Lexware.thy ===== *)
theory Billing_Lexware
  imports Billing_Licensing Billing_Tax
begin

text \<open>
  The client of the bookkeeping service (\<^verbatim>\<open>internal/billing/lexware/client.go\<close>,
  \<^verbatim>\<open>types.go\<close>): the requests it builds, how it reads a status code, and its calls.
  The world \<open>lexware\<close> adds to the mailer what the service holds and answers. A
  reading call sees the service's reply; a creating call may fail before anything was
  created or after it (the reply is lost), and the tape decides which.
\<close>

section \<open>Requests and replies\<close>

record contactRequest =
  cr_name :: string
  cr_tax_free :: bool
  cr_vat_id :: string
  cr_persons :: "(string \<times> bool \<times> string) list"  \<comment> \<open>last name, primary, address\<close>
  cr_street :: string
  cr_zip :: string
  cr_city :: string
  cr_country :: string
  cr_emails :: "string list"

record ContactInput =
  ci_company :: string
  ci_vat_id :: string
  ci_contact :: string
  ci_email :: string
  ci_street :: string
  ci_zip :: string
  ci_city :: string
  ci_country :: string

record InvoiceInput =
  ii_contact :: string
  ii_title :: string
  ii_intro :: string
  ii_desc :: string
  ii_charge :: charge
  ii_due_days :: int
  ii_country :: string
  ii_vat_verified :: bool

record lineItem =
  li_name :: string
  li_desc :: string
  li_quantity :: rat
  li_net :: rat
  li_rate :: rat

record invoiceRequest =
  ir_date :: instant
  ir_contact :: string
  ir_items :: "lineItem list"
  ir_discount :: rat
  ir_tax_type :: string
  ir_tax_note :: string
  ir_term_label :: string
  ir_due_days :: int
  ir_shipping :: instant
  ir_title :: string
  ir_intro :: string

record Payment =
  py_status :: string
  py_voucher :: string

record Voucher =
  vo_id :: string
  vo_number :: string
  vo_status :: string
  vo_total :: rat
  vo_contact :: string

record voucherList =
  vl_content :: "Voucher list"
  vl_last :: bool

text \<open>The body is \<^term>\<open>None\<close> when it does not decode.\<close>

datatype 'b http_reply = NoReply_http | Replied nat "'b option"

datatype 'b call_result = CallFailed | NotApplicable | Body 'b

record lexware = mailer +
  lx_name :: "nat \<Rightarrow> string"  \<comment> \<open>the identifier of the n-th resource it creates\<close>
  lx_contacts :: "(string \<times> contactRequest) list"
  lx_invoices :: "(string \<times> invoiceRequest) list"
  lx_payments :: "string \<Rightarrow> Payment http_reply"
  lx_pages :: "nat \<Rightarrow> voucherList http_reply"
  lx_files :: "string \<Rightarrow> string http_reply"
  lx_small :: "bool http_reply"  \<comment> \<open>\<^verbatim>\<open>smallBusiness\<close> of the profile\<close>
  lx_hooks :: "(string \<times> string) list"  \<comment> \<open>event type and callback\<close>

record client =
  cl_key :: string
  cl_small :: bool

definition client_enabled :: "client \<Rightarrow> bool" where
  "client_enabled c \<longleftrightarrow> cl_key c \<noteq> ''''"

section \<open>Calls\<close>

definition classify :: "'b http_reply \<Rightarrow> 'b call_result" where
  "classify r = (case r of
     NoReply_http \<Rightarrow> CallFailed
   | Replied code body \<Rightarrow>
       if code = 406 then NotApplicable
       else if code < 200 \<or> code > 299 then CallFailed
       else (case body of None \<Rightarrow> CallFailed | Some b \<Rightarrow> Body b))"

text \<open>\<^verbatim>\<open>Client.do\<close> for a GET, with the decoding that follows it. The attempt is the wait for
  the rate limiter and the building of the request.\<close>

definition do_get :: "client \<Rightarrow> ('z lexware_scheme \<Rightarrow> 'b http_reply)
    \<Rightarrow> ('z lexware_scheme, 'b call_result) state" where
  "do_get c reply =
     (if \<not> client_enabled c then State_Monad.return CallFailed
      else do {
        ok \<leftarrow> attempt;
        (if \<not> ok then State_Monad.return CallFailed
         else do { r \<leftarrow> gets reply; State_Monad.return (classify r) }) })"

text \<open>A POST that creates a resource: it can fail without effect, and it can fail after the
  resource exists.\<close>

definition do_create :: "client \<Rightarrow> (string \<Rightarrow> 'z lexware_scheme \<Rightarrow> 'z lexware_scheme)
    \<Rightarrow> ('z lexware_scheme, string option) state" where
  "do_create c put =
     (if \<not> client_enabled c then State_Monad.return None
      else do {
        sent \<leftarrow> attempt;
        (if \<not> sent then State_Monad.return None
         else do {
           name \<leftarrow> gets lx_name;
           rid \<leftarrow> draw name;
           modify (put rid);
           answered \<leftarrow> attempt;
           State_Monad.return (if answered then Some rid else None) }) })"

definition contact_request :: "ContactInput \<Rightarrow> contactRequest" where
  "contact_request i = \<lparr>cr_name = ci_company i, cr_tax_free = True, cr_vat_id = ci_vat_id i,
     cr_persons = (if ci_contact i \<noteq> '''' then [(ci_contact i, True, ci_email i)] else []),
     cr_street = ci_street i, cr_zip = ci_zip i, cr_city = ci_city i, cr_country = ci_country i,
     cr_emails = [ci_email i]\<rparr>"

definition CreateContact :: "client \<Rightarrow> ContactInput \<Rightarrow> ('z lexware_scheme, string option) state" where
  "CreateContact c i = do_create c (\<lambda>rid s. s\<lparr>lx_contacts := lx_contacts s @ [(rid, contact_request i)]\<rparr>)"

text \<open>The fields that are the same on every invoice (currency EUR, type custom, unit, shipping
  type) are left out.\<close>

definition due_in :: "InvoiceInput \<Rightarrow> int" where
  "due_in i = (if ii_due_days i \<le> 0 then 14 else ii_due_days i)"

definition invoice_request :: "instant \<Rightarrow> InvoiceInput \<Rightarrow> TaxTreatment \<Rightarrow> invoiceRequest" where
  "invoice_request t i tax =
     \<lparr>ir_date = t, ir_contact = ii_contact i,
      ir_items = [\<lparr>li_name = ii_title i, li_desc = ii_desc i, li_quantity = 1,
         li_net = ListEUR (ii_charge i), li_rate = tt_rate tax\<rparr>],
      ir_discount = of_int (ch_percent (ii_charge i)),
      ir_tax_type = tt_type tax, ir_tax_note = tt_note tax,
      ir_term_label = ''Zahlbar innerhalb von '' @ show_nat (nat (due_in i)) @ '' Tagen ohne Abzug.'',
      ir_due_days = due_in i, ir_shipping = t, ir_title = ''Rechnung'', ir_intro = ii_intro i\<rparr>"

text \<open>The classification comes first: a sale that cannot be classified sends nothing.\<close>

definition CreateInvoice :: "client \<Rightarrow> InvoiceInput \<Rightarrow> ('z lexware_scheme, string option) state" where
  "CreateInvoice c i =
     (case taxTreatmentFor \<lparr>tc_country = ii_country i, tc_vat_verified = ii_vat_verified i,
        tc_small_business = cl_small c\<rparr> of
        Inl _ \<Rightarrow> State_Monad.return None
      | Inr tax \<Rightarrow> do {
          t \<leftarrow> gets now;
          do_create c (\<lambda>rid s. s\<lparr>lx_invoices := lx_invoices s @ [(rid, invoice_request t i tax)]\<rparr>) })"

definition InvoicePDF :: "client \<Rightarrow> string \<Rightarrow> ('z lexware_scheme, string call_result) state" where
  "InvoicePDF c rid = do_get c (\<lambda>s. lx_files s rid)"

text \<open>The attachment: nothing (\<^verbatim>\<open>pdf = nil\<close>) when the file could not be fetched.\<close>

definition pdf_or_nil :: "string call_result \<Rightarrow> string" where
  "pdf_or_nil r = (case r of Body b \<Rightarrow> b | _ \<Rightarrow> '''')"

definition PaymentStatus :: "client \<Rightarrow> string \<Rightarrow> ('z lexware_scheme, Payment call_result) state" where
  "PaymentStatus c rid = do_get c (\<lambda>s. lx_payments s rid)"

definition pay_settled :: "Payment \<Rightarrow> bool" where
  "pay_settled p \<longleftrightarrow> py_status p = ''balanced''"

definition Voided :: "Voucher \<Rightarrow> bool" where
  "Voided v \<longleftrightarrow> vo_status v = ''voided''"

text \<open>\<^verbatim>\<open>Client.Invoices\<close>: at most twenty pages; \<open>left\<close> counts the pages still allowed.\<close>

fun invoice_pages :: "client \<Rightarrow> nat \<Rightarrow> nat \<Rightarrow> Voucher list
    \<Rightarrow> ('z lexware_scheme, Voucher list option) state" where
  "invoice_pages c 0 page out = State_Monad.return (Some out)"
| "invoice_pages c (Suc left) page out = do {
     r \<leftarrow> do_get c (\<lambda>s. lx_pages s page);
     (case r of
        Body vl \<Rightarrow>
          (let out' = out @ vl_content vl in
           if vl_last vl \<or> length (vl_content vl) = 0 then State_Monad.return (Some out')
           else invoice_pages c left (Suc page) out')
      | _ \<Rightarrow> State_Monad.return None) }"

definition Invoices :: "client \<Rightarrow> ('z lexware_scheme, Voucher list option) state" where
  "Invoices c = invoice_pages c 20 0 []"

definition Profile_small :: "client \<Rightarrow> ('z lexware_scheme, bool call_result) state" where
  "Profile_small c = do_get c lx_small"

datatype tax_status = StatusUnknown | StatusDiffers | StatusAgrees

definition VerifyTaxStatus :: "client \<Rightarrow> ('z lexware_scheme, tax_status) state" where
  "VerifyTaxStatus c = do {
     r \<leftarrow> Profile_small c;
     State_Monad.return (case r of
        Body small \<Rightarrow> if small \<noteq> cl_small c then StatusDiffers else StatusAgrees
      | _ \<Rightarrow> StatusUnknown) }"

definition EventPaymentChanged :: string where "EventPaymentChanged = ''payment.changed''"

text \<open>\<^term>\<open>True\<close> for no error.\<close>

definition EnsureEventSubscription :: "client \<Rightarrow> string \<Rightarrow> ('z lexware_scheme, bool) state" where
  "EnsureEventSubscription c callbackURL =
     (if \<not> client_enabled c \<or> callbackURL = '''' then State_Monad.return True
      else do {
        r \<leftarrow> do_get c (\<lambda>s. Replied 200 (Some (lx_hooks s)));
        (case r of
           Body hooks \<Rightarrow>
             if \<exists>h \<in> set hooks. h = (EventPaymentChanged, callbackURL) then State_Monad.return True
             else do {
               rid \<leftarrow> do_create c (\<lambda>_ s. s\<lparr>lx_hooks := lx_hooks s @ [(EventPaymentChanged, callbackURL)]\<rparr>);
               State_Monad.return (rid \<noteq> None) }
         | _ \<Rightarrow> State_Monad.return False) })"

section \<open>What the calls do\<close>

text \<open>Rules for walking a handler: a reading call changes the tape only, and a creating call
  either changed nothing but the tape or created its resource under a new name.\<close>

lemma wp_do_get:
  assumes "\<And>r t. Q r (s\<lparr>faults := t\<rparr>)"
  shows "wp (do_get c f) Q s"
proof -
  have "Q CallFailed s" using assms [of CallFailed "faults s"] by simp
  then show ?thesis unfolding do_get_def by (intro wp_intros) (simp_all add: assms)
qed

lemma wp_do_create:
  assumes "\<And>t. Q None (s\<lparr>faults := t\<rparr>)"
    and "\<And>t t' r. r = None \<or> r = Some (lx_name s (fresh s)) \<Longrightarrow> client_enabled c \<Longrightarrow>
      Q r ((put (lx_name s (fresh s)) (s\<lparr>faults := t, fresh := Suc (fresh s)\<rparr>))\<lparr>faults := t'\<rparr>)"
  shows "wp (do_create c put) Q s"
proof -
  have "Q None s" using assms(1) [of "faults s"] by simp
  then show ?thesis unfolding do_create_def by (intro wp_intros) (simp_all add: assms)
qed

lemma wp_InvoicePDF [wp_intros]: "(\<And>r t. Q r (s\<lparr>faults := t\<rparr>)) \<Longrightarrow> wp (InvoicePDF c rid) Q s"
  unfolding InvoicePDF_def by (rule wp_do_get)

lemma wp_PaymentStatus:
  assumes "\<And>t. Q CallFailed (s\<lparr>faults := t\<rparr>)" "\<And>t. Q (classify (lx_payments s rid)) (s\<lparr>faults := t\<rparr>)"
  shows "wp (PaymentStatus c rid) Q s"
proof -
  have "Q CallFailed s" using assms(1) [of "faults s"] by simp
  then show ?thesis unfolding PaymentStatus_def do_get_def
    by (intro wp_intros) (simp_all add: assms)
qed

text \<open>\<open>outside s u\<close>: between \<open>s\<close> and \<open>u\<close> only the tape, the counter, the outbox and the service's
  own data changed.\<close>

definition outside :: "'z lexware_scheme \<Rightarrow> 'z lexware_scheme \<Rightarrow> bool" where
  "outside s u \<longleftrightarrow> now u = now s \<and> lexware.more u = lexware.more s"

lemma outsideI [intro]: "now u = now s \<Longrightarrow> lexware.more u = lexware.more s \<Longrightarrow> outside s u"
  by (simp add: outside_def)

lemma wp_CreateContact:
  assumes "\<And>r u. outside s u \<Longrightarrow> lx_invoices u = lx_invoices s \<Longrightarrow> Q r u"
  shows "wp (CreateContact c i) Q s"
  unfolding CreateContact_def by (rule wp_do_create; rule assms; auto)

lemma wp_CreateInvoice:
  assumes "\<And>u. outside s u \<Longrightarrow> lx_invoices u = lx_invoices s \<Longrightarrow> Q None u"
    and "\<And>u r tax. outside s u \<Longrightarrow> r = None \<or> r = Some (lx_name s (fresh s)) \<Longrightarrow>
      taxTreatmentFor \<lparr>tc_country = ii_country i, tc_vat_verified = ii_vat_verified i,
        tc_small_business = cl_small c\<rparr> = Inr tax \<Longrightarrow>
      lx_invoices u = lx_invoices s @ [(lx_name s (fresh s), invoice_request (now s) i tax)] \<Longrightarrow> Q r u"
  shows "wp (CreateInvoice c i) Q s"
proof -
  have "Q None s" by (rule assms(1)) auto
  moreover have "wp (do_create c put) Q s"
    if "taxTreatmentFor \<lparr>tc_country = ii_country i, tc_vat_verified = ii_vat_verified i,
        tc_small_business = cl_small c\<rparr> = Inr tax"
      "put = (\<lambda>rid s'. s'\<lparr>lx_invoices := lx_invoices s' @ [(rid, invoice_request (now s) i tax)]\<rparr>)" for tax put
    by (rule wp_do_create, rule assms(1)) (auto intro!: assms(2) [OF _ _ that(1)] simp: that(2))
  ultimately show ?thesis unfolding CreateInvoice_def
    by (intro wp_sumI wp_return [THEN iffD2] wp_bind [THEN iffD2] wp_gets [THEN iffD2]) simp_all
qed

lemma run_do_create:
  assumes "faults s = []" "client_enabled c" "faults (put (lx_name s (fresh s)) (s\<lparr>fresh := Suc (fresh s)\<rparr>)) = []"
  shows "run_state (do_create c put) s =
    (Some (lx_name s (fresh s)), put (lx_name s (fresh s)) (s\<lparr>fresh := Suc (fresh s)\<rparr>))"
  using assms by (simp add: do_create_def run_simps)

lemma run_do_get: "faults s = [] \<Longrightarrow> client_enabled c \<Longrightarrow> run_state (do_get c f) s = (classify (f s), s)"
  by (simp add: do_get_def run_simps)

section \<open>The paper and the books\<close>

text \<open>What the service puts at the bottom of the invoice, before tax: the items less the
  discount on the total.\<close>

definition paper_net :: "invoiceRequest \<Rightarrow> rat" where
  "paper_net r = sum_list (map (\<lambda>i. li_quantity i * li_net i) (ir_items r)) * (1 - ir_discount r / 100)"

lemma paper_net_request:
  assumes "PlanFor product interval = Some p" "quantity \<le> 2 ^ 31" "Charge p quantity d = Inr ch" "ii_charge i = ch"
  shows "100 * paper_net (invoice_request t i tax) = of_int (ch_net_cents ch)"
proof -
  have d: "0 \<le> d \<and> d \<le> 90" using Charge_Inr [OF assms(1-3)] by simp
  with Charge_result [OF assms(1,2), of d] assms(3)
  have c: "100 * ch_discount_cents ch = ch_list_cents ch * d" "ch_percent ch = d"
    "ch_net_cents ch = ch_list_cents ch - ch_discount_cents ch" by auto
  have "(of_int (100 * ch_discount_cents ch) :: rat) = of_int (ch_list_cents ch * d)" using c(1) by simp
  then show ?thesis
    using c(2,3) by (simp add: paper_net_def invoice_request_def assms(4) ListEUR_def algebra_simps)
qed

text \<open>C22: the amount the customer reads is the amount in our books. An invoice created for a priced
  charge asks for exactly the net amount that is stored with it, with the tax type and the
  rate of the amounts computed before; a sale without tax treatment creates nothing.\<close>

theorem invoice_on_paper:
  assumes "PlanFor product interval = Some p" "quantity \<le> 2 ^ 31" "Charge p quantity d = Inr ch"
    and "ii_charge i = ch"
    and "run_state (CreateInvoice c i) s = (r, s')"
  shows "(case InvoiceAmountsFor (cl_small c) (ch_net_cents ch) (ii_country i) (ii_vat_verified i) of
      Inl _ \<Rightarrow> r = None \<and> lx_invoices s' = lx_invoices s
    | Inr a \<Rightarrow> (lx_invoices s' = lx_invoices s \<and> r = None \<or>
        (\<exists>q. lx_invoices s' = lx_invoices s @ [(lx_name s (fresh s), q)] \<and>
           (r = None \<or> r = Some (lx_name s (fresh s))) \<and>
           100 * paper_net q = of_int (ia_net a) \<and> ir_tax_type q = ia_type a \<and>
           map li_rate (ir_items q) = [ia_rate a] \<and> ir_contact q = ii_contact i)))"
proof -
  have "100 * paper_net (invoice_request t i tax) = of_int (ch_net_cents ch)" for t tax
    using paper_net_request [OF assms(1-4)] .
  moreover have "ir_tax_type (invoice_request t i tax) = tt_type tax" "ir_contact (invoice_request t i tax) = ii_contact i"
    "map li_rate (ir_items (invoice_request t i tax)) = [tt_rate tax]" for t tax
    by (simp_all add: invoice_request_def)
  ultimately have q: "100 * paper_net (invoice_request t i tax) = of_int (ch_net_cents ch) \<and>
      ir_tax_type (invoice_request t i tax) = tt_type tax \<and> ir_contact (invoice_request t i tax) = ii_contact i \<and>
      map li_rate (ir_items (invoice_request t i tax)) = [tt_rate tax]" for t tax by blast
  let ?x = "\<lparr>tc_country = ii_country i, tc_vat_verified = ii_vat_verified i, tc_small_business = cl_small c\<rparr>"
  have "wp (CreateInvoice c i) (\<lambda>r t. case taxTreatmentFor ?x of
      Inl _ \<Rightarrow> r = None \<and> lx_invoices t = lx_invoices s
    | Inr tax \<Rightarrow> lx_invoices t = lx_invoices s \<and> r = None \<or>
        (lx_invoices t = lx_invoices s @ [(lx_name s (fresh s), invoice_request (now s) i tax)] \<and>
         (r = None \<or> r = Some (lx_name s (fresh s))))) s"
    by (rule wp_CreateInvoice) (auto split: sum.splits)
  from wp_run [OF this assms(5)] q show ?thesis
    by (cases "taxTreatmentFor ?x") (auto simp: InvoiceAmountsFor_def amountsFor_def Let_def)
qed

definition toy_lexware :: lexware where
  "toy_lexware = \<lparr>faults = [], now = 0, fresh = 3, outbox = [], lx_name = (\<lambda>n. ''RE'' @ show_nat n),
     lx_contacts = [], lx_invoices = [], lx_payments = (\<lambda>_. NoReply_http), lx_pages = (\<lambda>_. NoReply_http),
     lx_files = (\<lambda>_. NoReply_http), lx_small = NoReply_http, lx_hooks = []\<rparr>"

definition toy_client :: client where
  "toy_client = \<lparr>cl_key = ''k'', cl_small = False\<rparr>"

theorem invoice_on_paper_witness:
  "\<exists>q s'. run_state (CreateInvoice toy_client \<lparr>ii_contact = ''C'', ii_title = '''', ii_intro = '''', ii_desc = '''',
       ii_charge = \<lparr>ch_quantity = 3, ch_percent = 25, ch_list_cents = 897000, ch_discount_cents = 224250,
         ch_net_cents = 672750\<rparr>, ii_due_days = 14, ii_country = ''DE'', ii_vat_verified = False\<rparr>) toy_lexware
       = (Some ''RE3'', s') \<and> lx_invoices s' = [(''RE3'', q)] \<and> paper_net q = 13455 / 2 \<and> ir_tax_type q = ''net''"
proof -
  define ch where "ch = \<lparr>ch_quantity = 3, ch_percent = 25, ch_list_cents = 897000,
    ch_discount_cents = 224250, ch_net_cents = 672750\<rparr>"
  define i where "i = \<lparr>ii_contact = ''C'', ii_title = '''', ii_intro = '''', ii_desc = '''',
       ii_charge = ch, ii_due_days = 14, ii_country = ''DE'', ii_vat_verified = False\<rparr>"
  have c: "Charge pro_year 3 25 = Inr ch" unfolding ch_def by code_simp
  have a: "InvoiceAmountsFor (cl_small toy_client) (ch_net_cents ch) (ii_country i) (ii_vat_verified i) =
    Inr \<lparr>ia_net = 672750, ia_tax = 127823, ia_gross = 800573, ia_type = ''net'', ia_rate = 19\<rparr>"
    unfolding i_def ch_def toy_client_def by code_simp
  obtain tax where t: "taxTreatmentFor \<lparr>tc_country = ii_country i, tc_vat_verified = ii_vat_verified i,
        tc_small_business = cl_small toy_client\<rparr> = Inr tax"
    using a by (auto simp: InvoiceAmountsFor_def split: sum.splits)
  have n: "show_nat 3 = ''3''" by code_simp
  obtain s' where r: "run_state (CreateInvoice toy_client i) toy_lexware = (Some ''RE3'', s')"
    unfolding CreateInvoice_def t by (simp add: run_simps run_do_create toy_lexware_def toy_client_def client_enabled_def n)
  from invoice_on_paper [OF plans_simps(2) _ c _ r] a r show ?thesis
    by (auto simp: toy_lexware_def i_def ch_def n)
qed

section \<open>Listing and hooks\<close>

lemma invoice_pages_run:
  assumes "faults s = []" "client_enabled c"
    and "\<And>k. k < n \<Longrightarrow> \<exists>vl. lx_pages s (page + k) = Replied 200 (Some vl) \<and> \<not> vl_last vl \<and> vl_content vl \<noteq> []
      \<and> vl_content vl = body (page + k)"
    and "lx_pages s (page + n) = Replied 200 (Some vl)" "vl_last vl" "vl_content vl = body (page + n)" "n < left"
  shows "run_state (invoice_pages c left page out) s = (Some (out @ concat (map body [page ..< Suc (page + n)])), s)"
  using assms(3-)
proof (induction n arbitrary: left page out)
  case 0
  then obtain l where "left = Suc l" by (cases left) auto
  with 0 assms(1,2) show ?case by (simp add: run_simps run_do_get classify_def Let_def)
next
  case (Suc n)
  then obtain l where l: "left = Suc l" "n < l" by (cases left) auto
  from Suc.prems(1) [of 0] obtain w where w: "lx_pages s page = Replied 200 (Some w)" "\<not> vl_last w"
    "vl_content w \<noteq> []" "vl_content w = body page" by auto
  have "\<exists>vl. lx_pages s (Suc page + k) = Replied 200 (Some vl) \<and> \<not> vl_last vl \<and> vl_content vl \<noteq> []
      \<and> vl_content vl = body (Suc page + k)" if "k < n" for k
    using Suc.prems(1) [of "Suc k"] that by simp
  with Suc.IH [of "Suc page" l "out @ body page"] Suc.prems l
  have "run_state (invoice_pages c l (Suc page) (out @ body page)) s =
      (Some ((out @ body page) @ concat (map body [Suc page ..< Suc (Suc page + n)])), s)" by simp
  moreover have "[page ..< Suc (page + Suc n)] = page # [Suc page ..< Suc (Suc page + n)]"
    by (simp add: upt_rec)
  ultimately show ?case using w l(1) assms(1,2)
    by (simp add: run_simps run_do_get classify_def Let_def)
qed

lemma Invoices_one_page:
  assumes "faults s = []" "client_enabled c" "lx_pages s 0 = Replied 200 (Some vl)" "vl_last vl"
  shows "run_state (Invoices c) s = (Some (vl_content vl), s)"
  using invoice_pages_run [OF assms(1,2), where n = 0 and page = 0 and left = 20 and vl = vl
      and body = "\<lambda>_. vl_content vl" and out = "[]"] assms(3,4)
  by (simp add: Invoices_def)

text \<open>Registering the hook on every start registers it once: the second registration after a
  successful one does nothing.\<close>

lemma EnsureEventSubscription_once:
  assumes "faults s = []" "client_enabled c"
  shows "\<exists>n. run_state (EnsureEventSubscription c url) s = (True, s\<lparr>fresh := n, lx_hooks :=
      lx_hooks s @ (if url = '''' \<or> (EventPaymentChanged, url) \<in> set (lx_hooks s) then [] else [(EventPaymentChanged, url)])\<rparr>)"
  using assms
  by (auto simp: EnsureEventSubscription_def run_simps run_do_get run_do_create classify_def
      intro: exI [of _ "fresh s"])

end
