(* ===== verification/Billing_Store.thy ===== *)
theory Billing_Store
  imports Billing_Lexware
begin

text \<open>
  The billing database (\<^verbatim>\<open>db/migrations/233\<close> to \<^verbatim>\<open>245\<close>) and the statements the
  handlers run on it. A table is a list of rows in insertion order; a subscription is a
  row of \<^verbatim>\<open>billing_quote_requests\<close>. Constraints of the schema are enforced by the
  statements as the database does: a violating statement fails. A DATE is its day
  number, a timestamp an instant. Any statement may also fail for its connection.
\<close>

section \<open>Rows\<close>

datatype sub_status = Requested | Approved | SubPaid | Rejected

record subscription =
  s_id :: string
  s_status :: sub_status
  s_company :: string
  s_contact_name :: string
  s_email :: string
  s_vat_id :: string
  s_street :: string
  s_zip :: string
  s_city :: string
  s_country :: string
  s_note :: string
  s_notes :: string
  s_product :: string
  s_interval :: string
  s_quantity :: int
  s_discount :: int
  s_free :: bool
  s_approval_hash :: string
  s_portal_hash :: "string option"
  s_contact :: "string option"   \<comment> \<open>\<^verbatim>\<open>lexware_contact_id\<close>\<close>
  s_invoice :: "string option"   \<comment> \<open>\<^verbatim>\<open>lexware_invoice_id\<close> of the first invoice\<close>
  s_key :: "string option"
  s_next :: "instant option"     \<comment> \<open>\<^verbatim>\<open>next_invoice_at\<close>\<close>
  s_cancelled :: "instant option"
  s_created :: instant
  s_approved :: "instant option"
  s_paid :: "instant option"

datatype inv_status = InvOpen | InvPaid | InvVoided

record invoice =
  i_sub :: string
  i_ref :: string       \<comment> \<open>\<^verbatim>\<open>lexware_invoice_id\<close>, UNIQUE\<close>
  i_start :: int
  i_end :: int
  i_net :: int
  i_list :: int
  i_discount :: int
  i_status :: inv_status
  i_created :: instant
  i_paid :: "instant option"
  i_reminded :: "instant option"
  i_gross :: int
  i_tax :: int
  i_rate :: rat
  i_type :: string

datatype kind = Trial | Full | Seat

record licence =
  l_sub :: string
  l_orgname :: string
  l_key :: string
  l_until :: instant    \<comment> \<open>\<^verbatim>\<open>expires_at\<close>\<close>
  l_kind :: kind
  l_note :: string
  l_rtoken :: string    \<comment> \<open>\<^verbatim>\<open>renewal_token\<close>, UNIQUE\<close>
  l_seen :: "instant option"
  l_revoked :: "instant option"
  l_created :: instant

record vat_check =
  vc_sub :: string
  vc_result :: VIESResult

record world = lexware +
  subs :: "subscription list"
  invs :: "invoice list"
  lics :: "licence list"
  vats :: "vat_check list"
  vies :: "string \<Rightarrow> string \<Rightarrow> vies_reply"  \<comment> \<open>the commission's service\<close>

text \<open>What is configured: the issuer, the client, the functions that resolve randomness, the
  hash, and the addresses.\<close>

record deployment =
  d_crypto :: crypto
  d_issuer :: issuer
  d_client :: client
  d_uuid :: "nat \<Rightarrow> string"
  d_random :: "nat \<Rightarrow> string"    \<comment> \<open>32 random bytes, in hex\<close>
  d_hash :: "string \<Rightarrow> string"   \<comment> \<open>SHA-256, in hex\<close>
  d_has_vies :: bool
  d_address :: "string \<Rightarrow> bool"  \<comment> \<open>\<^verbatim>\<open>mail.ParseAddress\<close> accepts it\<close>
  d_portal :: "string option"    \<comment> \<open>base of the portal link when it is wired\<close>
  d_base_url :: string
  d_notify_to :: string

section \<open>Statements\<close>

text \<open>\<open>db f\<close> is a query for all of its rows, \<open>row f\<close> \<^verbatim>\<open>QueryRow\<close>: no row and no connection
  are both an error to the caller. \<open>insert\<close> fails on a violated constraint.\<close>

definition db :: "('e effects_scheme \<Rightarrow> 'a) \<Rightarrow> ('e effects_scheme, 'a option) state" where
  "db f = do { ok \<leftarrow> attempt;
     if ok then do { x \<leftarrow> gets f; State_Monad.return (Some x) } else State_Monad.return None }"

definition row :: "('e effects_scheme \<Rightarrow> 'a option) \<Rightarrow> ('e effects_scheme, 'a option) state" where
  "row f = do { r \<leftarrow> db f; State_Monad.return (case r of Some x \<Rightarrow> x | None \<Rightarrow> None) }"

definition insert_row :: "('e effects_scheme \<Rightarrow> bool) \<Rightarrow> ('e effects_scheme \<Rightarrow> 'e effects_scheme)
    \<Rightarrow> ('e effects_scheme, bool) state" where
  "insert_row ok f = do { sent \<leftarrow> attempt;
     if \<not> sent then State_Monad.return False
     else do { valid \<leftarrow> gets ok;
       if valid then do { modify f; State_Monad.return True } else State_Monad.return False } }"

text \<open>\<open>transaction m\<close> runs \<open>m\<close> between BEGIN and COMMIT; when it reports failure, or the commit
  fails, the world is the one before, but for the tape and the counter.\<close>

definition transaction :: "('e effects_scheme, bool) state \<Rightarrow> ('e effects_scheme, bool) state" where
  "transaction m = do { begun \<leftarrow> attempt;
     if \<not> begun then State_Monad.return False
     else State (\<lambda>s. case run_state (do { ok \<leftarrow> m; if ok then attempt else State_Monad.return False }) s of
         (True, t) \<Rightarrow> (True, t)
       | (False, t) \<Rightarrow> (False, s\<lparr>faults := faults t, fresh := fresh t\<rparr>)) }"

definition find_sub :: "string \<Rightarrow> 'z world_scheme \<Rightarrow> subscription option" where
  "find_sub sid w = find (\<lambda>s. s_id s = sid) (subs w)"

definition find_licence :: "string \<Rightarrow> 'z world_scheme \<Rightarrow> licence option" where
  "find_licence tok w = find (\<lambda>l. l_rtoken l = tok) (lics w)"

definition find_invoice :: "string \<Rightarrow> 'z world_scheme \<Rightarrow> invoice option" where
  "find_invoice ref w = find (\<lambda>i. i_ref i = ref) (invs w)"

definition update_sub :: "string \<Rightarrow> (subscription \<Rightarrow> subscription) \<Rightarrow> 'z world_scheme \<Rightarrow> 'z world_scheme" where
  "update_sub sid f w = w\<lparr>subs := update_where (\<lambda>s. s_id s = sid) f (subs w)\<rparr>"

definition update_licence :: "string \<Rightarrow> (licence \<Rightarrow> licence) \<Rightarrow> 'z world_scheme \<Rightarrow> 'z world_scheme" where
  "update_licence tok f w = w\<lparr>lics := update_where (\<lambda>l. l_rtoken l = tok) f (lics w)\<rparr>"

definition update_invoice :: "string \<Rightarrow> (invoice \<Rightarrow> invoice) \<Rightarrow> 'z world_scheme \<Rightarrow> 'z world_scheme" where
  "update_invoice ref f w = w\<lparr>invs := update_where (\<lambda>i. i_ref i = ref) f (invs w)\<rparr>"

text \<open>The constraints a new row has to meet.\<close>

definition sub_ok :: "subscription \<Rightarrow> 'z world_scheme \<Rightarrow> bool" where
  "sub_ok s w \<longleftrightarrow> s_id s \<notin> set (map s_id (subs w)) \<and> 1 \<le> s_quantity s \<and> s_quantity s < 2 ^ 31
     \<and> 0 \<le> s_discount s \<and> s_discount s \<le> 90"

definition invoice_ok :: "invoice \<Rightarrow> 'z world_scheme \<Rightarrow> bool" where
  "invoice_ok i w \<longleftrightarrow> i_ref i \<notin> set (map i_ref (invs w)) \<and> i_sub i \<in> set (map s_id (subs w))
     \<and> i_gross i = i_net i + i_tax i"

definition licence_ok :: "licence \<Rightarrow> 'z world_scheme \<Rightarrow> bool" where
  "licence_ok l w \<longleftrightarrow> l_rtoken l \<notin> set (map l_rtoken (lics w)) \<and> l_sub l \<in> set (map s_id (subs w))"

definition insert_sub :: "subscription \<Rightarrow> ('z world_scheme, bool) state" where
  "insert_sub s = insert_row (sub_ok s) (\<lambda>w. w\<lparr>subs := subs w @ [s]\<rparr>)"

definition insert_invoice :: "invoice \<Rightarrow> ('z world_scheme, bool) state" where
  "insert_invoice i = insert_row (invoice_ok i) (\<lambda>w. w\<lparr>invs := invs w @ [i]\<rparr>)"

text \<open>\<^verbatim>\<open>INSERT INTO billing_licenses ... RETURNING renewal_token\<close>; the token is the column's
  default, a new UUID.\<close>

definition insert_licence :: "deployment \<Rightarrow> string \<Rightarrow> string \<Rightarrow> instant \<Rightarrow> kind \<Rightarrow> string
    \<Rightarrow> ('z world_scheme, string option) state" where
  "insert_licence E sid org expires k note = do {
     t \<leftarrow> gets now;
     token \<leftarrow> draw (d_uuid E);
     let l = \<lparr>l_sub = sid, l_orgname = org, l_key = '''', l_until = expires, l_kind = k, l_note = note,
       l_rtoken = token, l_seen = None, l_revoked = None, l_created = t\<rparr>;
     ok \<leftarrow> insert_row (licence_ok l) (\<lambda>w. w\<lparr>lics := lics w @ [l]\<rparr>);
     State_Monad.return (if ok then Some token else None) }"

definition invoices_of :: "string \<Rightarrow> 'z world_scheme \<Rightarrow> invoice list" where
  "invoices_of sid w = filter (\<lambda>i. i_sub i = sid) (invs w)"

text \<open>\<^verbatim>\<open>SELECT MAX(period_end) ... AND status = 'paid'\<close>, and over all invoices.\<close>

definition paid_end :: "string \<Rightarrow> 'z world_scheme \<Rightarrow> int option" where
  "paid_end sid w = max_of (map i_end (filter (\<lambda>i. i_status i = InvPaid) (invoices_of sid w)))"

definition last_end :: "string \<Rightarrow> 'z world_scheme \<Rightarrow> int option" where
  "last_end sid w = max_of (map i_end (invoices_of sid w))"

definition has_open :: "string \<Rightarrow> 'z world_scheme \<Rightarrow> bool" where
  "has_open sid w \<longleftrightarrow> list_ex (\<lambda>i. i_status i = InvOpen) (invoices_of sid w)"

section \<open>Walking a handler\<close>

text \<open>Updates of the tape and the counter move inwards, so that two ways of writing a world
  become equal.\<close>

lemma fresh_inner [simp]: "s\<lparr>fresh := n, faults := t\<rparr> = s\<lparr>faults := t, fresh := n\<rparr>"
  for s :: "'e effects_scheme"
  by simp

lemma outbox_inner [simp]:
  fixes s :: "'z mailer_scheme"
  shows "s\<lparr>outbox := b, faults := t\<rparr> = s\<lparr>faults := t, outbox := b\<rparr>"
    "s\<lparr>outbox := b, fresh := n\<rparr> = s\<lparr>fresh := n, outbox := b\<rparr>"
  by simp_all

lemma tables_inner [simp]:
  fixes s :: "'z world_scheme"
  shows "s\<lparr>subs := a, faults := t\<rparr> = s\<lparr>faults := t, subs := a\<rparr>"
    "s\<lparr>invs := b, faults := t\<rparr> = s\<lparr>faults := t, invs := b\<rparr>"
    "s\<lparr>lics := c, faults := t\<rparr> = s\<lparr>faults := t, lics := c\<rparr>"
    "s\<lparr>vats := d, faults := t\<rparr> = s\<lparr>faults := t, vats := d\<rparr>"
    "s\<lparr>subs := a, fresh := n\<rparr> = s\<lparr>fresh := n, subs := a\<rparr>"
    "s\<lparr>invs := b, fresh := n\<rparr> = s\<lparr>fresh := n, invs := b\<rparr>"
    "s\<lparr>lics := c, fresh := n\<rparr> = s\<lparr>fresh := n, lics := c\<rparr>"
    "s\<lparr>vats := d, fresh := n\<rparr> = s\<lparr>fresh := n, vats := d\<rparr>"
    "s\<lparr>subs := a, outbox := m\<rparr> = s\<lparr>outbox := m, subs := a\<rparr>"
    "s\<lparr>invs := b, outbox := m\<rparr> = s\<lparr>outbox := m, invs := b\<rparr>"
    "s\<lparr>lics := c, outbox := m\<rparr> = s\<lparr>outbox := m, lics := c\<rparr>"
    "s\<lparr>vats := d, outbox := m\<rparr> = s\<lparr>outbox := m, vats := d\<rparr>"
    "s\<lparr>invs := b, subs := a\<rparr> = s\<lparr>subs := a, invs := b\<rparr>"
    "s\<lparr>lics := c, subs := a\<rparr> = s\<lparr>subs := a, lics := c\<rparr>"
    "s\<lparr>lics := c, invs := b\<rparr> = s\<lparr>invs := b, lics := c\<rparr>"
  by simp_all

lemma wp_db [wp_intros]:
  "(\<And>t. Q None (s\<lparr>faults := t\<rparr>)) \<Longrightarrow> (\<And>t. Q (Some (f (s\<lparr>faults := t\<rparr>))) (s\<lparr>faults := t\<rparr>)) \<Longrightarrow> wp (db f) Q s"
  unfolding db_def by (intro wp_intros) simp_all

lemma wp_row [wp_intros]:
  "(\<And>t. Q None (s\<lparr>faults := t\<rparr>)) \<Longrightarrow>
   (\<And>t x. f (s\<lparr>faults := t\<rparr>) = Some x \<Longrightarrow> Q (Some x) (s\<lparr>faults := t\<rparr>)) \<Longrightarrow> wp (row f) Q s"
proof -
  assume q: "\<And>t. Q None (s\<lparr>faults := t\<rparr>)"
    "\<And>t x. f (s\<lparr>faults := t\<rparr>) = Some x \<Longrightarrow> Q (Some x) (s\<lparr>faults := t\<rparr>)"
  have "Q (f (s\<lparr>faults := t\<rparr>)) (s\<lparr>faults := t\<rparr>)" for t
    using q by (cases "f (s\<lparr>faults := t\<rparr>)") simp_all
  with q(1) show ?thesis unfolding row_def by (intro wp_intros) simp_all
qed

lemma wp_insert_row:
  "(\<And>t. Q False (s\<lparr>faults := t\<rparr>)) \<Longrightarrow>
   (\<And>t. ok (s\<lparr>faults := t\<rparr>) \<Longrightarrow> Q True (f (s\<lparr>faults := t\<rparr>))) \<Longrightarrow> wp (insert_row ok f) Q s"
  unfolding insert_row_def by (intro wp_intros) simp_all

lemma wp_insert_sub [wp_intros]:
  "(\<And>t. Q False (s\<lparr>faults := t\<rparr>)) \<Longrightarrow>
   (\<And>t. sub_ok x s \<Longrightarrow> Q True (s\<lparr>faults := t, subs := subs s @ [x]\<rparr>)) \<Longrightarrow> wp (insert_sub x) Q s"
  unfolding insert_sub_def by (rule wp_insert_row) (simp_all add: sub_ok_def)

lemma wp_insert_invoice [wp_intros]:
  "(\<And>t. Q False (s\<lparr>faults := t\<rparr>)) \<Longrightarrow>
   (\<And>t. invoice_ok x s \<Longrightarrow> Q True (s\<lparr>faults := t, invs := invs s @ [x]\<rparr>)) \<Longrightarrow> wp (insert_invoice x) Q s"
  unfolding insert_invoice_def by (rule wp_insert_row) (simp_all add: invoice_ok_def)

definition new_licence :: "string \<Rightarrow> string \<Rightarrow> instant \<Rightarrow> kind \<Rightarrow> string \<Rightarrow> string \<Rightarrow> instant \<Rightarrow> licence" where
  "new_licence sid org expires k note token t = \<lparr>l_sub = sid, l_orgname = org, l_key = '''', l_until = expires,
     l_kind = k, l_note = note, l_rtoken = token, l_seen = None, l_revoked = None, l_created = t\<rparr>"

lemma new_licence_simps [simp]:
  "l_sub (new_licence sid org e k n tok t) = sid" "l_orgname (new_licence sid org e k n tok t) = org"
  "l_key (new_licence sid org e k n tok t) = ''''" "l_until (new_licence sid org e k n tok t) = e"
  "l_kind (new_licence sid org e k n tok t) = k" "l_rtoken (new_licence sid org e k n tok t) = tok"
  "l_revoked (new_licence sid org e k n tok t) = None" "l_created (new_licence sid org e k n tok t) = t"
  by (simp_all add: new_licence_def)

lemma wp_insert_licence [wp_intros]:
  assumes "\<And>t. Q None (s\<lparr>faults := t, fresh := Suc (fresh s)\<rparr>)"
    and "\<And>t tok l. tok = d_uuid E (fresh s) \<Longrightarrow> l = new_licence sid org e k n tok (now s) \<Longrightarrow> licence_ok l s \<Longrightarrow>
      Q (Some tok) (s\<lparr>faults := t, fresh := Suc (fresh s), lics := lics s @ [l]\<rparr>)"
  shows "wp (insert_licence E sid org e k n) Q s"
proof -
  show ?thesis unfolding insert_licence_def Let_def
    by (intro wp_equation_rules wp_drawI wp_insert_row)
      (simp_all add: assms new_licence_def licence_ok_def)
qed

lemma wp_transaction:
  assumes "\<And>t n. Q False (s\<lparr>faults := t, fresh := n\<rparr>)"
    and "\<And>t. wp m (\<lambda>ok u. ok \<longrightarrow> (\<forall>t'. Q True (u\<lparr>faults := t'\<rparr>))) (s\<lparr>faults := t\<rparr>)"
  shows "wp (transaction m) Q s"
proof -
  have "wp (State (\<lambda>s. case run_state (do { ok \<leftarrow> m; if ok then attempt else State_Monad.return False }) s of
         (True, t) \<Rightarrow> (True, t) | (False, t) \<Rightarrow> (False, s\<lparr>faults := faults t, fresh := fresh t\<rparr>))) Q (s\<lparr>faults := tape\<rparr>)"
    for tape
  proof -
    obtain ok u where m: "run_state m (s\<lparr>faults := tape\<rparr>) = (ok, u)" by fastforce
    from wp_run [OF assms(2) m] have q: "ok \<Longrightarrow> Q True (u\<lparr>faults := t'\<rparr>)" for t' by simp
    show ?thesis
    proof (cases ok)
      case True
      obtain b t' where a: "run_state attempt u = (b, u\<lparr>faults := t'\<rparr>)"
        by (cases "faults u") (auto simp: run_simps intro: that [of True "faults u"])
      then show ?thesis using True q m assms(1) by (cases b) (simp_all add: wp_def run_simps)
    qed (use m assms(1) in \<open>simp add: wp_def run_simps\<close>)
  qed
  moreover have "Q False (s\<lparr>faults := tape\<rparr>)" for tape using assms(1) [where t = tape and n = "fresh s"] by simp
  ultimately show ?thesis unfolding transaction_def by (intro wp_intros)
qed

lemma run_db_Nil [run_simps]: "faults s = [] \<Longrightarrow> run_state (db f) s = (Some (f s), s)"
  by (simp add: db_def run_simps)

lemma run_row_Nil [run_simps]: "faults s = [] \<Longrightarrow> run_state (row f) s = (f s, s)"
  by (simp add: row_def run_simps)

lemma run_insert_row_Nil [run_simps]:
  "faults s = [] \<Longrightarrow> run_state (insert_row ok f) s = (if ok s then (True, f s) else (False, s))"
  by (simp add: insert_row_def run_simps)

lemma run_insert_sub_Nil [run_simps]: "faults s = [] \<Longrightarrow> run_state (insert_sub x) s =
   (if sub_ok x s then (True, s\<lparr>subs := subs s @ [x]\<rparr>) else (False, s))"
  by (simp add: insert_sub_def run_simps)

lemma run_insert_invoice_Nil [run_simps]: "faults s = [] \<Longrightarrow> run_state (insert_invoice x) s =
   (if invoice_ok x s then (True, s\<lparr>invs := invs s @ [x]\<rparr>) else (False, s))"
  by (simp add: insert_invoice_def run_simps)

lemma run_insert_licence_Nil [run_simps]: "faults s = [] \<Longrightarrow> run_state (insert_licence E sid org e k n) s =
   (let tok = d_uuid E (fresh s); l = new_licence sid org e k n tok (now s) in
    if licence_ok l s then (Some tok, s\<lparr>fresh := Suc (fresh s), lics := lics s @ [l]\<rparr>)
    else (None, s\<lparr>fresh := Suc (fresh s)\<rparr>))"
  by (simp add: insert_licence_def run_simps Let_def new_licence_def licence_ok_def)

lemma run_transaction_Nil:
  assumes "faults s = []" "run_state m s = (ok, u)" "faults u = []"
  shows "run_state (transaction m) s = (ok, if ok then u else s\<lparr>faults := [], fresh := fresh u\<rparr>)"
  using assms by (cases ok) (simp_all add: transaction_def run_simps)

section \<open>The ledger is consistent\<close>

text \<open>
  What the three tables have to agree on. \<open>covered\<close>: somebody paid for a period of this
  subscription that reaches, with the plan's grace, to the day the licence runs out. A
  key in the ledger is one an instance reads, carries the row's token and expiry, and is
  covered, or it is the 45-day key of the trial.
\<close>

definition covered :: "subscription list \<Rightarrow> invoice list \<Rightarrow> licence \<Rightarrow> bool" where
  "covered S I l \<longleftrightarrow> (\<exists>s \<in> set S. \<exists>i \<in> set I. \<exists>p. s_id s = l_sub l \<and> i_sub i = l_sub l \<and> i_paid i \<noteq> None \<and>
     PlanFor (s_product s) (s_interval s) = Some p \<and> l_until l < midnight (i_end i + pl_grace_days p + 1))"

definition key_good :: "crypto \<Rightarrow> licence \<Rightarrow> bool" where
  "key_good C l \<longleftrightarrow> (\<exists>org. key_for C (l_key l) (l_rtoken l) org (l_until l) \<and>
     (trim_space (l_orgname l) \<noteq> '''' \<longrightarrow> org = trim_space (l_orgname l)))"

definition trial_span :: "licence \<Rightarrow> bool" where
  "trial_span l \<longleftrightarrow> l_kind l = Trial \<and> l_until l \<le> l_created l + 45 * secs_per_day"

definition licence_good :: "crypto \<Rightarrow> subscription list \<Rightarrow> invoice list \<Rightarrow> licence \<Rightarrow> bool" where
  "licence_good C S I l \<longleftrightarrow> l_sub l \<in> s_id ` set S \<and>
     (l_key l \<noteq> '''' \<longrightarrow> key_good C l \<and> (trial_span l \<or> covered S I l))"

definition orgs_of :: "licence list \<Rightarrow> string \<Rightarrow> string set" where
  "orgs_of L sid = l_orgname ` {l \<in> set L. l_sub l = sid}"

definition row_good :: "subscription \<Rightarrow> bool" where
  "row_good s \<longleftrightarrow> PlanFor (s_product s) (s_interval s) \<noteq> None \<and> 1 \<le> s_quantity s \<and> s_quantity s < 2 ^ 31
     \<and> 0 \<le> s_discount s \<and> s_discount s \<le> 90 \<and> (s_next s \<noteq> None \<longrightarrow> s_status s = SubPaid)"

definition cycle_good :: "invoice list \<Rightarrow> subscription \<Rightarrow> bool" where
  "cycle_good I s \<longleftrightarrow>
     (s_status s = Requested \<longrightarrow> (\<forall>i \<in> set I. i_sub i \<noteq> s_id s)) \<and>
     (s_status s = SubPaid \<longrightarrow> (\<exists>i \<in> set I. i_sub i = s_id s \<and> i_paid i \<noteq> None)) \<and>
     (s_free s \<longrightarrow> (\<forall>i \<in> set I. i_sub i = s_id s \<longrightarrow> i_status i \<noteq> InvOpen)) \<and>
     (\<not> s_free s \<and> (\<exists>i \<in> set I. i_sub i = s_id s) \<longrightarrow> s_contact s \<noteq> None)"

definition seats_good :: "licence list \<Rightarrow> subscription \<Rightarrow> bool" where
  "seats_good L s \<longleftrightarrow> int (card (orgs_of L (s_id s))) \<le> s_quantity s \<and>
     (s_status s \<noteq> SubPaid \<longrightarrow> orgs_of L (s_id s) \<subseteq> {s_company s})"

definition invoice_good :: "subscription list \<Rightarrow> invoice \<Rightarrow> bool" where
  "invoice_good S i \<longleftrightarrow> i_sub i \<in> s_id ` set S \<and> i_gross i = i_net i + i_tax i \<and>
     (i_status i = InvPaid \<longrightarrow> i_paid i \<noteq> None) \<and> (i_status i = InvOpen \<longrightarrow> i_paid i = None)"

definition one_open :: "invoice list \<Rightarrow> bool" where
  "one_open I \<longleftrightarrow> (\<forall>i \<in> set I. \<forall>j \<in> set I. i_status i = InvOpen \<and> i_status j = InvOpen \<and> i_sub i = i_sub j
     \<longrightarrow> i_ref i = i_ref j)"

definition store_ok :: "crypto \<Rightarrow> subscription list \<Rightarrow> invoice list \<Rightarrow> licence list \<Rightarrow> bool" where
  "store_ok C S I L \<longleftrightarrow> distinct (map s_id S) \<and> distinct (map i_ref I) \<and> distinct (map l_rtoken L) \<and>
     (\<forall>s \<in> set S. row_good s \<and> cycle_good I s \<and> seats_good L s) \<and>
     (\<forall>i \<in> set I. invoice_good S i) \<and> one_open I \<and> (\<forall>l \<in> set L. licence_good C S I l)"

lemma store_okD:
  assumes "store_ok C S I L"
  shows "distinct (map s_id S)" "distinct (map i_ref I)" "distinct (map l_rtoken L)" "one_open I"
    "\<And>s. s \<in> set S \<Longrightarrow> row_good s" "\<And>s. s \<in> set S \<Longrightarrow> cycle_good I s" "\<And>s. s \<in> set S \<Longrightarrow> seats_good L s"
    "\<And>i. i \<in> set I \<Longrightarrow> invoice_good S i" "\<And>l. l \<in> set L \<Longrightarrow> licence_good C S I l"
  using assms by (auto simp: store_ok_def)

lemma store_okI:
  assumes "distinct (map s_id S)" "distinct (map i_ref I)" "distinct (map l_rtoken L)" "one_open I"
    and "\<And>s. s \<in> set S \<Longrightarrow> row_good s \<and> cycle_good I s \<and> seats_good L s"
    and "\<And>i. i \<in> set I \<Longrightarrow> invoice_good S i" "\<And>l. l \<in> set L \<Longrightarrow> licence_good C S I l"
  shows "store_ok C S I L"
  using assms unfolding store_ok_def by blast

subsection \<open>Which writes keep it\<close>


text \<open>What no statement changes about a subscription.\<close>

definition same_sub :: "subscription \<Rightarrow> subscription \<Rightarrow> bool" where
  "same_sub s t \<longleftrightarrow> s_id t = s_id s \<and> s_product t = s_product s \<and> s_interval t = s_interval s
     \<and> s_company t = s_company s \<and> s_quantity t = s_quantity s"

lemma covered_mono:
  assumes "covered S I l" "l_sub m = l_sub l" "l_until m = l_until l"
    and "\<And>s. s \<in> set S \<Longrightarrow> \<exists>t \<in> set T. same_sub s t"
    and "\<And>i. i \<in> set I \<Longrightarrow> \<exists>j \<in> set J. i_sub j = i_sub i \<and> i_end j = i_end i \<and> (i_paid i \<noteq> None \<longrightarrow> i_paid j \<noteq> None)"
  shows "covered T J m"
proof -
  from assms(1) obtain s i p where "s \<in> set S" "i \<in> set I" and si: "s_id s = l_sub l" "i_sub i = l_sub l" "i_paid i \<noteq> None"
    "PlanFor (s_product s) (s_interval s) = Some p" "l_until l < midnight (i_end i + pl_grace_days p + 1)"
    by (auto simp: covered_def)
  then obtain t j where "t \<in> set T" "same_sub s t" "j \<in> set J"
    "i_sub j = i_sub i" "i_end j = i_end i" "i_paid i \<noteq> None \<longrightarrow> i_paid j \<noteq> None"
    using assms(4,5) by blast
  with si assms(2,3) show ?thesis unfolding covered_def
    by (intro bexI [of _ t] bexI [of _ j] exI [of _ p]) (auto simp: same_sub_def)
qed

lemma store_ok_insert_sub:
  assumes "store_ok C S I L" "s_id x \<notin> set (map s_id S)" "row_good x" "s_status x = Requested"
  shows "store_ok C (S @ [x]) I L"
proof -
  have new: "i_sub i \<noteq> s_id x" if "i \<in> set I" for i
    using store_okD(8) [OF assms(1) that] assms(2) by (auto simp: invoice_good_def)
  have none: "l_sub l \<noteq> s_id x" if "l \<in> set L" for l
    using store_okD(9) [OF assms(1) that] assms(2) by (auto simp: licence_good_def)
  have "orgs_of L (s_id x) = {}" using none by (auto simp: orgs_of_def)
  with assms(3,4) have x: "cycle_good I x" "seats_good L x"
    using new by (auto simp: cycle_good_def seats_good_def row_good_def)
  have c: "covered (S @ [x]) I l" if "covered S I l" for l
    by (rule covered_mono [OF that]) (auto simp: same_sub_def)
  show ?thesis
  proof (rule store_okI)
    show "distinct (map s_id (S @ [x]))" using store_okD(1) [OF assms(1)] assms(2) by simp
    show "row_good s \<and> cycle_good I s \<and> seats_good L s" if "s \<in> set (S @ [x])" for s
    proof (cases "s = x")
      case False
      with that have "s \<in> set S" by simp
      with store_okD(5-7) [OF assms(1)] show ?thesis by blast
    qed (use x assms(3) in simp)
    show "invoice_good (S @ [x]) i" if "i \<in> set I" for i
      using store_okD(8) [OF assms(1) that] by (auto simp: invoice_good_def)
    show "licence_good C (S @ [x]) I l" if "l \<in> set L" for l
      using store_okD(9) [OF assms(1) that] c by (auto simp: licence_good_def)
  qed (use store_okD(2-4) [OF assms(1)] in simp_all)
qed

text \<open>One subscription changes, and at most one invoice of it is added.\<close>

lemma store_ok_sub_invoice:
  assumes ok: "store_ok C S I L" and x: "x \<in> set S" "s_id x = sid" "same_sub x (f x)" "row_good (f x)"
    and K: "K = [] \<or> (\<exists>k. K = [k] \<and> i_sub k = sid \<and> i_ref k \<notin> set (map i_ref I) \<and> invoice_good S k \<and>
      (i_status k = InvOpen \<longrightarrow> (\<forall>i \<in> set I. i_sub i = sid \<longrightarrow> i_status i \<noteq> InvOpen)))"
    and cy: "cycle_good (I @ K) (f x)" and st: "s_status (f x) \<noteq> SubPaid \<longrightarrow> s_status x \<noteq> SubPaid"
  shows "store_ok C (update_where (\<lambda>s. s_id s = sid) f S) (I @ K) L"
proof -
  let ?g = "\<lambda>s. if s_id s = sid then f s else s"
  let ?S = "update_where (\<lambda>s. s_id s = sid) f S"
  have key: "s_id s = sid \<longleftrightarrow> s = x" if "s \<in> set S" for s
    using distinct_key [OF store_okD(1) [OF ok] that x(1)] x(2) by metis
  have only: "?g s = (if s = x then f x else s)" if "s \<in> set S" for s
    using key [OF that] by simp
  have set: "set ?S = (\<lambda>s. if s = x then f x else s) ` set S"
    using only by (auto simp: set_update_where)
  have ids: "map s_id ?S = map s_id S"
    using only x(3) by (auto simp: update_where_def same_sub_def)
  have same: "\<exists>t \<in> set ?S. same_sub s t" if "s \<in> set S" for s
    using that x(3) by (intro bexI [of _ "if s = x then f x else s"]) (auto simp: set same_sub_def)
  have idset: "s_id ` set ?S = s_id ` set S" using ids by (metis set_map)
  have row: "row_good s \<and> cycle_good (I @ K) s \<and> seats_good L s" if "s \<in> set ?S" for s
  proof -
    from that obtain r where r: "r \<in> set S" "s = (if r = x then f x else r)" by (auto simp: set)
    show ?thesis
    proof (cases "r = x")
      case True
      have "seats_good L (f x)" using store_okD(7) [OF ok x(1)] st x(3)
        by (auto simp: seats_good_def same_sub_def)
      with True r x(4) cy show ?thesis by simp
    next
      case False
      then have "s_id r \<noteq> sid" using key [OF r(1)] by simp
      then have "cycle_good (I @ K) r" using store_okD(6) [OF ok r(1)] K
        by (auto simp: cycle_good_def)
      with False r store_okD(5,7) [OF ok r(1)] show ?thesis by simp
    qed
  qed
  have inv: "invoice_good ?S i" if "i \<in> set (I @ K)" for i
    using store_okD(8) [OF ok] that K idset by (auto simp: invoice_good_def)
  have lic: "licence_good C ?S (I @ K) l" if "l \<in> set L" for l
  proof -
    have "covered ?S (I @ K) l" if "covered S I l"
      by (rule covered_mono [OF that refl refl same]) auto
    with store_okD(9) [OF ok that] show ?thesis unfolding licence_good_def idset by blast
  qed
  have "i_ref i = i_ref j" if ij: "i \<in> set (I @ K)" "j \<in> set (I @ K)"
    "i_status i = InvOpen \<and> i_status j = InvOpen \<and> i_sub i = i_sub j" for i j
  proof -
    consider "i \<in> set I" "j \<in> set I" | "i \<in> set K" "j \<in> set K"
      | "i \<in> set I" "j \<in> set K" | "i \<in> set K" "j \<in> set I" using ij(1,2) by auto
    then show ?thesis
    proof cases
      case 1
      with store_okD(4) [OF ok] ij(3) show ?thesis unfolding one_open_def by blast
    qed (use K ij(3) in \<open>force+\<close>)
  qed
  then have "one_open (I @ K)" unfolding one_open_def by blast
  moreover from K consider "K = []" | k where "K = [k]" "i_ref k \<notin> set (map i_ref I)" by blast
  then have "distinct (map i_ref (I @ K))" using store_okD(2) [OF ok] by cases simp_all
  ultimately show ?thesis
    by (intro store_okI row inv lic) (use store_okD(1,3) [OF ok] ids in simp_all)
qed

lemmas store_ok_sub = store_ok_sub_invoice [where K = "[]", simplified]

text \<open>An invoice changes its state: it never becomes open or unpaid again.\<close>

definition same_invoice :: "invoice \<Rightarrow> invoice \<Rightarrow> bool" where
  "same_invoice i j \<longleftrightarrow> i_ref j = i_ref i \<and> i_sub j = i_sub i \<and> i_end j = i_end i \<and>
     i_gross j - i_tax j = i_gross i - i_tax i \<and> i_net j = i_net i \<and>
     (i_paid i \<noteq> None \<longrightarrow> i_paid j \<noteq> None) \<and> (i_status j = InvPaid \<longrightarrow> i_paid j \<noteq> None) \<and>
     (i_status j = InvOpen \<longrightarrow> i_status i = InvOpen \<and> i_paid j = i_paid i)"

lemma store_ok_invoice:
  assumes ok: "store_ok C S I L" and f: "\<And>i. i \<in> set I \<Longrightarrow> i_ref i = ref \<Longrightarrow> same_invoice i (f i)"
  shows "store_ok C S (update_where (\<lambda>i. i_ref i = ref) f I) L"
proof -
  let ?g = "\<lambda>i. if i_ref i = ref then f i else i"
  let ?I = "update_where (\<lambda>i. i_ref i = ref) f I"
  have g: "i_ref (?g i) = i_ref i" "i_sub (?g i) = i_sub i" "i_end (?g i) = i_end i"
    "i_paid i \<noteq> None \<longrightarrow> i_paid (?g i) \<noteq> None" "i_status (?g i) = InvOpen \<longrightarrow> i_status i = InvOpen" if "i \<in> set I" for i
    using f [OF that] by (simp_all add: same_invoice_def)
  have set: "set ?I = ?g ` set I" by (simp add: set_update_where)
  have refs: "map i_ref ?I = map i_ref I" using g(1) by (simp add: update_where_def)
  show ?thesis
  proof (rule store_okI)
    show "distinct (map i_ref ?I)" using refs store_okD(2) [OF ok] by simp
    show "one_open ?I" using store_okD(4) [OF ok] unfolding one_open_def set ball_simps
      by (intro ballI impI) (metis g(1,2,5))
    show "row_good s \<and> cycle_good ?I s \<and> seats_good L s" if s: "s \<in> set S" for s
    proof -
      note c = store_okD(6) [OF ok s, unfolded cycle_good_def]
      have "\<exists>i \<in> set ?I. i_sub i = s_id s \<and> i_paid i \<noteq> None" if "s_status s = SubPaid"
      proof -
        from c that obtain i where "i \<in> set I" "i_sub i = s_id s" "i_paid i \<noteq> None" by blast
        with g(2,4) [of i] show ?thesis unfolding set bex_simps by (intro bexI [of _ i]) (simp_all only: simp_thms)
      qed
      moreover have "\<forall>i \<in> set ?I. i_sub i \<noteq> s_id s" if "s_status s = Requested"
        using c that g(2) unfolding set ball_simps by metis
      moreover have "\<forall>i \<in> set ?I. i_sub i = s_id s \<longrightarrow> i_status i \<noteq> InvOpen" if "s_free s"
        using c that g(2,5) unfolding set ball_simps by metis
      moreover have "s_contact s \<noteq> None" if "\<not> s_free s" "\<exists>i \<in> set ?I. i_sub i = s_id s"
        using c that g(2) unfolding set bex_simps by metis
      ultimately have "cycle_good ?I s" unfolding cycle_good_def by blast
      with store_okD(5,7) [OF ok s] show ?thesis by simp
    qed
    show "invoice_good S j" if "j \<in> set ?I" for j
    proof -
      from that obtain i where i: "i \<in> set I" "j = ?g i" by (auto simp: set)
      show ?thesis
      proof (cases "i_ref i = ref")
        case True
        with f [OF i(1)] store_okD(8) [OF ok i(1)] i(2) show ?thesis
          by (auto simp: invoice_good_def same_invoice_def)
      qed (use i store_okD(8) [OF ok i(1)] in simp)
    qed
    show "licence_good C S ?I l" if "l \<in> set L" for l
    proof -
      have "covered S ?I l" if "covered S I l"
      proof (rule covered_mono [OF that])
        show "\<exists>j \<in> set ?I. i_sub j = i_sub i \<and> i_end j = i_end i \<and> (i_paid i \<noteq> None \<longrightarrow> i_paid j \<noteq> None)"
          if "i \<in> set I" for i
          unfolding set bex_simps using g(2-4) [OF that] that by (intro bexI [of _ i] conjI)
      qed (auto simp: same_sub_def)
      with store_okD(9) [OF ok that] show ?thesis unfolding licence_good_def by blast
    qed
  qed (use store_okD(1,3) [OF ok] in simp_all)
qed

text \<open>A licence row is added; its key, if it has one, is good and covered, and the seat it takes
  is there.\<close>

lemma store_ok_insert_licence:
  assumes ok: "store_ok C S I L" and x: "x \<in> set S" "l_sub l = s_id x"
      "l_key l \<noteq> '''' \<longrightarrow> key_good C l \<and> (trial_span l \<or> covered S I l)"
    and tok: "l_rtoken l \<notin> set (map l_rtoken L)"
    and seat: "l_orgname l \<in> orgs_of L (s_id x) \<or> int (card (orgs_of L (s_id x))) < s_quantity x"
    and own: "s_status x \<noteq> SubPaid \<longrightarrow> l_orgname l = s_company x"
  shows "store_ok C S I (L @ [l])"
proof (rule store_okI)
  have fin: "finite (orgs_of L sid)" for sid by (simp add: orgs_of_def)
  show "row_good s \<and> cycle_good I s \<and> seats_good (L @ [l]) s" if s: "s \<in> set S" for s
  proof (cases "s_id s = s_id x")
    case True
    have "s = x" by (rule distinct_key [OF store_okD(1) [OF ok] s x(1) True])
    moreover have o: "orgs_of (L @ [l]) (s_id x) = insert (l_orgname l) (orgs_of L (s_id x))"
      using x(2) by (auto simp: orgs_of_def)
    have "seats_good (L @ [l]) x"
      using store_okD(7) [OF ok x(1)] seat own fin [of "s_id x"]
      unfolding seats_good_def o by (auto simp: card_insert_if)
    ultimately show ?thesis using store_okD(5,6) [OF ok s] by simp
  next
    case False
    then have "orgs_of (L @ [l]) (s_id s) = orgs_of L (s_id s)" using x(2) by (auto simp: orgs_of_def)
    then show ?thesis using store_okD(5-7) [OF ok s] by (simp add: seats_good_def)
  qed
  show "licence_good C S I m" if "m \<in> set (L @ [l])" for m
  proof (cases "m = l")
    case True
    then show ?thesis using x by (simp add: licence_good_def)
  next
    case False
    with that have "m \<in> set L" by simp
    then show ?thesis by (rule store_okD(9) [OF ok])
  qed
  show "distinct (map l_rtoken (L @ [l]))" using store_okD(3) [OF ok] tok by simp
qed (use store_okD(1,2,4,8) [OF ok] in simp_all)

lemma orgs_update:
  assumes "\<And>l. l \<in> set L \<Longrightarrow> l_rtoken l = tok \<Longrightarrow> l_sub (f l) = l_sub l \<and> l_orgname (f l) = l_orgname l"
  shows "orgs_of (update_where (\<lambda>l. l_rtoken l = tok) f L) sid = orgs_of L sid"
proof -
  let ?g = "\<lambda>l. if l_rtoken l = tok then f l else l"
  have g: "l_sub (?g l) = l_sub l" "l_orgname (?g l) = l_orgname l" if "l \<in> set L" for l
    using assms [OF that] by simp_all
  have "l_orgname ` {l \<in> ?g ` set L. l_sub l = sid} = l_orgname ` {l \<in> set L. l_sub l = sid}"
    (is "?A = ?B")
  proof
    show "?A \<subseteq> ?B"
    proof
      fix o' assume "o' \<in> ?A"
      then obtain l where l: "l \<in> set L" "l_sub (?g l) = sid" "o' = l_orgname (?g l)" by blast
      with g [OF l(1)] show "o' \<in> ?B" by (intro image_eqI [of _ _ l]) (simp_all only: mem_Collect_eq simp_thms)
    qed
    show "?B \<subseteq> ?A"
    proof
      fix o' assume "o' \<in> ?B"
      then obtain l where "l \<in> set L" "l_sub l = sid" "o' = l_orgname l" by auto
      then have "?g l \<in> ?g ` set L" "l_sub (?g l) = sid" "o' = l_orgname (?g l)"
        using g [of l] by (blast, metis, metis)
      then show "o' \<in> ?A" by blast
    qed
  qed
  then show ?thesis by (simp add: orgs_of_def set_update_where)
qed

text \<open>A licence row changes: its token, its organisation and its subscription stay.\<close>

lemma store_ok_licence:
  assumes ok: "store_ok C S I L"
    and f: "\<And>l. l \<in> set L \<Longrightarrow> l_rtoken l = tok \<Longrightarrow> l_rtoken (f l) = tok \<and> l_sub (f l) = l_sub l \<and>
      l_orgname (f l) = l_orgname l \<and> licence_good C S I (f l)"
  shows "store_ok C S I (update_where (\<lambda>l. l_rtoken l = tok) f L)"
proof -
  let ?L = "update_where (\<lambda>l. l_rtoken l = tok) f L"
  have orgs: "orgs_of ?L sid = orgs_of L sid" for sid using f by (intro orgs_update) blast
  have "map l_rtoken ?L = map l_rtoken L" using f by (auto simp: update_where_def)
  then have "distinct (map l_rtoken ?L)" using store_okD(3) [OF ok] by simp
  moreover have "row_good s \<and> cycle_good I s \<and> seats_good ?L s" if "s \<in> set S" for s
    using store_okD(5-7) [OF ok that] unfolding seats_good_def orgs by blast
  moreover have "licence_good C S I m" if "m \<in> set ?L" for m
  proof -
    from that obtain l where l: "l \<in> set L" "m = (if l_rtoken l = tok then f l else l)"
      by (auto simp: set_update_where)
    show ?thesis using f [OF l(1)] store_okD(9) [OF ok l(1)] l(2) by (cases "l_rtoken l = tok") simp_all
  qed
  ultimately show ?thesis using store_okD(1,2,4,8) [OF ok] by (intro store_okI) simp_all
qed

lemma store_ok_remove_licence:
  assumes ok: "store_ok C S I L"
  shows "store_ok C S I (filter p L)"
proof (rule store_okI)
  show "distinct (map l_rtoken (filter p L))" using store_okD(3) [OF ok] by (rule distinct_map_filter)
  show "row_good s \<and> cycle_good I s \<and> seats_good (filter p L) s" if s: "s \<in> set S" for s
  proof -
    have sub: "orgs_of (filter p L) (s_id s) \<subseteq> orgs_of L (s_id s)" by (auto simp: orgs_of_def)
    moreover have "finite (orgs_of L (s_id s))" by (simp add: orgs_of_def)
    ultimately have "card (orgs_of (filter p L) (s_id s)) \<le> card (orgs_of L (s_id s))" by (simp add: card_mono)
    with sub store_okD(5-7) [OF ok s] show ?thesis by (auto simp: seats_good_def)
  qed
qed (use store_okD(1,2,4,8,9) [OF ok] in simp_all)

text \<open>A row that gets a key: the key has to be good for the row, and covered.\<close>

lemma store_ok_sign:
  assumes ok: "store_ok C S I L" and l: "l \<in> set L" "l_rtoken l = tok"
    and f: "l_rtoken (f l) = tok" "l_sub (f l) = l_sub l" "l_orgname (f l) = l_orgname l"
    and g: "key_good C (f l)" "trial_span (f l) \<or> covered S I (f l)"
  shows "store_ok C S I (update_where (\<lambda>l. l_rtoken l = tok) f L)"
proof (rule store_ok_licence [OF ok])
  fix m assume m: "m \<in> set L" "l_rtoken m = tok"
  have "m = l" by (rule distinct_key [OF store_okD(3) [OF ok] m(1) l(1)]) (simp add: m l)
  with f g store_okD(9) [OF ok l(1)] show "l_rtoken (f m) = tok \<and> l_sub (f m) = l_sub m \<and>
      l_orgname (f m) = l_orgname m \<and> licence_good C S I (f m)"
    by (simp add: licence_good_def)
qed

text \<open>What the signing path delivers for a row.\<close>

lemma SignUntil_good:
  assumes "good_crypto C i" "SignUntil C i t r e = Inr key"
    and "rq_token r = l_rtoken l" "l_key l = key" "l_until l = e"
    and "rq_orgname r = l_orgname l"
  shows "key_good C l" "key \<noteq> ''''"
proof -
  have k: "key_for C key (rq_token r) (orgOf r) e" using SignUntil_key [OF assms(1,2)] .
  then show "key \<noteq> ''''" by (simp add: key_for_def)
  have "trim_space (l_orgname l) \<noteq> '''' \<longrightarrow> orgOf r = trim_space (l_orgname l)"
    by (simp add: orgOf_def Let_def assms(6))
  with k assms(3-5) show "key_good C l" unfolding key_good_def by metis
qed

definition ledger_ok :: "deployment \<Rightarrow> 'z world_scheme \<Rightarrow> bool" where
  "ledger_ok E w \<longleftrightarrow> store_ok (d_crypto E) (subs w) (invs w) (lics w)"

definition good_deployment :: "deployment \<Rightarrow> bool" where
  "good_deployment E \<longleftrightarrow> good_crypto (d_crypto E) (d_issuer E)"

lemma ledger_ok_quiet [simp]:
  "ledger_ok E (w\<lparr>faults := t\<rparr>) = ledger_ok E w" "ledger_ok E (w\<lparr>fresh := n\<rparr>) = ledger_ok E w"
  "ledger_ok E (w\<lparr>outbox := b\<rparr>) = ledger_ok E w" "ledger_ok E (w\<lparr>vats := v\<rparr>) = ledger_ok E w"
  by (simp_all add: ledger_ok_def)

lemma outside_tables:
  fixes w u :: "'z world_scheme"
  assumes "outside w u"
  shows "subs u = subs w" "invs u = invs w" "lics u = lics w" "vats u = vats w" "now u = now w"
  using assms by (cases u; cases w; simp add: outside_def)+

lemma ledger_ok_outside: "outside w u \<Longrightarrow> ledger_ok E u = ledger_ok E w"
  by (simp add: ledger_ok_def outside_tables)

lemma lookups_outside:
  assumes "outside w u"
  shows "find_sub sid u = find_sub sid w" "find_licence tok u = find_licence tok w" "find_invoice ref u = find_invoice ref w"
    "invoices_of sid u = invoices_of sid w" "paid_end sid u = paid_end sid w" "has_open sid u = has_open sid w"
  using assms by (simp_all add: find_sub_def find_licence_def find_invoice_def invoices_of_def paid_end_def has_open_def
      outside_tables)

text \<open>Which updates of a row keep the ledger consistent.\<close>

lemma ledger_ok_update_sub:
  assumes ok: "ledger_ok E w"
    and f: "\<And>x. x \<in> set (subs w) \<Longrightarrow> s_id x = sid \<Longrightarrow> same_sub x (f x) \<and> row_good (f x) \<and>
      cycle_good (invs w) (f x) \<and> (s_status (f x) \<noteq> SubPaid \<longrightarrow> s_status x \<noteq> SubPaid)"
  shows "ledger_ok E (update_sub sid f w)"
proof (cases "\<exists>x \<in> set (subs w). s_id x = sid")
  case True
  then obtain x where x: "x \<in> set (subs w)" "s_id x = sid" by blast
  with f [OF x] ok show ?thesis unfolding ledger_ok_def update_sub_def
    by (auto intro!: store_ok_sub [of _ _ _ _ x])
next
  case False
  then have "update_where (\<lambda>s. s_id s = sid) f (subs w) = subs w"
    by (auto simp: update_where_def intro!: map_idI)
  with ok show ?thesis by (simp add: ledger_ok_def update_sub_def)
qed

lemma ledger_ok_sub_field:
  assumes ok: "ledger_ok E w"
    and f: "\<And>x. same_sub x (f x) \<and> s_status (f x) = s_status x \<and> s_free (f x) = s_free x \<and>
      s_contact (f x) = s_contact x \<and> (s_next (f x) \<noteq> None \<longrightarrow> s_next x \<noteq> None) \<and>
      (s_discount (f x) = s_discount x \<or> 0 \<le> s_discount (f x) \<and> s_discount (f x) \<le> 90)"
  shows "ledger_ok E (update_sub sid f w)"
proof (rule ledger_ok_update_sub [OF ok])
  fix x assume x: "x \<in> set (subs w)" "s_id x = sid"
  have "row_good x" "cycle_good (invs w) x" using ok x(1) by (simp_all add: ledger_ok_def store_okD)
  with f [of x] show "same_sub x (f x) \<and> row_good (f x) \<and> cycle_good (invs w) (f x) \<and>
      (s_status (f x) \<noteq> SubPaid \<longrightarrow> s_status x \<noteq> SubPaid)"
    unfolding row_good_def cycle_good_def same_sub_def by metis
qed

lemma ledger_ok_update_invoice:
  assumes "ledger_ok E w" "\<And>i. i \<in> set (invs w) \<Longrightarrow> i_ref i = ref \<Longrightarrow> same_invoice i (f i)"
  shows "ledger_ok E (update_invoice ref f w)"
  using assms unfolding ledger_ok_def update_invoice_def by (simp add: store_ok_invoice)

text \<open>\<open>quiet w u\<close>: only the tape, the counter and the outbox differ.\<close>

definition quiet :: "'z world_scheme \<Rightarrow> 'z world_scheme \<Rightarrow> bool" where
  "quiet w u \<longleftrightarrow> now u = now w \<and> lx_name u = lx_name w \<and> lx_contacts u = lx_contacts w \<and>
     lx_invoices u = lx_invoices w \<and> lx_payments u = lx_payments w \<and> lx_pages u = lx_pages w \<and>
     lx_files u = lx_files w \<and> lx_small u = lx_small w \<and> lx_hooks u = lx_hooks w \<and> subs u = subs w \<and>
     invs u = invs w \<and> lics u = lics w \<and> vats u = vats w \<and> vies u = vies w \<and> world.more u = world.more w"

lemma quiet_refl [simp]: "quiet w w"
  by (simp add: quiet_def)

lemma quiet_simps [simp]:
  "quiet w (u\<lparr>faults := t\<rparr>) = quiet w u" "quiet w (u\<lparr>fresh := n\<rparr>) = quiet w u"
  "quiet w (u\<lparr>outbox := b\<rparr>) = quiet w u" "quiet (w\<lparr>faults := t\<rparr>) u = quiet w u"
  "quiet (w\<lparr>fresh := n\<rparr>) u = quiet w u" "quiet (w\<lparr>outbox := b\<rparr>) u = quiet w u"
  by (simp_all add: quiet_def)

lemma quietD:
  assumes "quiet w u"
  shows "subs u = subs w" "invs u = invs w" "lics u = lics w" "vats u = vats w" "now u = now w"
    "lx_invoices u = lx_invoices w" "lx_contacts u = lx_contacts w"
  using assms by (simp_all add: quiet_def)

lemma quiet_trans: "quiet w u \<Longrightarrow> quiet u v \<Longrightarrow> quiet w v"
  by (simp add: quiet_def)

text \<open>A table that is written on the right is compared, and the rest stays.\<close>

lemma quiet_lics: "quiet w (u\<lparr>lics := L\<rparr>) \<longleftrightarrow> quiet (w\<lparr>lics := lics u\<rparr>) u \<and> L = lics w"
  and quiet_subs: "quiet w (u\<lparr>subs := S\<rparr>) \<longleftrightarrow> quiet (w\<lparr>subs := subs u\<rparr>) u \<and> S = subs w"
  and quiet_invs: "quiet w (u\<lparr>invs := I\<rparr>) \<longleftrightarrow> quiet (w\<lparr>invs := invs u\<rparr>) u \<and> I = invs w"
  by (auto simp: quiet_def)

lemma ledger_ok_same: "quiet w u \<Longrightarrow> ledger_ok E u = ledger_ok E w"
  by (simp add: ledger_ok_def quietD)

text \<open>\<open>tab w u\<close>: the tables of the ledger, the invoices of the service and the clock are the same.\<close>

definition tab :: "'z world_scheme \<Rightarrow> 'z world_scheme \<Rightarrow> bool" where
  "tab w u \<longleftrightarrow> subs u = subs w \<and> invs u = invs w \<and> lics u = lics w \<and> now u = now w \<and> lx_invoices u = lx_invoices w"

lemma tabD: "tab w u \<Longrightarrow> subs u = subs w" "tab w u \<Longrightarrow> invs u = invs w" "tab w u \<Longrightarrow> lics u = lics w"
  "tab w u \<Longrightarrow> now u = now w" "tab w u \<Longrightarrow> lx_invoices u = lx_invoices w"
  by (simp_all add: tab_def)

lemma tab_simps [simp]:
  "tab w w" "tab w (u\<lparr>faults := t\<rparr>) = tab w u" "tab w (u\<lparr>fresh := n\<rparr>) = tab w u" "tab w (u\<lparr>outbox := b\<rparr>) = tab w u"
  "tab w (u\<lparr>vats := v\<rparr>) = tab w u" "tab (w\<lparr>faults := t\<rparr>) u = tab w u" "tab (w\<lparr>fresh := n\<rparr>) u = tab w u"
  "tab (w\<lparr>vats := v\<rparr>) u = tab w u"
  by (simp_all add: tab_def)

text \<open>A table that is written on the right is compared, and the rest stays.\<close>

lemma tab_lics: "tab w (u\<lparr>lics := L\<rparr>) \<longleftrightarrow> tab (w\<lparr>lics := lics u\<rparr>) u \<and> L = lics w"
  and tab_subs: "tab w (u\<lparr>subs := S\<rparr>) \<longleftrightarrow> tab (w\<lparr>subs := subs u\<rparr>) u \<and> S = subs w"
  and tab_invs: "tab w (u\<lparr>invs := I\<rparr>) \<longleftrightarrow> tab (w\<lparr>invs := invs u\<rparr>) u \<and> I = invs w"
  by (auto simp: tab_def)

lemma tab_trans: "tab w u \<Longrightarrow> tab u v \<Longrightarrow> tab w v"
  by (simp add: tab_def)

lemma tab_quiet: "quiet w u \<Longrightarrow> tab w u"
  by (simp add: tab_def quiet_def)

lemma tab_outside: "outside w u \<Longrightarrow> lx_invoices u = lx_invoices w \<Longrightarrow> tab w u"
  by (simp add: tab_def outside_tables)

lemma ledger_ok_tab: "tab w u \<Longrightarrow> ledger_ok E u = ledger_ok E w"
  by (simp add: ledger_ok_def tab_def)

lemma find_sub_tab: "tab w u \<Longrightarrow> find_sub sid u = find_sub sid w"
  by (simp add: find_sub_def tab_def)

section \<open>A small billing database\<close>

text \<open>Concrete rows for the examples: a monthly customer of Acme, with one invoice and one licence.\<close>

definition sample_sub :: "sub_status \<Rightarrow> instant option \<Rightarrow> subscription" where
  "sample_sub st next = \<lparr>s_id = ''s1'', s_status = st, s_company = ''Acme'', s_contact_name = '''',
     s_email = ''a@acme'', s_vat_id = '''', s_street = '''', s_zip = '''', s_city = '''', s_country = ''DE'',
     s_note = '''', s_notes = '''', s_product = ''pro'', s_interval = ''month'', s_quantity = 2, s_discount = 0,
     s_free = False, s_approval_hash = ''h'', s_portal_hash = None, s_contact = Some ''c1'', s_invoice = Some ''RE1'',
     s_key = None, s_next = next, s_cancelled = None, s_created = 0, s_approved = Some 0, s_paid = None\<rparr>"

definition sample_invoice :: "inv_status \<Rightarrow> invoice" where
  "sample_invoice st = \<lparr>i_sub = ''s1'', i_ref = ''RE1'', i_start = 0, i_end = 31, i_net = 59800, i_list = 59800,
     i_discount = 0, i_status = st, i_created = 0, i_paid = (if st = InvPaid then Some 0 else None),
     i_reminded = None, i_gross = 59800, i_tax = 0, i_rate = 0, i_type = ''vatfree''\<rparr>"

definition sample_licence :: "kind \<Rightarrow> string \<Rightarrow> instant \<Rightarrow> licence" where
  "sample_licence k key until = \<lparr>l_sub = ''s1'', l_orgname = ''Acme'', l_key = key, l_until = until, l_kind = k,
     l_note = '''', l_rtoken = ''tok'', l_seen = None, l_revoked = None, l_created = 0\<rparr>"

definition sample_world :: "instant \<Rightarrow> subscription list \<Rightarrow> invoice list \<Rightarrow> licence list \<Rightarrow> world" where
  "sample_world t S I L = \<lparr>faults = [], now = t, fresh = 7, outbox = [], lx_name = (\<lambda>n. ''RE'' @ show_nat n),
     lx_contacts = [], lx_invoices = [], lx_payments = (\<lambda>_. NoReply_http), lx_pages = (\<lambda>_. NoReply_http),
     lx_files = (\<lambda>_. NoReply_http), lx_small = NoReply_http, lx_hooks = [],
     subs = S, invs = I, lics = L, vats = [], vies = (\<lambda>_ _. Unreachable)\<rparr>"

definition sample_deployment :: deployment where
  "sample_deployment = \<lparr>d_crypto = toy_full, d_issuer = toy_issuer, d_client = \<lparr>cl_key = ''k'', cl_small = True\<rparr>,
     d_uuid = (\<lambda>n. ''u'' @ show_nat n), d_random = (\<lambda>n. ''r'' @ show_nat n), d_hash = (\<lambda>s. ''h'' @ s),
     d_has_vies = True, d_address = list_ex (\<lambda>c. c = CHR ''@''), d_portal = Some ''https://l'', d_base_url = ''https://b'', d_notify_to = ''s@v''\<rparr>"

lemmas sample_defs = sample_sub_def sample_invoice_def sample_licence_def sample_world_def

lemma sample_lookups:
  "find_sub ''s1'' (sample_world t [sample_sub st n] I L) = Some (sample_sub st n)"
  "find_licence ''tok'' (sample_world t S I [sample_licence k key u]) = Some (sample_licence k key u)"
  "find_invoice ''RE1'' (sample_world t S [sample_invoice i] L) = Some (sample_invoice i)"
  by (simp_all add: find_sub_def find_licence_def find_invoice_def sample_defs)

end
