(* ===== verification/Billing_Entitlement.thy ===== *)
theory Billing_Entitlement
  imports Billing_Store
begin

text \<open>
  How far a customer's money reaches (\<^verbatim>\<open>internal/billing/lexware/entitlement.go\<close>): the limit
  of every signing path, and the status a human reads off the same invoices.
\<close>

datatype ent_error = QueryFailed | NoRows | NothingPaid | NoPlan

text \<open>The first component is \<^verbatim>\<open>live\<close>.\<close>

definition paidThrough :: "string \<Rightarrow> ('z world_scheme, bool \<times> (ent_error + instant)) state" where
  "paidThrough sid = do {
     r \<leftarrow> row (\<lambda>w. map_option (\<lambda>s. (s, paid_end sid w)) (find_sub sid w));
     State_Monad.return (case r of
       None \<Rightarrow> (False, Inl QueryFailed)
     | Some (s, end) \<Rightarrow>
         (let live = (s_status s = SubPaid \<and> s_cancelled s = None) in
          case end of
            None \<Rightarrow> (live, Inl NothingPaid)
          | Some d \<Rightarrow> (case PlanFor (s_product s) (s_interval s) of
                None \<Rightarrow> (live, Inl NoPlan)
              | Some p \<Rightarrow> (live, Inr (add_date (midnight d) 0 0 (pl_grace_days p)))))) }"

definition Entitlement :: "string \<Rightarrow> ('z world_scheme, ent_error + instant) state" where
  "Entitlement sid = do {
     (live, r) \<leftarrow> paidThrough sid;
     State_Monad.return
       (if \<exists>e. r = Inl e \<and> e \<noteq> NothingPaid then r
        else if \<not> live then Inl NoRows
        else r) }"

definition EntitlementByToken :: "string \<Rightarrow> ('z world_scheme, ent_error + instant) state" where
  "EntitlementByToken token = do {
     r \<leftarrow> row (\<lambda>w. map_option l_sub (find_licence token w));
     (case r of
        None \<Rightarrow> State_Monad.return (Inl QueryFailed)
      | Some sid \<Rightarrow> Entitlement sid) }"

datatype lic_status = StatusPaid | StatusExpiring | StatusLapsed | StatusCancelled | StatusRevoked

text \<open>The zero value of \<^verbatim>\<open>time.Time\<close>: 0001-01-01T00:00:00Z.\<close>

definition zero_time :: instant where "zero_time = -62135596800"

definition LicenceStatus :: "string \<Rightarrow> ('z world_scheme, ent_error + lic_status \<times> instant) state" where
  "LicenceStatus token = do {
     r \<leftarrow> row (\<lambda>w. Option.bind (find_licence token w) (\<lambda>l. map_option (Pair l) (find_sub (l_sub l) w)));
     (case r of
        None \<Rightarrow> State_Monad.return (Inl QueryFailed)
      | Some (l, s) \<Rightarrow> do {
          (_, p) \<leftarrow> paidThrough (l_sub l);
          (if \<exists>e. p = Inl e \<and> e \<noteq> NothingPaid
           then State_Monad.return (Inl (projl p))
           else let limit = (case p of Inl _ \<Rightarrow> zero_time | Inr t \<Rightarrow> t) in
             if l_revoked l \<noteq> None then State_Monad.return (Inr (StatusRevoked, limit))
             else if s_cancelled s \<noteq> None then State_Monad.return (Inr (StatusCancelled, limit))
             else do {
               q \<leftarrow> row (\<lambda>w. Some (has_open (l_sub l) w));
               t \<leftarrow> gets now;
               State_Monad.return (case q of
                 None \<Rightarrow> Inl QueryFailed
               | Some unpaid \<Rightarrow>
                   if limit > t then Inr (if unpaid then StatusExpiring else StatusPaid, limit)
                   else if unpaid \<and> l_until l > t then Inr (StatusExpiring, limit)
                   else Inr (StatusLapsed, limit)) }) }) }"

section \<open>The limit\<close>

text \<open>The limit as a function of the tables.\<close>

definition limit_of :: "subscription \<Rightarrow> 'z world_scheme \<Rightarrow> ent_error + instant" where
  "limit_of s w = (case paid_end (s_id s) w of
     None \<Rightarrow> Inl NothingPaid
   | Some d \<Rightarrow> (case PlanFor (s_product s) (s_interval s) of
         None \<Rightarrow> Inl NoPlan | Some p \<Rightarrow> Inr (midnight (d + pl_grace_days p))))"

definition live :: "subscription \<Rightarrow> bool" where
  "live s \<longleftrightarrow> s_status s = SubPaid \<and> s_cancelled s = None"

lemma find_sub_id: "find_sub sid w = Some s \<Longrightarrow> s_id s = sid \<and> s \<in> set (subs w)"
  by (auto simp: find_sub_def dest: find_Some_in)

lemma find_licence_token: "find_licence tok w = Some l \<Longrightarrow> l_rtoken l = tok \<and> l \<in> set (lics w)"
  by (auto simp: find_licence_def dest: find_Some_in)

lemma find_invoice_ref: "find_invoice ref w = Some i \<Longrightarrow> i_ref i = ref \<and> i \<in> set (invs w)"
  by (auto simp: find_invoice_def dest: find_Some_in)

text \<open>The lookups only read the tables.\<close>

lemma lookups_faults [simp]:
  "find_sub sid (w\<lparr>faults := t\<rparr>) = find_sub sid w" "find_licence tok (w\<lparr>faults := t\<rparr>) = find_licence tok w"
  "find_invoice ref (w\<lparr>faults := t\<rparr>) = find_invoice ref w" "invoices_of sid (w\<lparr>faults := t\<rparr>) = invoices_of sid w"
  "paid_end sid (w\<lparr>faults := t\<rparr>) = paid_end sid w" "last_end sid (w\<lparr>faults := t\<rparr>) = last_end sid w"
  "has_open sid (w\<lparr>faults := t\<rparr>) = has_open sid w" "limit_of s (w\<lparr>faults := t\<rparr>) = limit_of s w"
  by (simp_all add: find_sub_def find_licence_def find_invoice_def invoices_of_def paid_end_def last_end_def
      has_open_def limit_of_def)

lemma grace_midnight: "add_date (midnight d) 0 0 g = midnight (d + g)"
  by (simp add: add_date_days add_days_midnight)

lemma wp_paidThrough:
  assumes "\<And>t. Q (False, Inl QueryFailed) (w\<lparr>faults := t\<rparr>)"
    and "\<And>s t. find_sub sid w = Some s \<Longrightarrow> Q (live s, limit_of s w) (w\<lparr>faults := t\<rparr>)"
  shows "wp (paidThrough sid) Q w"
proof -
  have "Q (case x of (s, end) \<Rightarrow>
         (let live = (s_status s = SubPaid \<and> s_cancelled s = None) in
          case end of None \<Rightarrow> (live, Inl NothingPaid)
          | Some d \<Rightarrow> (case PlanFor (s_product s) (s_interval s) of
                None \<Rightarrow> (live, Inl NoPlan)
              | Some p \<Rightarrow> (live, Inr (add_date (midnight d) 0 0 (pl_grace_days p)))))) (w\<lparr>faults := t\<rparr>)"
    if "map_option (\<lambda>s. (s, paid_end sid w)) (find_sub sid w) = Some x" for x t
  proof -
    from that obtain s where s: "find_sub sid w = Some s" "x = (s, paid_end sid w)" by (auto split: option.splits)
    from find_sub_id [OF s(1)] have "s_id s = sid" by simp
    with assms(2) [OF s(1), of t] s(2) show ?thesis
      by (simp add: live_def limit_of_def Let_def grace_midnight split: option.splits)
  qed
  then show ?thesis unfolding paidThrough_def
    by (intro wp_intros) (simp_all add: assms(1))
qed

lemma wp_Entitlement:
  assumes "\<And>t e. Q (Inl e) (w\<lparr>faults := t\<rparr>)"
    and "\<And>s t x. find_sub sid w = Some s \<Longrightarrow> live s \<Longrightarrow> limit_of s w = Inr x \<Longrightarrow> Q (Inr x) (w\<lparr>faults := t\<rparr>)"
  shows "wp (Entitlement sid) Q w"
proof -
  have q: "Q (if \<exists>e. limit_of s w = Inl e \<and> e \<noteq> NothingPaid then limit_of s w
      else if \<not> live s then Inl NoRows else limit_of s w) (w\<lparr>faults := t\<rparr>)"
    if "find_sub sid w = Some s" for s t
    using assms(1) [where t = t] assms(2) [OF that, where t = t]
    by (cases "live s"; cases "limit_of s w") simp_all
  show ?thesis unfolding Entitlement_def wp_bind
  proof (rule wp_paidThrough, goal_cases)
    case (1 t)
    show ?case by (simp add: wp_return assms(1))
  next
    case (2 s t)
    then show ?case unfolding prod.case wp_return by (rule q)
  qed
qed

lemma wp_EntitlementByToken:
  assumes "\<And>t e. Q (Inl e) (w\<lparr>faults := t\<rparr>)"
    and "\<And>l s t x. find_licence tok w = Some l \<Longrightarrow> find_sub (l_sub l) w = Some s \<Longrightarrow> live s \<Longrightarrow>
      limit_of s w = Inr x \<Longrightarrow> Q (Inr x) (w\<lparr>faults := t\<rparr>)"
  shows "wp (EntitlementByToken tok) Q w"
  unfolding EntitlementByToken_def
  by (intro wp_intros wp_Entitlement) (auto simp: assms)

lemma run_Entitlement:
  "faults w = [] \<Longrightarrow> find_sub sid w = Some s \<Longrightarrow> live s \<Longrightarrow> run_state (Entitlement sid) w = (limit_of s w, w)"
  by (auto simp: Entitlement_def paidThrough_def run_simps live_def limit_of_def grace_midnight Let_def
      dest!: find_sub_id split: option.splits)

lemma run_EntitlementByToken:
  "faults w = [] \<Longrightarrow> find_licence tok w = Some l \<Longrightarrow> find_sub (l_sub l) w = Some s \<Longrightarrow> live s \<Longrightarrow>
   run_state (EntitlementByToken tok) w = (limit_of s w, w)"
  by (simp add: EntitlementByToken_def run_simps run_Entitlement)

lemma paid_end_Some:
  "paid_end sid w = Some d \<longleftrightarrow> (\<exists>i \<in> set (invs w). i_sub i = sid \<and> i_status i = InvPaid \<and> i_end i = d)
     \<and> (\<forall>j \<in> set (invs w). i_sub j = sid \<and> i_status j = InvPaid \<longrightarrow> i_end j \<le> d)"
  (is "?l \<longleftrightarrow> ?r")
proof -
  define xs where "xs = map i_end (filter (\<lambda>i. i_status i = InvPaid) (invoices_of sid w))"
  have set: "set xs = {i_end i | i. i \<in> set (invs w) \<and> i_sub i = sid \<and> i_status i = InvPaid}"
    by (auto simp: xs_def invoices_of_def)
  have "?l \<longleftrightarrow> max_of xs = Some d" by (simp add: paid_end_def xs_def)
  also have "\<dots> \<longleftrightarrow> d \<in> set xs \<and> (\<forall>x \<in> set xs. x \<le> d)"
    using max_of_in max_of_ge by (auto simp: max_of_Max intro!: Max_eqI)
  also have "\<dots> \<longleftrightarrow> ?r" unfolding set by auto
  finally show ?thesis .
qed

lemma limit_of_Inr:
  "limit_of s w = Inr t \<longleftrightarrow> (\<exists>p d. PlanFor (s_product s) (s_interval s) = Some p \<and> paid_end (s_id s) w = Some d
     \<and> t = midnight (d + pl_grace_days p))"
  by (auto simp: limit_of_def split: option.splits)

text \<open>A limit is covered by a paid invoice, with the day of the limit to spare.\<close>

lemma limit_covered:
  assumes "limit_of s w = Inr t" "s \<in> set (subs w)" "\<And>i. i \<in> set (invs w) \<Longrightarrow> invoice_good (subs w) i"
    and "l_sub l = s_id s" "l_until l = t"
  shows "covered (subs w) (invs w) l"
proof -
  from assms(1) obtain p d where p: "PlanFor (s_product s) (s_interval s) = Some p" "paid_end (s_id s) w = Some d"
    "t = midnight (d + pl_grace_days p)" by (auto simp: limit_of_Inr)
  from p(2) obtain i where i: "i \<in> set (invs w)" "i_sub i = s_id s" "i_status i = InvPaid" "i_end i = d"
    by (auto simp: paid_end_Some)
  with assms(3) [OF i(1)] have "i_paid i \<noteq> None" by (simp add: invoice_good_def)
  with p i assms(2,4,5) show ?thesis
    unfolding covered_def by (intro bexI [of _ s] bexI [of _ i] exI [of _ p]) (simp_all add: midnight_def)
qed

text \<open>C23: the signing limit is what was paid for. A subscription has a limit exactly when it is
  paid, not cancelled and of a plan on sale, and the limit is the end of the last period
  any settled invoice of it reaches, plus the plan's grace.\<close>

theorem entitlement_exact:
  assumes "faults w = []"
  shows "fst (run_state (Entitlement sid) w) = Inr t \<longleftrightarrow>
    (\<exists>s p i. find_sub sid w = Some s \<and> s_status s = SubPaid \<and> s_cancelled s = None \<and>
      PlanFor (s_product s) (s_interval s) = Some p \<and>
      i \<in> set (invs w) \<and> i_sub i = sid \<and> i_status i = InvPaid \<and>
      (\<forall>j \<in> set (invs w). i_sub j = sid \<and> i_status j = InvPaid \<longrightarrow> i_end j \<le> i_end i) \<and>
      t = midnight (i_end i + pl_grace_days p))"
proof (cases "find_sub sid w")
  case None
  then show ?thesis using assms by (simp add: Entitlement_def paidThrough_def run_simps)
next
  case (Some s)
  note id = find_sub_id [OF Some]
  show ?thesis
  proof (cases "live s")
    case True
    then show ?thesis using run_Entitlement [OF assms Some True] Some id
      by (auto simp: limit_of_Inr paid_end_Some live_def)
  next
    case False
    have "\<not> isl r \<Longrightarrow> False" if "r = fst (run_state (Entitlement sid) w)" for r
      using that assms Some False
      by (auto simp: Entitlement_def paidThrough_def run_simps live_def Let_def split: option.splits if_splits)
    then have "fst (run_state (Entitlement sid) w) \<noteq> Inr t" by fastforce
    with Some False show ?thesis by (auto simp: live_def)
  qed
qed

lemma run_LicenceStatus:
  assumes "faults w = []" "find_licence tok w = Some l" "find_sub (l_sub l) w = Some s"
    and "PlanFor (s_product s) (s_interval s) \<noteq> None"
  shows "run_state (LicenceStatus tok) w = (Inr (let limit = (case limit_of s w of Inl _ \<Rightarrow> zero_time | Inr t \<Rightarrow> t) in
     (if l_revoked l \<noteq> None then StatusRevoked else if s_cancelled s \<noteq> None then StatusCancelled
      else if limit > now w then (if has_open (l_sub l) w then StatusExpiring else StatusPaid)
      else if has_open (l_sub l) w \<and> l_until l > now w then StatusExpiring else StatusLapsed, limit)), w)"
proof -
  note id = find_sub_id [OF assms(3)]
  have "run_state (paidThrough (l_sub l)) w = ((live s, limit_of s w), w)"
    using assms id by (auto simp: paidThrough_def run_simps live_def limit_of_def grace_midnight Let_def
        split: option.splits)
  moreover have "\<not> (\<exists>e. limit_of s w = Inl e \<and> e \<noteq> NothingPaid)"
    using assms(4) by (auto simp: limit_of_def split: option.splits)
  ultimately show ?thesis using assms(1-3)
    by (auto simp: LicenceStatus_def run_simps Let_def split: sum.splits)
qed


theorem entitlement_exact_witness:
  "fst (run_state (Entitlement ''s1'') (sample_world 0 [sample_sub SubPaid None] [sample_invoice InvPaid] []))
     = Inr (midnight 36)"
proof -
  have f: "faults (sample_world 0 [sample_sub SubPaid None] [sample_invoice InvPaid] []) = []"
    by (simp add: sample_world_def)
  have "PlanFor ''pro'' ''month'' = Some pro_month" by (rule plans_simps)
  then show ?thesis
    by (subst entitlement_exact [OF f], unfold sample_lookups)
      (simp add: sample_defs pro_month_def)
qed


end
