(* ===== verification/Billing_Seats.thy ===== *)
theory Billing_Seats
  imports Billing_Entitlement
begin

text \<open>
  Handing out keys against a paid subscription (\<^verbatim>\<open>internal/billing/lexware/seats.go\<close>) and the
  self-service page in front of it (\<^verbatim>\<open>internal/billing/portal/portal.go\<close>). A seat is an
  organisation: its count is the number of distinct names among the licence rows.
\<close>

section \<open>Seats\<close>

fun collect :: "('a \<Rightarrow> ('s, 'b) state) \<Rightarrow> 'a list \<Rightarrow> ('s, 'b list) state" where
  "collect f [] = State_Monad.return []"
| "collect f (x # xs) = do { y \<leftarrow> f x; ys \<leftarrow> collect f xs; State_Monad.return (y # ys) }"

record seat_state =
  ss_company :: string
  ss_email :: string
  ss_plan :: string
  ss_quantity :: int
  ss_used :: int
  ss_free :: int
  ss_cancelled :: bool
  ss_licences :: "(licence \<times> lic_status option) list"

datatype seat_error =
    ErrNoSuchSubscription
  | ErrCancelled
  | ErrNoSeatsLeft
  | ErrOrgNameRequired
  | SeatQueryFailed
  | SeatEntitlement ent_error
  | SeatNotSigned "issue_error option"

text \<open>\<^verbatim>\<open>ORDER BY created_at DESC\<close>.\<close>

definition licences_newest_first :: "string \<Rightarrow> 'z world_scheme \<Rightarrow> licence list" where
  "licences_newest_first sid w = sort_key (\<lambda>l. - l_created l) (filter (\<lambda>l. l_sub l = sid) (lics w))"

definition seat_state_of :: "subscription \<Rightarrow> licence list \<Rightarrow> (ent_error + lic_status \<times> instant) list \<Rightarrow> seat_state" where
  "seat_state_of s rows statuses =
     (let used = int (length (remdups (map l_orgname rows))); free = s_quantity s - used in
      \<lparr>ss_company = s_company s, ss_email = s_email s,
       ss_plan = s_product s @ ''/'' @ s_interval s, ss_quantity = s_quantity s,
       ss_used = used, ss_free = (if free < 0 then 0 else free),
       ss_cancelled = (s_cancelled s \<noteq> None),
       ss_licences = zip rows (map (\<lambda>x. case x of Inl _ \<Rightarrow> None | Inr (st, _) \<Rightarrow> Some st) statuses)\<rparr>)"

text \<open>\<^verbatim>\<open>Seats.State\<close>. A status that cannot be computed is left empty.\<close>

definition State_seats :: "string \<Rightarrow> ('z world_scheme, seat_error + seat_state) state" where
  "State_seats sid = do {
     r \<leftarrow> row (\<lambda>w. case find_sub sid w of None \<Rightarrow> None
       | Some s \<Rightarrow> if s_status s = SubPaid then Some s else None);
     (case r of
        None \<Rightarrow> State_Monad.return (Inl ErrNoSuchSubscription)
      | Some s \<Rightarrow> do {
          q \<leftarrow> db (licences_newest_first sid);
          (case q of
             None \<Rightarrow> State_Monad.return (Inl SeatQueryFailed)
           | Some rows \<Rightarrow> do {
               statuses \<leftarrow> collect (\<lambda>l. LicenceStatus (l_rtoken l)) rows;
               State_Monad.return (Inr (seat_state_of s rows statuses)) }) }) }"

text \<open>\<^verbatim>\<open>Seats.Issue\<close>: the issued row and whether its mail went out.\<close>

definition Issue_seat :: "deployment \<Rightarrow> string \<Rightarrow> string \<Rightarrow> string \<Rightarrow> string
    \<Rightarrow> ('z world_scheme, seat_error + (string \<times> string \<times> instant \<times> string) \<times> bool) state" where
  "Issue_seat E sid orgName sendTo by_whom =
     (if orgName = '''' then State_Monad.return (Inl ErrOrgNameRequired)
      else do {
        r \<leftarrow> State_seats sid;
        (case r of
           Inl e \<Rightarrow> State_Monad.return (Inl e)
         | Inr st \<Rightarrow>
             if ss_cancelled st then State_Monad.return (Inl ErrCancelled)
             else if \<not> list_ex (\<lambda>(l, _). l_orgname l = orgName) (ss_licences st) \<and> ss_free st \<le> 0
             then State_Monad.return (Inl ErrNoSeatsLeft)
             else do {
               p \<leftarrow> row (\<lambda>w. map_option s_interval (find_sub sid w));
               (case p of
                  None \<Rightarrow> State_Monad.return (Inl SeatQueryFailed)
                | Some interval \<Rightarrow> do {
                    e \<leftarrow> Entitlement sid;
                    (case e of
                       Inl x \<Rightarrow> State_Monad.return (Inl (SeatEntitlement x))
                     | Inr entitledTo \<Rightarrow> do {
                         let to = (if sendTo = '''' then ss_email st else sendTo);
                         t \<leftarrow> insert_licence E sid orgName entitledTo Seat (''issued by '' @ by_whom);
                         (case t of
                            None \<Rightarrow> State_Monad.return (Inl SeatQueryFailed)
                          | Some token \<Rightarrow> do {
                              (key, mailErr) \<leftarrow> IssueUntil (d_crypto E) (d_issuer E)
                                (ForSeat (ForLicence token orgName to interval)) entitledTo '''' '''';
                              (if key = '''' then do {
                                 _ \<leftarrow> exec (\<lambda>w. w\<lparr>lics := filter (\<lambda>l. l_rtoken l \<noteq> token) (lics w)\<rparr>);
                                 State_Monad.return (Inl (SeatNotSigned mailErr)) }
                               else do {
                                 _ \<leftarrow> exec (update_licence token (\<lambda>l. l\<lparr>l_key := key\<rparr>));
                                 State_Monad.return (Inr ((orgName, key, entitledTo, token), mailErr = None)) }) }) }) }) }) })"

text \<open>An UPDATE that reports the number of rows it changed; \<^term>\<open>None\<close> when it failed.\<close>

definition exec_count :: "('e effects_scheme \<Rightarrow> nat) \<Rightarrow> ('e effects_scheme \<Rightarrow> 'e effects_scheme)
    \<Rightarrow> ('e effects_scheme, nat option) state" where
  "exec_count n f = do { ok \<leftarrow> attempt;
     if \<not> ok then State_Monad.return None
     else do { k \<leftarrow> gets n; modify f; State_Monad.return (Some k) } }"

text \<open>\<^verbatim>\<open>Seats.Revoke\<close>; \<^term>\<open>True\<close> for no error.\<close>

definition Revoke :: "string \<Rightarrow> ('z world_scheme, bool) state" where
  "Revoke token = do {
     t \<leftarrow> gets now;
     n \<leftarrow> exec_count (\<lambda>w. count_where (\<lambda>l. l_rtoken l = token \<and> l_revoked l = None) (lics w))
       (\<lambda>w. w\<lparr>lics := update_where (\<lambda>l. l_rtoken l = token \<and> l_revoked l = None)
          (\<lambda>l. l\<lparr>l_revoked := Some t\<rparr>) (lics w)\<rparr>);
     State_Monad.return (case n of None \<Rightarrow> False | Some k \<Rightarrow> k \<noteq> 0) }"

section \<open>The portal\<close>

definition trim_right :: "char \<Rightarrow> string \<Rightarrow> string" where
  "trim_right c s = rev (dropWhile (\<lambda>x. x = c) (rev s))"

text \<open>Every candidate is compared; a later match overwrites an earlier one.\<close>

definition resolve :: "deployment \<Rightarrow> string \<Rightarrow> ('z world_scheme, string option) state" where
  "resolve E token =
     (if length token \<noteq> 64 then State_Monad.return None
      else do {
        rows \<leftarrow> db (\<lambda>w. filter (\<lambda>s. s_portal_hash s \<noteq> None \<and> s_status s = SubPaid \<and> s_cancelled s = None) (subs w));
        State_Monad.return (case rows of
          None \<Rightarrow> None
        | Some ss \<Rightarrow>
            (let found = fold (\<lambda>s f. if s_portal_hash s = Some (d_hash E token) then s_id s else f) ss ''''
             in if found = '''' then None else Some found)) })"

datatype portal_reply =
    PortalNotFound
  | PortalRefused seat_error
  | PortalIssuedUnmailed string
  | PortalIssued string

definition IssueSeat :: "deployment \<Rightarrow> string \<Rightarrow> string \<Rightarrow> string \<Rightarrow> ('z world_scheme, portal_reply) state" where
  "IssueSeat E token orgName email = do {
     r \<leftarrow> resolve E token;
     (case r of
        None \<Rightarrow> State_Monad.return PortalNotFound
      | Some sid \<Rightarrow> do {
          res \<leftarrow> Issue_seat E sid orgName email ''MSP-Portal'';
          State_Monad.return (case res of
            Inl e \<Rightarrow> PortalRefused e
          | Inr ((org, _), mailed) \<Rightarrow> if mailed then PortalIssued org else PortalIssuedUnmailed orgName) }) }"

text \<open>What a customer reads for a refusal: never the raw error.\<close>

datatype portal_message = MsgNoSeats | MsgOrgName | MsgCancelled | MsgGeneric

definition msg :: "seat_error \<Rightarrow> portal_message" where
  "msg e = (case e of ErrNoSeatsLeft \<Rightarrow> MsgNoSeats | ErrOrgNameRequired \<Rightarrow> MsgOrgName
     | ErrCancelled \<Rightarrow> MsgCancelled | _ \<Rightarrow> MsgGeneric)"

text \<open>The page: per licence the name, the key, the status, the date and whether it has passed,
  whether it is revoked and when the instance last reported, if ever.\<close>

record licenceView =
  lv_org :: string
  lv_key :: string
  lv_token :: string
  lv_status :: "lic_status option"
  lv_expires :: string
  lv_expired :: bool
  lv_seen :: "string option"
  lv_revoked :: bool

record seatView =
  sv_company :: string
  sv_plan :: string
  sv_quantity :: int
  sv_used :: int
  sv_free :: int
  sv_licences :: "licenceView list"

definition view :: "string \<Rightarrow> ('z world_scheme, seatView option) state" where
  "view sid = do {
     r \<leftarrow> State_seats sid;
     t \<leftarrow> gets now;
     State_Monad.return (case r of
       Inl _ \<Rightarrow> None
     | Inr st \<Rightarrow> Some \<lparr>sv_company = ss_company st, sv_plan = ss_plan st, sv_quantity = ss_quantity st,
         sv_used = ss_used st, sv_free = ss_free st,
         sv_licences = map (\<lambda>(l, s). \<lparr>lv_org = l_orgname l, lv_key = l_key l, lv_token = l_rtoken l,
           lv_status = s, lv_expires = fmt_german (l_until l), lv_expired = (l_until l < t),
           lv_seen = map_option fmt_german (l_seen l), lv_revoked = (l_revoked l \<noteq> None)\<rparr>) (ss_licences st)\<rparr>) }"

definition Show :: "deployment \<Rightarrow> string \<Rightarrow> ('z world_scheme, seatView option) state" where
  "Show E token = do {
     r \<leftarrow> resolve E token;
     (case r of None \<Rightarrow> State_Monad.return None | Some sid \<Rightarrow> view sid) }"

text \<open>\<^verbatim>\<open>rand.Read\<close> and the hex encoding.\<close>

definition rand_hex :: "deployment \<Rightarrow> ('z world_scheme, string option) state" where
  "rand_hex E = do { ok \<leftarrow> attempt;
     if ok then do { x \<leftarrow> draw (d_random E); State_Monad.return (Some x) } else State_Monad.return None }"

definition NewPortalToken :: "deployment \<Rightarrow> string \<Rightarrow> string \<Rightarrow> ('z world_scheme, string option) state" where
  "NewPortalToken E sid baseURL = do {
     r \<leftarrow> rand_hex E;
     (case r of
        None \<Rightarrow> State_Monad.return None
      | Some token \<Rightarrow> do {
          ok \<leftarrow> exec (update_sub sid (\<lambda>s. s\<lparr>s_portal_hash := Some (d_hash E token)\<rparr>));
          State_Monad.return (if ok then Some (trim_right CHR ''/'' baseURL @ ''/'' @ token) else None) }) }"

section \<open>Walking the operations\<close>

text \<open>A program that only reads leaves everything but the tape, and an empty tape empty.\<close>

definition reads :: "('e effects_scheme, 'a) state \<Rightarrow> bool" where
  "reads m \<longleftrightarrow> (\<forall>w. \<exists>t. snd (run_state m w) = w\<lparr>faults := t\<rparr> \<and> (faults w = [] \<longrightarrow> t = []))"

lemma wp_reads: "reads m \<Longrightarrow> (\<And>r t. Q r (w\<lparr>faults := t\<rparr>)) \<Longrightarrow> wp m Q w"
  unfolding reads_def wp_def by (cases "run_state m w") (metis prod.case snd_conv)

lemma run_reads:
  assumes "reads m" "faults w = []"
  shows "run_state m w = (fst (run_state m w), w)"
proof -
  have "w\<lparr>faults := []\<rparr> = w" using assms(2) by simp
  with assms show ?thesis unfolding reads_def by (metis prod.collapse)
qed

named_theorems reads_rules \<open>closure rules of programs that only read\<close>

lemma reads_bind [reads_rules]:
  assumes "reads m" "\<And>a. reads (f a)"
  shows "reads (State_Monad.bind m f)"
  unfolding reads_def
proof
  fix w
  obtain a u where m: "run_state m w = (a, u)" by fastforce
  with assms(1) obtain t where t: "u = w\<lparr>faults := t\<rparr>" "faults w = [] \<longrightarrow> t = []"
    unfolding reads_def by (metis snd_conv)
  from assms(2) obtain t' where "snd (run_state (f a) u) = u\<lparr>faults := t'\<rparr>" "faults u = [] \<longrightarrow> t' = []"
    unfolding reads_def by metis
  with m t show "\<exists>t. snd (run_state (State_Monad.bind m f) w) = w\<lparr>faults := t\<rparr> \<and> (faults w = [] \<longrightarrow> t = [])"
    by (intro exI [of _ t']) (simp add: run_simps)
qed

lemma reads_pure:
  assumes "\<And>w. snd (run_state m w) = w"
  shows "reads m"
  unfolding reads_def
proof
  show "\<exists>t. snd (run_state m w) = w\<lparr>faults := t\<rparr> \<and> (faults w = [] \<longrightarrow> t = [])" for w
    by (rule exI [of _ "faults w"]) (simp add: assms)
qed

lemma reads_return [reads_rules]: "reads (State_Monad.return a)"
  and reads_gets [reads_rules]: "reads (gets f)"
  by (rule reads_pure, simp add: run_simps)+

lemma reads_db [reads_rules]: "reads (db f)"
  unfolding reads_def
proof
  fix w :: "'a effects_scheme"
  show "\<exists>t. snd (run_state (db f) w) = w\<lparr>faults := t\<rparr> \<and> (faults w = [] \<longrightarrow> t = [])"
    by (cases "faults w") (auto simp: db_def run_simps intro: exI [of _ "faults w"])
qed

lemma reads_row [reads_rules]: "reads (row f)"
  unfolding row_def by (intro reads_rules)

lemma reads_if [reads_rules]: "reads m \<Longrightarrow> reads n \<Longrightarrow> reads (if b then m else n)"
  by simp

lemma reads_option [reads_rules]:
  "reads m \<Longrightarrow> (\<And>x. reads (f x)) \<Longrightarrow> reads (case v of None \<Rightarrow> m | Some x \<Rightarrow> f x)"
  by (cases v) simp_all

lemma reads_sum [reads_rules]:
  "(\<And>x. reads (f x)) \<Longrightarrow> (\<And>x. reads (g x)) \<Longrightarrow> reads (case v of Inl x \<Rightarrow> f x | Inr x \<Rightarrow> g x)"
  by (cases v) simp_all

lemma reads_prod [reads_rules]: "(\<And>a b. reads (f a b)) \<Longrightarrow> reads (case v of (a, b) \<Rightarrow> f a b)"
  by (cases v) simp_all

lemma reads_paidThrough [reads_rules]: "reads (paidThrough sid)"
  unfolding paidThrough_def by (intro reads_rules)

lemma reads_LicenceStatus [reads_rules]: "reads (LicenceStatus tok)"
  unfolding LicenceStatus_def Let_def by (intro reads_rules)

lemma wp_collect:
  assumes "\<And>x. reads (f x)" "\<And>ys t. length ys = length xs \<Longrightarrow> Q ys (w\<lparr>faults := t\<rparr>)"
  shows "wp (collect f xs) Q w"
  using assms(2)
proof (induction xs arbitrary: Q w)
  case Nil
  have "Q [] w" using Nil [of "[]" "faults w"] by simp
  then show ?case by (simp add: wp_return)
next
  case (Cons x xs)
  show ?case unfolding collect.simps wp_bind
    by (intro wp_reads [OF assms(1)] Cons.IH) (simp add: wp_return Cons.prems)
qed

definition seats_of :: "string \<Rightarrow> 'z world_scheme \<Rightarrow> seat_state \<Rightarrow> subscription \<Rightarrow> bool" where
  "seats_of sid w st s \<longleftrightarrow> find_sub sid w = Some s \<and> s_status s = SubPaid \<and>
     ss_company st = s_company s \<and> ss_email st = s_email s \<and> ss_quantity st = s_quantity s \<and>
     ss_used st = int (card (orgs_of (lics w) sid)) \<and> ss_free st = max 0 (s_quantity s - ss_used st) \<and>
     (ss_cancelled st \<longleftrightarrow> s_cancelled s \<noteq> None) \<and>
     map fst (ss_licences st) = licences_newest_first sid w"

lemma seats_card: "length (remdups (map l_orgname (licences_newest_first sid w))) = card (orgs_of (lics w) sid)"
  by (simp add: length_remdups_card_conv licences_newest_first_def orgs_of_def)

lemma wp_State_seats:
  assumes "\<And>t e. e = ErrNoSuchSubscription \<or> e = SeatQueryFailed \<Longrightarrow> Q (Inl e) (w\<lparr>faults := t\<rparr>)"
    and "\<And>t st s. seats_of sid w st s \<Longrightarrow> Q (Inr st) (w\<lparr>faults := t\<rparr>)"
  shows "wp (State_seats sid) Q w"
proof -
  have l: "licences_newest_first sid (w\<lparr>faults := t\<rparr>) = licences_newest_first sid w" for t
    by (simp add: licences_newest_first_def)
  let ?rows = "licences_newest_first sid w"
  have key: "seats_of sid w (seat_state_of s ?rows xs) s"
    if "find_sub sid w = Some s" "s_status s = SubPaid" "length xs = length ?rows" for s xs
    using that by (simp add: seats_of_def seat_state_of_def seats_card Let_def)
  have sel: "find_sub sid w = Some x \<and> s_status x = SubPaid"
    if "(case find_sub sid (w\<lparr>faults := t\<rparr>) of None \<Rightarrow> None | Some s \<Rightarrow> if s_status s = SubPaid then Some s else None) = Some x"
    for x t using that by (auto split: option.splits if_splits)
  show ?thesis unfolding State_seats_def Let_def
    by (intro wp_intros wp_collect reads_LicenceStatus)
      (use sel in \<open>auto simp: l wp_return intro!: assms(1) assms(2) [OF key]\<close>)
qed

lemma free_seat:
  assumes "seats_of sid w st s" "list_ex (\<lambda>(l, _). l_orgname l = org) (ss_licences st) \<or> 0 < ss_free st"
  shows "org \<in> orgs_of (lics w) sid \<or> int (card (orgs_of (lics w) sid)) < s_quantity s"
proof (cases "list_ex (\<lambda>(l, _). l_orgname l = org) (ss_licences st)")
  case True
  then obtain l x where "(l, x) \<in> set (ss_licences st)" "l_orgname l = org"
    by (auto simp: list_ex_iff)
  then have "l \<in> set (map fst (ss_licences st))" "l_orgname l = org" by force+
  moreover have "set (map fst (ss_licences st)) = {l \<in> set (lics w). l_sub l = sid}"
    using assms(1) by (simp add: seats_of_def licences_newest_first_def)
  ultimately show ?thesis by (auto simp: orgs_of_def)
next
  case False
  with assms show ?thesis by (auto simp: seats_of_def max_def split: if_splits)
qed

text \<open>\<open>Issue_seat\<close> as a whole: whatever fails, it ends with the licence rows as they were, with a
  row without a key, or with a row that carries a good key for the organisation, expiring at
  the limit; nothing else of the ledger changes.\<close>

definition seat_row :: "deployment \<Rightarrow> string \<Rightarrow> string \<Rightarrow> 'z world_scheme \<Rightarrow> licence \<Rightarrow> bool" where
  "seat_row E sid org w l \<longleftrightarrow> (\<exists>s. find_sub sid w = Some s \<and> live s \<and> limit_of s w = Inr (l_until l) \<and>
     (org \<in> orgs_of (lics w) sid \<or> int (card (orgs_of (lics w) sid)) < s_quantity s)) \<and>
     l_rtoken l \<notin> l_rtoken ` set (lics w) \<and> l_sub l = sid \<and> l_orgname l = org \<and> l_kind l = Seat \<and>
     l_revoked l = None \<and> l_created l = now w"

lemma filter_new: "tok \<notin> l_rtoken ` set L \<Longrightarrow> filter (\<lambda>m. l_rtoken m \<noteq> tok) L = L"
  by (auto simp: filter_id_conv)

lemma update_new:
  assumes "tok \<notin> l_rtoken ` set L" "l_rtoken l = tok"
  shows "update_where (\<lambda>m. l_rtoken m = tok) f (L @ [l]) = L @ [f l]"
proof -
  have "map (\<lambda>m. if l_rtoken m = tok then f m else m) L = L"
    by (rule map_idI) (use assms(1) in auto)
  then show ?thesis using assms(2) by (simp add: update_where_def)
qed

lemma wp_Issue_seat:
  assumes same: "\<And>u e. quiet w u \<Longrightarrow> Q (Inl e) u"
    and row: "\<And>u l e. seat_row E sid org w l \<Longrightarrow> l_key l = '''' \<Longrightarrow> quiet (w\<lparr>lics := lics w @ [l]\<rparr>) u \<Longrightarrow> Q (Inl e) u"
    and key: "\<And>u l m r ts. seat_row E sid org w l \<Longrightarrow> l_key l \<noteq> '''' \<Longrightarrow>
      SignUntil (d_crypto E) (d_issuer E) (now w) r (l_until l) = Inr (l_key l) \<Longrightarrow>
      rq_token r = l_rtoken l \<Longrightarrow> rq_orgname r = org \<Longrightarrow> ts = [l] \<or> ts = [l\<lparr>l_key := ''''\<rparr>] \<Longrightarrow>
      quiet (w\<lparr>lics := lics w @ ts\<rparr>) u \<Longrightarrow> Q (Inr ((org, l_key l, l_until l, l_rtoken l), m)) u"
  shows "wp (Issue_seat E sid org sendTo who) Q w"
proof -
  have issue: "wp (IssueUntil (d_crypto E) (d_issuer E) (ForSeat (ForLicence tok org to interval)) x '''' '''')
      (\<lambda>a. wp (case a of (key, mailErr) \<Rightarrow> if key = '''' then do {
          _ \<leftarrow> exec (\<lambda>w. w\<lparr>lics := filter (\<lambda>l. l_rtoken l \<noteq> tok) (lics w)\<rparr>);
          State_Monad.return (Inl (SeatNotSigned mailErr)) }
        else do {
          _ \<leftarrow> exec (update_licence tok (\<lambda>l. l\<lparr>l_key := key\<rparr>));
          State_Monad.return (Inr ((org, key, x, tok), mailErr = None)) }) Q) v"
    if s: "\<exists>s. find_sub sid w = Some s \<and> live s \<and> limit_of s w = Inr x \<and>
        (org \<in> orgs_of (lics w) sid \<or> int (card (orgs_of (lics w) sid)) < s_quantity s)"
      and new: "tok \<notin> l_rtoken ` set (lics w)"
      and v: "quiet (w\<lparr>lics := lics w @ [new_licence sid org x Seat (''issued by '' @ who) tok (now w)]\<rparr>) v"
    for x tok to interval v
  proof -
    define l where "l = new_licence sid org x Seat (''issued by '' @ who) tok (now w)"
    note v = v [folded l_def] and l = l_def new
    have sr: "seat_row E sid org w (l\<lparr>l_key := k\<rparr>)" for k
      using s l by (auto simp: seat_row_def)
    have l0: "l\<lparr>l_key := ''''\<rparr> = l" using l(1) by (simp add: new_licence_def)
    have tok: "l_rtoken l = tok" "l_until l = x" "l_key l = ''''" using l by simp_all
    have lv: "lics v = lics w @ [l]" "now v = now w" using v by (simp_all add: quiet_def)

    have upd: "update_where (\<lambda>m. l_rtoken m = tok) f (lics w @ [l]) = lics w @ [f l]" for f
      by (rule update_new [OF l(2) tok(1)])
    let ?r = "ForSeat (ForLicence tok org to interval)"
    have r: "rq_token ?r = tok" "rq_orgname ?r = org" by (simp_all add: ForSeat_def ForLicence_def)
    have keyed: "Q (Inr ((org, k, x, tok), m)) u"
      if k: "SignUntil (d_crypto E) (d_issuer E) (now w) ?r x = Inr k" "k \<noteq> ''''"
        and u: "quiet (w\<lparr>lics := lics w @ [l\<lparr>l_key := k\<rparr>]\<rparr>) u \<or> quiet (w\<lparr>lics := lics w @ [l]\<rparr>) u" for k m u
      using key [OF sr [of k], where r = ?r and m = m and ts = "[l\<lparr>l_key := k\<rparr>]" and u = u]
        key [OF sr [of k], where r = ?r and m = m and ts = "[l]" and u = u] k u r tok l0 by auto
    have failed: "Q (Inl e) u" if "quiet w u \<or> quiet (w\<lparr>lics := lics w @ [l]\<rparr>) u" for e u
      using that same row [OF sr [of "''''", unfolded l0] tok(3)] by blast
    have gone: "quiet w (v\<lparr>faults := t, lics := lics w\<rparr>)"
      "quiet w (v\<lparr>faults := t, outbox := ob, lics := lics w\<rparr>)" for t ob
      using v lv by (simp_all add: quiet_lics)
    have signed: "quiet (w\<lparr>lics := lics w @ [m]\<rparr>) (v\<lparr>faults := t, outbox := ob, lics := lics w @ [m]\<rparr>)" for m t ob
      using v lv by (simp add: quiet_lics)
    show ?thesis
      by (intro wp_intros wp_IssueUntil)
        (simp_all add: update_licence_def lv upd filter_new [OF l(2)] tok v failed keyed gone signed)
  qed
  show ?thesis unfolding Issue_seat_def Let_def
  proof (intro wp_consts wp_intros wp_State_seats, goal_cases)
    case (6 t st s ta interval)
    then have seat: "org \<in> orgs_of (lics w) sid \<or> int (card (orgs_of (lics w) sid)) < s_quantity s"
      by (intro free_seat [of sid w st]) auto
    from 6(2) have "find_sub sid w = Some s" by (simp add: seats_of_def)
    with seat show ?case
      by (intro wp_consts wp_intros wp_Entitlement issue) (auto simp: licence_ok_def quiet_lics intro!: same)
  qed (auto intro!: same)
qed


subsection \<open>The ledger stays consistent\<close>

lemma seat_row_sub:
  assumes "seat_row E sid org w l"
  shows "\<exists>s \<in> set (subs w). s_id s = sid \<and> live s \<and> limit_of s w = Inr (l_until l) \<and>
    (org \<in> orgs_of (lics w) sid \<or> int (card (orgs_of (lics w) sid)) < s_quantity s)"
  using assms find_sub_id unfolding seat_row_def by blast

lemma ledger_ok_seat_row:
  assumes ok: "ledger_ok E w" and l: "seat_row E sid org w l" "l_key l = ''''"
  shows "ledger_ok E (w\<lparr>lics := lics w @ [l]\<rparr>)"
proof -
  from seat_row_sub [OF l(1)] obtain s where s: "s \<in> set (subs w)" "s_id s = sid" "live s"
    "org \<in> orgs_of (lics w) sid \<or> int (card (orgs_of (lics w) sid)) < s_quantity s" by blast
  have "store_ok (d_crypto E) (subs w) (invs w) (lics w @ [l])"
    by (rule store_ok_insert_licence [where x = s])
      (use ok l s in \<open>simp_all add: ledger_ok_def seat_row_def live_def\<close>)
  then show ?thesis by (simp add: ledger_ok_def)
qed

lemma ledger_ok_seat_key:
  assumes ok: "ledger_ok E w" "good_deployment E" and l: "seat_row E sid org w l"
    and k: "SignUntil (d_crypto E) (d_issuer E) (now w) r (l_until l) = Inr (l_key l)"
      "rq_token r = l_rtoken l" "rq_orgname r = org"
  shows "ledger_ok E (w\<lparr>lics := lics w @ [l]\<rparr>)"
proof -
  have base: "store_ok (d_crypto E) (subs w) (invs w) (lics w)" using ok(1) by (simp add: ledger_ok_def)
  from seat_row_sub [OF l] obtain s where s: "s \<in> set (subs w)" "s_id s = sid" "live s" "limit_of s w = Inr (l_until l)"
    "org \<in> orgs_of (lics w) sid \<or> int (card (orgs_of (lics w) sid)) < s_quantity s" by blast
  have "l_sub l = s_id s" "l_orgname l = org" using l s(2) by (simp_all add: seat_row_def)
  then have "covered (subs w) (invs w) l" "key_good (d_crypto E) l"
    using limit_covered [OF s(4,1) store_okD(8) [OF base]] SignUntil_good(1) [OF _ k(1,2)] ok(2) k(3)
    by (simp_all add: good_deployment_def)
  with base l s show ?thesis unfolding ledger_ok_def
    by (auto simp: seat_row_def live_def intro!: store_ok_insert_licence [where x = s])
qed

lemma keeps_Issue_seat: "good_deployment E \<Longrightarrow> keeps (ledger_ok E) (Issue_seat E sid org sendTo who)"
proof (intro keepsI wp_Issue_seat)
  fix w :: "'a world_scheme" and u l e m r ts
  assume g: "good_deployment E" and ok: "ledger_ok E w"
  show "ledger_ok E u" if "quiet w u" using ledger_ok_same [OF that] ok by simp
  show "ledger_ok E u" if "seat_row E sid org w l" "l_key l = ''''" "quiet (w\<lparr>lics := lics w @ [l]\<rparr>) u"
    using ledger_ok_same [OF that(3)] ledger_ok_seat_row [OF ok that(1,2)] by simp
  show "ledger_ok E u" if l: "seat_row E sid org w l" "l_key l \<noteq> ''''"
    "SignUntil (d_crypto E) (d_issuer E) (now w) r (l_until l) = Inr (l_key l)"
    "rq_token r = l_rtoken l" "rq_orgname r = org" "ts = [l] \<or> ts = [l\<lparr>l_key := ''''\<rparr>]"
    "quiet (w\<lparr>lics := lics w @ ts\<rparr>) u"
  proof -
    have "seat_row E sid org w (l\<lparr>l_key := ''''\<rparr>)" using l(1) by (simp add: seat_row_def)
    then have "ledger_ok E (w\<lparr>lics := lics w @ ts\<rparr>)"
      using ledger_ok_seat_row [OF ok] ledger_ok_seat_key [OF ok g l(1,3-5)] l(6) by auto
    then show ?thesis using ledger_ok_same [OF l(7)] by simp
  qed
qed

lemma fold_match:
  "fold (\<lambda>s f. if P s then g s else f) ss x = x \<or> (\<exists>s \<in> set ss. P s \<and> fold (\<lambda>s f. if P s then g s else f) ss x = g s)"
proof (induction ss arbitrary: x)
  case (Cons s ss)
  from Cons [of "if P s then g s else x"] show ?case by (cases "P s") auto
qed simp

lemma wp_resolve:
  assumes none: "\<And>t. Q None (w\<lparr>faults := t\<rparr>)"
    and owner: "\<And>t s. length token = 64 \<Longrightarrow> s \<in> set (subs w) \<Longrightarrow> s_portal_hash s = Some (d_hash E token) \<Longrightarrow> live s \<Longrightarrow>
      Q (Some (s_id s)) (w\<lparr>faults := t\<rparr>)"
  shows "wp (resolve E token) Q w"
proof (cases "length token = 64")
  case True
  let ?ss = "filter (\<lambda>s. s_portal_hash s \<noteq> None \<and> s_status s = SubPaid \<and> s_cancelled s = None) (subs w)"
  define x where "x = fold (\<lambda>s f. if s_portal_hash s = Some (d_hash E token) then s_id s else f) ?ss ''''"
  have "x = '''' \<or> (\<exists>s \<in> set ?ss. s_portal_hash s = Some (d_hash E token) \<and> x = s_id s)"
    unfolding x_def by (rule fold_match)
  then have "x \<noteq> '''' \<longrightarrow> Q (Some x) (w\<lparr>faults := t\<rparr>)" for t
    using owner [OF True] by (auto simp: live_def)
  note q = this [unfolded x_def]
  from True none show ?thesis unfolding resolve_def
    by (simp only: simp_thms if_False if_True) (intro wp_intros; use q in \<open>simp add: Let_def\<close>)
next
  case False
  then show ?thesis using none [of "faults w"] by (simp add: resolve_def wp_return)
qed

lemma reads_resolve [reads_rules]: "reads (resolve E token)"
  unfolding resolve_def by (intro reads_rules)

lemma reads_collect [reads_rules]: "(\<And>x. reads (f x)) \<Longrightarrow> reads (collect f xs)"
  by (induction xs) (simp_all add: reads_bind reads_return)

lemma reads_State_seats [reads_rules]: "reads (State_seats sid)"
  unfolding State_seats_def by (intro reads_rules)

lemma keeps_wp: "keeps I m \<Longrightarrow> I w \<Longrightarrow> wp m (\<lambda>_. I) w"
  by (simp add: keeps_def hoare_def)

lemma wp_IssueSeat:
  assumes "\<And>r t. Q r (w\<lparr>faults := t\<rparr>)"
    and "\<And>t s. length token = 64 \<Longrightarrow> s \<in> set (subs w) \<Longrightarrow> s_portal_hash s = Some (d_hash E token) \<Longrightarrow> live s \<Longrightarrow>
      wp (Issue_seat E (s_id s) org email ''MSP-Portal'') (\<lambda>r u. \<forall>x. (case r of Inl e \<Rightarrow> x = PortalRefused e
          | Inr ((org', _), mailed) \<Rightarrow> x = (if mailed then PortalIssued org' else PortalIssuedUnmailed org)) \<longrightarrow> Q x u)
        (w\<lparr>faults := t\<rparr>)"
  shows "wp (IssueSeat E token org email) Q w"
  unfolding IssueSeat_def wp_bind
proof (rule wp_resolve)
  fix t s
  assume s: "length token = 64" "s \<in> set (subs w)" "s_portal_hash s = Some (d_hash E token)" "live s"
  show "wp (case Some (s_id s) of None \<Rightarrow> State_Monad.return PortalNotFound | Some sid \<Rightarrow> do {
          res \<leftarrow> Issue_seat E sid org email ''MSP-Portal'';
          State_Monad.return (case res of Inl e \<Rightarrow> PortalRefused e
          | Inr ((org', _), mailed) \<Rightarrow> if mailed then PortalIssued org' else PortalIssuedUnmailed org) }) Q (w\<lparr>faults := t\<rparr>)"
    unfolding option.case wp_bind
    by (rule wp_mono [OF assms(2) [OF s]]) (auto simp: wp_return split: sum.splits prod.splits)
qed (simp add: wp_return assms(1))

lemma keeps_IssueSeat: "good_deployment E \<Longrightarrow> keeps (ledger_ok E) (IssueSeat E token org email)"
proof (rule keepsI, rule wp_IssueSeat)
  fix w :: "'a world_scheme" and t s
  assume g: "good_deployment E" "ledger_ok E w"
  have "wp (Issue_seat E (s_id s) org email ''MSP-Portal'') (\<lambda>_. ledger_ok E) (w\<lparr>faults := t\<rparr>)"
    by (rule keeps_wp [OF keeps_Issue_seat [OF g(1)]]) (simp add: g(2))
  then show "wp (Issue_seat E (s_id s) org email ''MSP-Portal'') (\<lambda>r u. \<forall>x. (case r of Inl e \<Rightarrow> x = PortalRefused e
          | Inr ((org', _), mailed) \<Rightarrow> x = (if mailed then PortalIssued org' else PortalIssuedUnmailed org)) \<longrightarrow> ledger_ok E u)
        (w\<lparr>faults := t\<rparr>)" by (rule wp_mono) simp
qed simp

lemma update_where_conj:
  "update_where (\<lambda>x. P x \<and> R x) f xs = update_where P (\<lambda>x. if R x then f x else x) xs"
  by (simp add: update_where_def)

lemma licence_good_marks [simp]:
  "licence_good C S I (l\<lparr>l_revoked := r\<rparr>) = licence_good C S I l"
  "licence_good C S I (l\<lparr>l_seen := n\<rparr>) = licence_good C S I l"
  by (simp_all add: licence_good_def key_good_def trial_span_def covered_def)

lemma wp_exec_count:
  "(\<And>t. Q None (w\<lparr>faults := t\<rparr>)) \<Longrightarrow>
   (\<And>t. Q (Some (n (w\<lparr>faults := t\<rparr>))) (f (w\<lparr>faults := t\<rparr>))) \<Longrightarrow> wp (exec_count n f) Q w"
  unfolding exec_count_def by (intro wp_intros) simp_all

lemma keeps_Revoke: "keeps (ledger_ok E) (Revoke token)"
proof (rule keepsI)
  fix w :: "'a world_scheme"
  assume "ledger_ok E w"
  then have "store_ok (d_crypto E) (subs w) (invs w)
      (update_where (\<lambda>l. l_rtoken l = token \<and> l_revoked l = None) (\<lambda>l. l\<lparr>l_revoked := Some t\<rparr>) (lics w))" for t
    unfolding update_where_conj by (intro store_ok_licence) (auto simp: ledger_ok_def dest: store_okD(9))
  with \<open>ledger_ok E w\<close> show "wp (Revoke token) (\<lambda>_. ledger_ok E) w"
    unfolding Revoke_def by (intro wp_intros wp_exec_count) (simp_all add: ledger_ok_def)
qed


lemma wp_rand_hex:
  "(\<And>t. Q None (w\<lparr>faults := t\<rparr>)) \<Longrightarrow>
   (\<And>t. Q (Some (d_random E (fresh w))) (w\<lparr>faults := t, fresh := Suc (fresh w)\<rparr>)) \<Longrightarrow> wp (rand_hex E) Q w"
  unfolding rand_hex_def by (intro wp_intros) simp_all

lemma keeps_NewPortalToken: "keeps (ledger_ok E) (NewPortalToken E sid baseURL)"
proof (rule keepsI)
  fix w :: "'a world_scheme"
  assume ok: "ledger_ok E w"
  have "ledger_ok E (update_sub sid (\<lambda>s. s\<lparr>s_portal_hash := h\<rparr>) v)" if "ledger_ok E v" for h and v :: "'a world_scheme"
    by (rule ledger_ok_sub_field [OF that]) (simp add: same_sub_def)
  with ok show "wp (NewPortalToken E sid baseURL) (\<lambda>_. ledger_ok E) w"
    unfolding NewPortalToken_def by (intro wp_consts wp_intros wp_rand_hex) simp_all
qed

section \<open>Keys only for seats that were paid for\<close>

lemma run_State_seats:
  assumes "faults w = []"
  shows "run_state (State_seats sid) w = (case find_sub sid w of
     None \<Rightarrow> (Inl ErrNoSuchSubscription, w)
   | Some s \<Rightarrow> if s_status s = SubPaid
       then (Inr (seat_state_of s (licences_newest_first sid w)
         (fst (run_state (collect (\<lambda>l. LicenceStatus (l_rtoken l)) (licences_newest_first sid w)) w))), w)
       else (Inl ErrNoSuchSubscription, w))"
proof -
  have "run_state (collect (\<lambda>l. LicenceStatus (l_rtoken l)) rows) w =
      (fst (run_state (collect (\<lambda>l. LicenceStatus (l_rtoken l)) rows) w), w)" for rows
    by (rule run_reads [OF reads_collect assms]) (rule reads_LicenceStatus)
  then obtain xs where "run_state (collect (\<lambda>l. LicenceStatus (l_rtoken l)) (licences_newest_first sid w)) w = (xs, w)"
    by metis
  with assms show ?thesis by (simp add: State_seats_def run_simps split: option.splits)
qed

text \<open>C25: a seat licence is a licence that was paid for. Whatever fails on the way, issuing one
  leaves the ledger consistent, touches no subscription and no invoice, adds at most one row,
  for the organisation asked for, and never more organisations than seats. When it reports a
  key, the subscription is paid and not cancelled, the key runs to the day its settled
  invoices reach and no further, and an instance reads it as the key of that row.\<close>

theorem Issue_seat_safe:
  assumes "good_deployment E" "ledger_ok E w" "run_state (Issue_seat E sid org sendTo who) w = (r, u)"
  shows "ledger_ok E u \<and> subs u = subs w \<and> invs u = invs w \<and>
    (\<exists>ts. lics u = lics w @ ts \<and> length ts \<le> 1 \<and> (\<forall>l \<in> set ts. l_sub l = sid \<and> l_orgname l = org)) \<and>
    (\<forall>s \<in> set (subs u). int (card (orgs_of (lics u) (s_id s))) \<le> s_quantity s) \<and>
    (case r of
       Inl _ \<Rightarrow> \<forall>l \<in> set (lics u). l_key l \<noteq> '''' \<longrightarrow> l \<in> set (lics w)
     | Inr ((org', key, until, tok), _) \<Rightarrow> org' = org \<and> tok \<notin> l_rtoken ` set (lics w) \<and>
         (\<exists>o'. key_for (d_crypto E) key tok o' until \<and> (trim_space org \<noteq> '''' \<longrightarrow> o' = trim_space org)) \<and>
         (\<exists>s. find_sub sid w = Some s \<and> live s \<and> limit_of s w = Inr until))"
proof -
  let ?Q = "\<lambda>r (u :: 'a world_scheme). subs u = subs w \<and> invs u = invs w \<and>
    (\<exists>ts. lics u = lics w @ ts \<and> length ts \<le> 1 \<and> (\<forall>l \<in> set ts. l_sub l = sid \<and> l_orgname l = org)) \<and>
    (case r of
       Inl _ \<Rightarrow> \<forall>l \<in> set (lics u). l_key l \<noteq> '''' \<longrightarrow> l \<in> set (lics w)
     | Inr ((org', key, until, tok), _) \<Rightarrow> org' = org \<and> tok \<notin> l_rtoken ` set (lics w) \<and>
         (\<exists>o'. key_for (d_crypto E) key tok o' until \<and> (trim_space org \<noteq> '''' \<longrightarrow> o' = trim_space org)) \<and>
         (\<exists>s. find_sub sid w = Some s \<and> live s \<and> limit_of s w = Inr until))"
  have crypto: "good_crypto (d_crypto E) (d_issuer E)" using assms(1) by (simp add: good_deployment_def)
  have key: "\<exists>o'. key_for (d_crypto E) (l_key l) (l_rtoken l) o' (l_until l) \<and> (trim_space org \<noteq> '''' \<longrightarrow> o' = trim_space org)"
    if "SignUntil (d_crypto E) (d_issuer E) (now w) r (l_until l) = Inr (l_key l)" "rq_token r = l_rtoken l"
      "rq_orgname r = org" "l_orgname l = org" for r and l :: licence
    using SignUntil_good(1) [OF crypto that(1,2)] that(3,4) by (simp add: key_good_def)
  have "wp (Issue_seat E sid org sendTo who) ?Q w"
  proof (rule wp_Issue_seat, goal_cases)
    case (1 u e)
    then show ?case by (simp add: quietD exI [of _ "[]"])
  next
    case (2 u l e)
    then show ?case by (auto simp: quietD seat_row_def intro: exI [of _ "[l]"])
  next
    case (3 u l m r ts)
    note new = 3(6) and q = quietD(1-3) [OF 3(7), simplified]
    have "\<exists>ts. lics u = lics w @ ts \<and> length ts \<le> 1 \<and> (\<forall>l \<in> set ts. l_sub l = sid \<and> l_orgname l = org)"
      using q(3) new 3(1) by (intro exI [of _ ts]) (auto simp: seat_row_def)
    with q(1,2) 3(1) key [OF 3(3-5)] show ?case by (auto simp: seat_row_def)
  qed
  from wp_run [OF this assms(3)] have q: "?Q r u" .
  have ok: "ledger_ok E u" using keepsD [OF keeps_Issue_seat [OF assms(1)] assms(2)] assms(3) by (metis snd_conv)
  then have "\<forall>s \<in> set (subs u). int (card (orgs_of (lics u) (s_id s))) \<le> s_quantity s"
    by (auto simp: ledger_ok_def seats_good_def dest: store_okD(7))
  with q ok show ?thesis by blast
qed


text \<open>The refusals, on a working database: each leaves everything as it was.\<close>

lemma seat_refused:
  assumes "faults w = []" "org \<noteq> ''''"
  shows "(\<nexists>s. find_sub sid w = Some s \<and> s_status s = SubPaid) \<Longrightarrow>
      run_state (Issue_seat E sid org sendTo who) w = (Inl ErrNoSuchSubscription, w)"
    and "find_sub sid w = Some s \<Longrightarrow> s_status s = SubPaid \<Longrightarrow> s_cancelled s \<noteq> None \<Longrightarrow>
      run_state (Issue_seat E sid org sendTo who) w = (Inl ErrCancelled, w)"
    and "find_sub sid w = Some s \<Longrightarrow> live s \<Longrightarrow> org \<notin> orgs_of (lics w) sid \<Longrightarrow>
      s_quantity s \<le> int (card (orgs_of (lics w) sid)) \<Longrightarrow>
      run_state (Issue_seat E sid org sendTo who) w = (Inl ErrNoSeatsLeft, w)"
proof -
  note st = run_State_seats [OF assms(1), of sid]
  have known: "\<not> list_ex (\<lambda>(l, _). l_orgname l = org) (zip (licences_newest_first sid w) xs)"
    if "org \<notin> orgs_of (lics w) sid" for xs :: "lic_status option list"
    using that by (auto simp: list_ex_iff orgs_of_def licences_newest_first_def dest!: set_zip_leftD)
  show "run_state (Issue_seat E sid org sendTo who) w = (Inl ErrNoSuchSubscription, w)"
    if "\<nexists>s. find_sub sid w = Some s \<and> s_status s = SubPaid"
    using that assms(2) st by (auto simp: Issue_seat_def run_simps split: option.splits)
  show "run_state (Issue_seat E sid org sendTo who) w = (Inl ErrCancelled, w)"
    if "find_sub sid w = Some s" "s_status s = SubPaid" "s_cancelled s \<noteq> None"
    using that assms(2) st by (simp add: Issue_seat_def run_simps seat_state_of_def Let_def)
  show "run_state (Issue_seat E sid org sendTo who) w = (Inl ErrNoSeatsLeft, w)"
    if "find_sub sid w = Some s" "live s" "org \<notin> orgs_of (lics w) sid" "s_quantity s \<le> int (card (orgs_of (lics w) sid))"
    using that assms(2) st known [OF that(3)]
    by (simp add: Issue_seat_def run_simps seat_state_of_def Let_def live_def seats_card)
qed

text \<open>C26: the link opens one subscription. A portal request that changes a licence row was made with
  the token whose hash is stored for a paid, uncancelled subscription, adds one row and adds it
  to that subscription; it changes no row of the tables otherwise.\<close>

theorem portal_scope:
  assumes "run_state (IssueSeat E token org email) w = (r, u)"
  shows "subs u = subs w \<and> invs u = invs w \<and> (lics u \<noteq> lics w \<longrightarrow>
    length token = 64 \<and> (\<exists>s \<in> set (subs w). \<exists>l. s_portal_hash s = Some (d_hash E token) \<and> live s \<and>
      lics u = lics w @ [l] \<and> l_sub l = s_id s \<and> l_orgname l = org))"
proof -
  let ?R = "\<lambda>u :: 'a world_scheme. subs u = subs w \<and> invs u = invs w \<and> (lics u \<noteq> lics w \<longrightarrow>
    length token = 64 \<and> (\<exists>s \<in> set (subs w). \<exists>l. s_portal_hash s = Some (d_hash E token) \<and> live s \<and>
      lics u = lics w @ [l] \<and> l_sub l = s_id s \<and> l_orgname l = org))"
  have "wp (IssueSeat E token org email) (\<lambda>_. ?R) w"
  proof (rule wp_IssueSeat)
    fix t s
    assume s: "length token = 64" "s \<in> set (subs w)" "s_portal_hash s = Some (d_hash E token)" "live s"
    have "wp (Issue_seat E (s_id s) org email ''MSP-Portal'') (\<lambda>_. ?R) (w\<lparr>faults := t\<rparr>)"
    proof (rule wp_Issue_seat, goal_cases)
      case (1 u e)
      then show ?case by (simp add: quietD)
    next
      case (2 u l e)
      with s show ?case by (auto simp: quietD seat_row_def)
    next
      case (3 u l m r ts)
      have q: "subs u = subs w" "invs u = invs w" "lics u = lics w @ ts" using quietD(1-3) [OF 3(7)] by simp_all
      from 3(6,1) obtain l' where "ts = [l']" "l_sub l' = s_id s" "l_orgname l' = org"
        by (auto simp: seat_row_def)
      with s q show ?case by auto
    qed
    then show "wp (Issue_seat E (s_id s) org email ''MSP-Portal'') (\<lambda>r u. \<forall>x. (case r of Inl e \<Rightarrow> x = PortalRefused e
          | Inr ((org', _), mailed) \<Rightarrow> x = (if mailed then PortalIssued org' else PortalIssuedUnmailed org)) \<longrightarrow> ?R u)
        (w\<lparr>faults := t\<rparr>)" by (rule wp_mono) simp
  qed simp
  from wp_run [OF this assms] show ?thesis .
qed


lemma run_IssueUntil_Nil:
  assumes "faults s = []" "SignUntil C i (now s) l e = Inr key"
    and "\<not> bad_line (sm_from (is_smtp i))" "\<not> bad_line (rq_email l)"
  shows "\<exists>m. run_state (IssueUntil C i l e pdf name) s = ((key, None), s\<lparr>outbox := outbox s @ [(rq_email l, m)]\<rparr>)"
proof -
  obtain a b where "licenseMail l key e = (a, b)" by fastforce
  then show ?thesis using assms
    by (intro exI [of _ "message (is_smtp i) (rq_email l) a b pdf name"])
      (simp add: IssueUntil_def run_simps sendMail_def Send_def)
qed

definition sample_msp :: "string option \<Rightarrow> subscription" where
  "sample_msp h = (sample_sub SubPaid None)\<lparr>s_portal_hash := h\<rparr>"

lemma sample_ledger: "ledger_ok E (sample_world t [sample_msp h] [sample_invoice InvPaid] [])"
  by (simp add: ledger_ok_def store_ok_def sample_msp_def sample_defs row_good_def plans_simps cycle_good_def
      seats_good_def orgs_of_def invoice_good_def one_open_def)

lemma sample_limit: "limit_of (sample_msp h) (sample_world t S [sample_invoice InvPaid] L) = Inr (midnight 36)"
proof -
  have "PlanFor (s_product (sample_msp h)) (s_interval (sample_msp h)) = Some pro_month"
    by (simp add: sample_msp_def sample_sub_def plans_simps)
  then show ?thesis by (simp add: limit_of_def paid_end_def invoices_of_def sample_msp_def sample_defs pro_month_def)
qed

lemma sample_good: "good_deployment sample_deployment"
  by (simp add: good_deployment_def sample_deployment_def toy_full_good)

lemma sample_deploy: "d_crypto sample_deployment = toy_full" "d_issuer sample_deployment = toy_issuer"
  "d_uuid sample_deployment 7 = ''u7''" "d_hash sample_deployment s = ''h'' @ s"
  by (simp_all add: sample_deployment_def) code_simp

lemma sample_issue:
  "\<exists>key u. run_state (Issue_seat sample_deployment ''s1'' ''Kunde'' '''' who)
      (sample_world 0 [sample_msp h] [sample_invoice InvPaid] []) = (Inr ((''Kunde'', key, midnight 36, ''u7''), True), u)
    \<and> lics u \<noteq> []"
proof -
  let ?w = "sample_world 0 [sample_msp h] [sample_invoice InvPaid] []"
  let ?r = "ForSeat (ForLicence ''u7'' ''Kunde'' ''a@acme'' ''month'')"
  have f: "faults ?w = []" and s: "find_sub ''s1'' ?w = Some (sample_msp h)" and live: "live (sample_msp h)"
    by (simp_all add: sample_world_def find_sub_def sample_msp_def sample_sub_def live_def)
  have e: "Enabled toy_issuer" by (simp add: Enabled_def toy_issuer_def)
  obtain key where k: "SignUntil toy_full toy_issuer 0 ?r (midnight 36) = Inr key"
    using SignUntil_total [OF toy_full_good e, of ?r] by (auto simp: ForSeat_def ForLicence_def)
  have n: "key \<noteq> ''''" using SignUntil_key [OF toy_full_good k] by (simp add: key_for_def)
  let ?l = "new_licence ''s1'' ''Kunde'' (midnight 36) Seat (''issued by '' @ who) ''u7'' 0"
  let ?v = "?w\<lparr>fresh := 8, lics := [?l]\<rparr>"
  have v: "faults ?v = []" "SignUntil toy_full toy_issuer (now ?v) ?r (midnight 36) = Inr key"
    using k by (simp_all add: sample_world_def)
  from run_IssueUntil_Nil [OF v] obtain m where
    m: "run_state (IssueUntil toy_full toy_issuer ?r (midnight 36) '''' '''') ?v = ((key, None), ?v\<lparr>outbox := outbox ?v @ [(''a@acme'', m)]\<rparr>)"
    by (auto simp: toy_issuer_def bad_line_def ForSeat_def ForLicence_def)
  show ?thesis
    using n m run_State_seats [OF f, of "''s1''"] s run_Entitlement [OF f s live] sample_limit [of h 0]
    by (simp add: Issue_seat_def run_simps sample_deploy Let_def seat_state_of_def licences_newest_first_def sample_msp_def
        sample_defs licence_ok_def update_licence_def update_where_def)
qed

theorem Issue_seat_safe_witness:
  "\<exists>key u. run_state (Issue_seat sample_deployment ''s1'' ''Kunde'' '''' ''admin'')
      (sample_world 0 [sample_msp None] [sample_invoice InvPaid] []) = (Inr ((''Kunde'', key, midnight 36, ''u7''), True), u)
    \<and> ledger_ok sample_deployment u \<and> key_for toy_full key ''u7'' ''Kunde'' (midnight 36)"
proof -
  obtain key u where u: "run_state (Issue_seat sample_deployment ''s1'' ''Kunde'' '''' ''admin'')
      (sample_world 0 [sample_msp None] [sample_invoice InvPaid] []) = (Inr ((''Kunde'', key, midnight 36, ''u7''), True), u)"
    using sample_issue by blast
  have "trim_space ''Kunde'' = ''Kunde''" by code_simp
  with Issue_seat_safe [OF sample_good sample_ledger u] u sample_deploy show ?thesis by auto
qed

definition sample_token :: string where "sample_token = replicate 64 CHR ''a''"

theorem portal_scope_witness:
  "\<exists>u l. run_state (IssueSeat sample_deployment sample_token ''Kunde'' '''')
      (sample_world 0 [sample_msp (Some (''h'' @ sample_token))] [sample_invoice InvPaid] []) = (PortalIssued ''Kunde'', u)
    \<and> lics u = [l] \<and> l_sub l = ''s1''"
proof -
  let ?w = "sample_world 0 [sample_msp (Some (''h'' @ sample_token))] [sample_invoice InvPaid] []"
  obtain key u where u: "run_state (Issue_seat sample_deployment ''s1'' ''Kunde'' '''' ''MSP-Portal'') ?w
      = (Inr ((''Kunde'', key, midnight 36, ''u7''), True), u)" "lics u \<noteq> []"
    using sample_issue by blast
  have "run_state (resolve sample_deployment sample_token) ?w = (Some ''s1'', ?w)"
    by (simp add: resolve_def sample_token_def sample_deploy run_simps sample_world_def sample_msp_def sample_sub_def Let_def)
  with u(1) have r: "run_state (IssueSeat sample_deployment sample_token ''Kunde'' '''') ?w = (PortalIssued ''Kunde'', u)"
    by (simp add: IssueSeat_def run_simps)
  from portal_scope [OF r] u(2) have "\<exists>l. lics u = [l] \<and> l_sub l = ''s1''"
    by (auto simp: sample_world_def sample_msp_def sample_sub_def)
  with r show ?thesis by blast
qed

text \<open>A new link works, and the old one is dead.\<close>

theorem portal_link:
  assumes "faults w = []" "find_sub sid w = Some s" "live s" "sid \<noteq> ''''" "distinct (map s_id (subs w))"
    and "length (d_random E (fresh w)) = 64" "run_state (NewPortalToken E sid url) w = (r, u)"
    and "\<forall>x \<in> set (subs w). s_id x \<noteq> sid \<longrightarrow> s_portal_hash x \<noteq> Some (d_hash E (d_random E (fresh w)))"
  shows "r = Some (trim_right CHR ''/'' url @ ''/'' @ d_random E (fresh w)) \<and>
    fst (run_state (resolve E (d_random E (fresh w))) u) = Some sid \<and>
    (\<forall>old. d_hash E old \<noteq> d_hash E (d_random E (fresh w)) \<longrightarrow> fst (run_state (resolve E old) u) \<noteq> Some sid)"
proof -
  let ?tok = "d_random E (fresh w)"
  let ?f = "\<lambda>s. s\<lparr>s_portal_hash := Some (d_hash E ?tok)\<rparr>"
  let ?S = "update_where (\<lambda>s. s_id s = sid) ?f (subs w)"
  let ?ss = "filter (\<lambda>s. s_portal_hash s \<noteq> None \<and> s_status s = SubPaid \<and> s_cancelled s = None) ?S"
  have u: "r = Some (trim_right CHR ''/'' url @ ''/'' @ ?tok)" "subs u = ?S" "faults u = []"
    using assms(1,7) by (auto simp: NewPortalToken_def rand_hex_def run_simps update_sub_def)
  have s: "s \<in> set (subs w)" "s_id s = sid" using find_sub_id [OF assms(2)] by auto
  have hash: "s_portal_hash x = Some (d_hash E ?tok) \<longleftrightarrow> s_id x = sid" if x: "x \<in> set ?ss" for x
  proof -
    from x obtain y where y: "y \<in> set (subs w)" "x = (if s_id y = sid then ?f y else y)"
      by (auto simp: set_update_where)
    show ?thesis by (cases "s_id y = sid") (use y assms(8) in simp_all)
  qed
  have "?f s \<in> set ?S" unfolding set_update_where using s by (intro image_eqI [of _ _ s]) simp_all
  then have mem: "?f s \<in> set ?ss" using assms(3) by (simp add: live_def)
  have "fold (\<lambda>s f. if s_portal_hash s = Some (d_hash E ?tok) then s_id s else f) ?ss '''' = sid"
  proof -
    have "fold (\<lambda>s f. if s_portal_hash s = Some (d_hash E ?tok) then s_id s else f) xs x = sid"
      if "\<forall>y \<in> set xs. s_portal_hash y = Some (d_hash E ?tok) \<longleftrightarrow> s_id y = sid"
        "x = sid \<or> (\<exists>y \<in> set xs. s_id y = sid)" for xs :: "subscription list" and x
      using that by (induction xs arbitrary: x) auto
    moreover have "\<exists>y \<in> set ?ss. s_id y = sid" using mem s(2) by (intro bexI [OF _ mem]) simp
    ultimately show ?thesis using hash by blast
  qed
  then have new: "fst (run_state (resolve E ?tok) u) = Some sid"
    using u(2,3) assms(4,6) by (simp add: resolve_def run_simps Let_def)
  have old: "fst (run_state (resolve E t) u) \<noteq> Some sid" if "d_hash E t \<noteq> d_hash E ?tok" for t
  proof -
    have "wp (resolve E t) (\<lambda>r _. r \<noteq> Some sid) u"
    proof (rule wp_resolve)
      fix t' x
      assume x: "x \<in> set (subs u)" "s_portal_hash x = Some (d_hash E t)"
      from x(1) obtain y where "x = (if s_id y = sid then ?f y else y)"
        unfolding u(2) set_update_where by blast
      with x(2) that show "Some (s_id x) \<noteq> Some sid" by (cases "s_id y = sid") simp_all
    qed simp
    then show ?thesis by (auto simp: wp_def split: prod.splits)
  qed
  from u(1) new old show ?thesis by blast
qed


theorem portal_link_witness:
  "\<exists>u. run_state (NewPortalToken (sample_deployment\<lparr>d_random := \<lambda>_. sample_token\<rparr>) ''s1'' ''https://l/'')
      (sample_world 0 [sample_msp (Some ''hold'')] [] []) = (Some (''https://l/'' @ sample_token), u) \<and>
    fst (run_state (resolve (sample_deployment\<lparr>d_random := \<lambda>_. sample_token\<rparr>) sample_token) u) = Some ''s1'' \<and>
    fst (run_state (resolve (sample_deployment\<lparr>d_random := \<lambda>_. sample_token\<rparr>) ''old'') u) \<noteq> Some ''s1''"
proof -
  let ?E = "sample_deployment\<lparr>d_random := \<lambda>_. sample_token\<rparr>"
  let ?w = "sample_world 0 [sample_msp (Some ''hold'')] [] []"
  obtain r u where r: "run_state (NewPortalToken ?E ''s1'' ''https://l/'') ?w = (r, u)" by fastforce
  have t: "d_random ?E n = sample_token" "length sample_token = 64" "d_hash ?E s = ''h'' @ s" for n s
    by (simp_all add: sample_token_def sample_deployment_def)
  have "length ''old'' \<noteq> length sample_token" using t(2) by simp
  then have "''old'' \<noteq> sample_token" by (metis (no_types))
  then have old: "d_hash ?E ''old'' \<noteq> d_hash ?E sample_token" unfolding t same_append_eq .
  have "faults ?w = []" "find_sub ''s1'' ?w = Some (sample_msp (Some ''hold''))" "live (sample_msp (Some ''hold''))"
    "distinct (map s_id (subs ?w))" "\<forall>x \<in> set (subs ?w). s_id x = ''s1''"
    by (simp_all add: sample_world_def find_sub_def sample_msp_def sample_sub_def live_def)
  then have "r = Some (trim_right CHR ''/'' ''https://l/'' @ ''/'' @ sample_token) \<and>
    fst (run_state (resolve ?E sample_token) u) = Some ''s1'' \<and>
    (\<forall>old. d_hash ?E old \<noteq> d_hash ?E sample_token \<longrightarrow> fst (run_state (resolve ?E old) u) \<noteq> Some ''s1'')"
    using portal_link [OF _ _ _ _ _ _ r, of "sample_msp (Some ''hold'')"] t(1,2) by simp
  moreover have "trim_right CHR ''/'' ''https://l/'' = ''https://l''" by code_simp
  ultimately show ?thesis using r old by auto
qed

end
