(* ===== verification/Billing_Orders.thy ===== *)
theory Billing_Orders
  imports Billing_Seats
begin

text \<open>
  From a request to an invoice (\<^verbatim>\<open>internal/billing/lexware/handler.go\<close>, \<^verbatim>\<open>free.go\<close>,
  \<^verbatim>\<open>actions.go\<close>): the public form, the sale entered by hand, and the approval that creates
  the contact, the invoice and the first key. Messages to a human are constructors; their
  German sentences are left out, but for the mails a customer gets.
\<close>

section \<open>Amounts as text\<close>

definition u_minus :: string where "u_minus = [CHR 0xE2, CHR 0x88, CHR 0x92]"

definition dotted :: "string \<Rightarrow> string" where
  "dotted s = concat (map (\<lambda>i. (if i > 0 \<and> (length s - i) mod 3 = 0 then ''.'' else '''') @ [s ! i]) [0 ..< length s])"

definition fmtEUR :: "rat \<Rightarrow> string" where
  "fmtEUR v = (let cents = nat \<lfloor>\<bar>v\<bar> * 100 + 1 / 2\<rfloor> in
     (if v < 0 then u_minus else '''') @ dotted (show_nat (cents div 100)) @ '','' @ pad_nat 2 (cents mod 100)
     @ '' '' @ u_euro)"

section \<open>The public form\<close>

record quoteRequestInput =
  qi_company :: string
  qi_contact :: string
  qi_email :: string
  qi_vat_id :: string
  qi_street :: string
  qi_zip :: string
  qi_city :: string
  qi_country :: string
  qi_note :: string
  qi_product :: string
  qi_quantity :: int
  qi_interval :: string
  qi_website :: string

datatype quote_error =
    InvalidRequest
  | CompanyAndEmailRequired
  | InvalidEmail
  | FieldTooLong
  | InvalidCountry
  | UnknownProduct
  | QuantityOutOfRange

datatype quote_reply = QuoteOk | QuoteBad quote_error | QuoteInternalError

definition seller_mail :: "deployment \<Rightarrow> string \<Rightarrow> string \<Rightarrow> quoteRequestInput \<Rightarrow> string" where
  "seller_mail E sid token i =
     (let link = d_base_url E @ ''/api/v1/billing/quote-request/'' @ sid @ ''/approve?token='' @ token;
          body = ''Neue Angebotsanfrage f'' @ u_uuml @ ''r Vakt Pro.'' @ nl @ nl
            @ ''  Firma        : '' @ qi_company i @ nl @ ''  Ansprechpartner: '' @ qi_contact i @ nl
            @ ''  E-Mail       : '' @ qi_email i @ nl @ ''  USt-IdNr.    : '' @ qi_vat_id i @ nl
            @ ''  Adresse      : '' @ qi_street i @ '', '' @ qi_zip i @ '' '' @ qi_city i @ '' ('' @ qi_country i @ '')'' @ nl
            @ ''  Laufzeit     : '' @ qi_interval i @ nl @ ''  Anmerkung    : '' @ qi_note i @ nl @ nl
            @ ''Pr'' @ u_uuml @ ''fe kurz, ob das eine echte Firma ist. Wenn ja, hier klicken '' @ u_dash @ '' das legt den'' @ nl
            @ ''Kontakt in Lexware an, erstellt eine FINALISIERTE Rechnung, schickt sie dem'' @ nl
            @ ''Kunden mit einem 45-Tage-Lizenzschl'' @ u_uuml @ ''ssel und ist nicht mehr r'' @ u_uuml @ ''ckg'' @ u_auml @ ''ngig zu machen:'' @ nl @ nl
            @ link @ nl @ nl
            @ ''Sobald das Geld da ist: Zahlung in Lexware zuordnen. Den Rest (Vollkey '' @ u_uuml @ ''ber 395'' @ nl
            @ ''Tage, Versand) macht Vakt automatisch.'' @ nl in
      ''From: '' @ Sanitize (sm_from (is_smtp (d_issuer E))) @ crlf @ ''To: '' @ Sanitize (d_notify_to E) @ crlf
      @ ''Subject: '' @ Sanitize (''[Vakt] Angebotsanfrage: '' @ qi_company i) @ crlf
      @ ''Content-Type: text/plain; charset=\"utf-8\"'' @ crlf @ crlf @ body)"

text \<open>\<^verbatim>\<open>smtp.SendMail\<close> refuses a line break in an address.\<close>

definition notifySeller :: "deployment \<Rightarrow> string \<Rightarrow> string \<Rightarrow> quoteRequestInput \<Rightarrow> ('z world_scheme, bool) state" where
  "notifySeller E sid token i =
     (if bad_line (sm_from (is_smtp (d_issuer E))) \<or> bad_line (d_notify_to E) then State_Monad.return False
      else exec (\<lambda>w. w\<lparr>outbox := outbox w @ [(d_notify_to E, seller_mail E sid token i)]\<rparr>))"

text \<open>A new row of \<^verbatim>\<open>billing_quote_requests\<close>; what the statement does not name has the
  column's default.\<close>

definition request_row :: "string \<Rightarrow> quoteRequestInput \<Rightarrow> string \<Rightarrow> int \<Rightarrow> string \<Rightarrow> string \<Rightarrow> int \<Rightarrow> bool
    \<Rightarrow> string \<Rightarrow> instant \<Rightarrow> subscription" where
  "request_row sid i product quantity interval notes discount free hash t =
     \<lparr>s_id = sid, s_status = Requested, s_company = qi_company i, s_contact_name = qi_contact i,
      s_email = qi_email i, s_vat_id = qi_vat_id i, s_street = qi_street i, s_zip = qi_zip i, s_city = qi_city i,
      s_country = qi_country i, s_note = qi_note i, s_notes = notes, s_product = product, s_interval = interval,
      s_quantity = quantity, s_discount = discount, s_free = free, s_approval_hash = hash, s_portal_hash = None,
      s_contact = None, s_invoice = None, s_key = None, s_next = None, s_cancelled = None, s_created = t,
      s_approved = None, s_paid = None\<rparr>"

definition insert_request :: "deployment \<Rightarrow> (string \<Rightarrow> instant \<Rightarrow> subscription) \<Rightarrow> ('z world_scheme, string option) state" where
  "insert_request E mk = do {
     sid \<leftarrow> draw (d_uuid E);
     t \<leftarrow> gets now;
     ok \<leftarrow> insert_sub (mk sid t);
     State_Monad.return (if ok then Some sid else None) }"

text \<open>\<^term>\<open>None\<close> for a body that does not bind. The checks in their order.\<close>

definition quote_checks :: "deployment \<Rightarrow> quoteRequestInput \<Rightarrow> quote_error + quoteRequestInput" where
  "quote_checks E i =
     (let i = i\<lparr>qi_company := trim_space (qi_company i), qi_email := trim_space (qi_email i)\<rparr> in
      if qi_company i = '''' \<or> qi_email i = '''' then Inl CompanyAndEmailRequired
      else if \<not> d_address E (qi_email i) then Inl InvalidEmail
      else if length (qi_company i) > 200 \<or> length (qi_note i) > 2000 then Inl FieldTooLong
      else
        (let i = i\<lparr>qi_interval := (if qi_interval i \<noteq> ''month'' then ''year'' else qi_interval i)\<rparr>;
             c = to_upper (trim_space (qi_country i));
             i = i\<lparr>qi_country := (if c = '''' then ''DE'' else c)\<rparr> in
         if \<not> isAlpha2 (qi_country i) then Inl InvalidCountry else Inr i))"

definition RequestQuote :: "deployment \<Rightarrow> quoteRequestInput option \<Rightarrow> ('z world_scheme, quote_reply) state" where
  "RequestQuote E req = (case req of
     None \<Rightarrow> State_Monad.return (QuoteBad InvalidRequest)
   | Some i0 \<Rightarrow>
       if trim_space (qi_website i0) \<noteq> '''' then State_Monad.return QuoteOk
       else (case quote_checks E i0 of
         Inl e \<Rightarrow> State_Monad.return (QuoteBad e)
       | Inr i \<Rightarrow> do {
           r \<leftarrow> rand_hex E;
           (case r of
              None \<Rightarrow> State_Monad.return QuoteInternalError
            | Some token \<Rightarrow>
                let product = (if qi_product i = '''' then ''pro'' else qi_product i);
                    quantity = (if qi_quantity i < 1 then 1 else qi_quantity i) in
                if PlanFor product (qi_interval i) = None then State_Monad.return (QuoteBad UnknownProduct)
                else if quantity > 500 then State_Monad.return (QuoteBad QuantityOutOfRange)
                else do {
                  n \<leftarrow> insert_request E (\<lambda>sid. request_row sid i product quantity (qi_interval i) '''' 0 False (d_hash E token));
                  (case n of
                     None \<Rightarrow> State_Monad.return QuoteInternalError
                   | Some sid \<Rightarrow> do {
                       _ \<leftarrow> notifySeller E sid token i;
                       State_Monad.return QuoteOk }) }) }))"

section \<open>A sale by hand\<close>

record NewSubscription =
  ns_contact :: quoteRequestInput   \<comment> \<open>the fields the form has, too\<close>
  ns_discount :: int
  ns_free :: bool
  ns_notes :: string

datatype create_error = NameMissing | NoTariff | CreateDiscount discount_error | CreateFailed

definition CreateSubscription :: "deployment \<Rightarrow> NewSubscription \<Rightarrow> ('z world_scheme, create_error + string) state" where
  "CreateSubscription E n =
     (let i = ns_contact n;
          i = i\<lparr>qi_company := trim_space (qi_company i), qi_email := trim_space (qi_email i),
                qi_note := ''von Hand im Panel angelegt''\<rparr>;
          quantity = (if qi_quantity i < 1 then 1 else qi_quantity i);
          i = i\<lparr>qi_country := (if qi_country i = '''' then ''DE'' else qi_country i)\<rparr>;
          product = (if qi_product i = '''' then ''pro'' else qi_product i) in
      if qi_company i = '''' \<or> qi_email i = '''' then State_Monad.return (Inl NameMissing)
      else if PlanFor product (qi_interval i) = None then State_Monad.return (Inl NoTariff)
      else (case ValidateDiscount (ns_discount n) of
        Some e \<Rightarrow> State_Monad.return (Inl (CreateDiscount e))
      | None \<Rightarrow> do {
          r \<leftarrow> rand_hex E;
          (case r of
             None \<Rightarrow> State_Monad.return (Inl CreateFailed)
           | Some token \<Rightarrow> do {
               s \<leftarrow> insert_request E (\<lambda>sid. request_row sid i product quantity (qi_interval i) (ns_notes n)
                 (ns_discount n) (ns_free n) (d_hash E token));
               State_Monad.return (case s of None \<Rightarrow> Inl CreateFailed | Some sid \<Rightarrow> Inr sid) }) }))"

section \<open>Approval\<close>

datatype vat_refusal = VatMissing | ViesNotConfigured | ViesDown | VatInvalid

definition recordVATCheck :: "string \<Rightarrow> VIESResult \<Rightarrow> ('z world_scheme, bool) state" where
  "recordVATCheck sid res = insert_row (\<lambda>w. sid \<in> set (map s_id (subs w)))
     (\<lambda>w. w\<lparr>vats := vats w @ [\<lparr>vc_sub = sid, vc_result = res\<rparr>]\<rparr>)"

text \<open>Verified, and the reason to stop.\<close>

definition verifyVATID :: "deployment \<Rightarrow> string \<Rightarrow> string \<Rightarrow> string \<Rightarrow> ('z world_scheme, bool \<times> vat_refusal option) state" where
  "verifyVATID E sid country vatID =
     (let cc = to_upper (trim_space country) in
      if cc = '''' \<or> cc = ''DE'' \<or> cc \<notin> set euCountries then State_Monad.return (False, None)
      else if trim_space vatID = '''' then State_Monad.return (False, Some VatMissing)
      else if \<not> d_has_vies E then State_Monad.return (False, Some ViesNotConfigured)
      else do {
        service \<leftarrow> gets vies;
        t \<leftarrow> gets now;
        let (res, err) = Check service t vatID;
        _ \<leftarrow> recordVATCheck sid res;
        State_Monad.return
          (if err = Some ViesUnavailable then (False, Some ViesDown)
           else if err \<noteq> None \<or> \<not> vr_valid res then (False, Some VatInvalid)
           else (True, None)) })"

datatype approve_msg =
    RequestNotFound
  | AlreadyHandled sub_status
  | BillingNotConfigured
  | NoTariffFor string string
  | BadDiscount discount_error
  | VatRefused vat_refusal
  | TaxRefused tax_error
  | ContactFailed
  | InvoiceFailed
  | LicenceRowFailed
  | RequestNotUpdated
  | InvoiceMailFailed
  | Invoiced string     \<comment> \<open>the amount spelled out\<close>
  | NoSigningKeyHere
  | FreeNotSigned issue_error
  | FreeNotBooked
  | FreeMailFailed
  | FreeIssued

record ApproveResult =
  ar_ok :: bool
  ar_invoice :: string
  ar_msg :: approve_msg

definition refuse :: "approve_msg \<Rightarrow> ApproveResult" where
  "refuse m = \<lparr>ar_ok = False, ar_invoice = '''', ar_msg = m\<rparr>"

subsection \<open>Free licences\<close>

definition freeInvoiceRef :: "string \<Rightarrow> instant \<Rightarrow> string" where
  "freeInvoiceRef sid start = ''free:'' @ sid @ '':'' @ fmt_iso start"

definition free_invoice :: "string \<Rightarrow> instant \<Rightarrow> instant \<Rightarrow> charge \<Rightarrow> instant \<Rightarrow> invoice" where
  "free_invoice sid start fin ch t =
     \<lparr>i_sub = sid, i_ref = freeInvoiceRef sid start, i_start = day_of start, i_end = day_of fin, i_net = 0,
      i_list = ch_list_cents ch, i_discount = 100, i_status = InvPaid, i_created = t, i_paid = Some t,
      i_reminded = None, i_gross = 0, i_tax = 0, i_rate = 0, i_type = ''vatfree''\<rparr>"

definition free_mail :: "string \<Rightarrow> instant \<Rightarrow> string \<Rightarrow> string" where
  "free_mail key until token =
     ''Hallo,'' @ nl @ nl @ ''hier ist euer Lizenzschl'' @ u_uuml @ ''ssel f'' @ u_uuml @ ''r Vakt Pro '' @ u_dash
     @ '' kostenlos, es kommt keine Rechnung.'' @ nl @ nl @ ''  VAKT_LICENSE_KEY='' @ key @ nl @ nl
     @ ''G'' @ u_uuml @ ''ltig bis '' @ fmt_german until @ ''.'' @ nl @ nl @ ''So aktiviert ihr ihn:'' @ nl
     @ ''  1. In eurer Vakt-Instanz auf \"Einstellungen\" '' @ u_arrow @ '' \"Lizenz\"'' @ nl
     @ ''  2. Schl'' @ u_uuml @ ''ssel einf'' @ u_uuml @ ''gen, speichern '' @ u_dash @ '' fertig.'' @ nl @ nl
     @ ''Damit er sich von allein verl'' @ u_auml @ ''ngert, k'' @ [CHR 0xC3, CHR 0xB6] @ ''nnt ihr zus'' @ u_auml @ ''tzlich'' @ nl @ nl
     @ ''  VAKT_LICENSE_TOKEN='' @ token @ nl @ nl
     @ ''eintragen. Dann holt sich eure Instanz den jeweils aktuellen Schl'' @ u_uuml @ ''ssel selbst.'' @ nl
     @ [CHR 0xC3, CHR 0x9C] @ ''bertragen wird dabei ausschlie'' @ u_szlig @ ''lich dieser Token '' @ u_dash @ '' keine Daten aus eurer Instanz,'' @ nl
     @ ''keine Nutzungsstatistik, nichts '' @ u_uuml @ ''ber eure Compliance.'' @ nl @ nl
     @ ''Viele Gr'' @ u_uuml @ u_szlig @ ''e'' @ nl @ ''Stefan'' @ nl @ ''Norvik Ops'' @ nl"

definition book_free :: "deployment \<Rightarrow> string \<Rightarrow> plan \<Rightarrow> int \<Rightarrow> string \<Rightarrow> string \<Rightarrow> ('z world_scheme, bool) state" where
  "book_free E sid p quantity token key = do {
     t \<leftarrow> gets now;
     let (from, to) = Period p t;
     transaction (do {
       ok \<leftarrow> exec (update_sub sid (\<lambda>s. s\<lparr>s_status := SubPaid, s_approved := Some t, s_paid := Some t,
         s_key := Some key, s_next := Some (NextInvoiceAt p to)\<rparr>));
       (if \<not> ok then State_Monad.return False
        else do {
          ok2 \<leftarrow> exec (update_licence token (\<lambda>l. l\<lparr>l_key := key\<rparr>));
          (if \<not> ok2 then State_Monad.return False
           else (case Charge p quantity 0 of
             Inl _ \<Rightarrow> State_Monad.return False
           | Inr ch \<Rightarrow> insert_invoice (free_invoice sid from to ch t))) }) }) }"

definition approveFree :: "deployment \<Rightarrow> string \<Rightarrow> string \<Rightarrow> string \<Rightarrow> string \<Rightarrow> string \<Rightarrow> int
    \<Rightarrow> ('z world_scheme, ApproveResult) state" where
  "approveFree E sid company email product interval quantity =
     (if \<not> Enabled (d_issuer E) then State_Monad.return (refuse NoSigningKeyHere)
      else (case PlanFor product interval of
        None \<Rightarrow> State_Monad.return (refuse (NoTariffFor product interval))
      | Some p \<Rightarrow> do {
          t \<leftarrow> gets now;
          let entitledTo = add_date (snd (Period p t)) 0 0 (pl_grace_days p);
          r \<leftarrow> insert_licence E sid company entitledTo Full (''Freilizenz '' @ u_dash @ '' keine Rechnung'');
          (case r of
             None \<Rightarrow> State_Monad.return (refuse LicenceRowFailed)
           | Some token \<Rightarrow>
               (case SignUntil (d_crypto E) (d_issuer E) t (ForLicence token company email interval) entitledTo of
                  Inl e \<Rightarrow> State_Monad.return (refuse (FreeNotSigned e))
                | Inr key \<Rightarrow> do {
                    ok \<leftarrow> book_free E sid p quantity token key;
                    (if \<not> ok then State_Monad.return (refuse FreeNotBooked)
                     else do {
                       sent \<leftarrow> Send (d_issuer E) email (''Euer Vakt-Lizenzschl'' @ u_uuml @ ''ssel'')
                         (free_mail key entitledTo token) '''' '''';
                       State_Monad.return (if sent then \<lparr>ar_ok = True, ar_invoice = '''', ar_msg = FreeIssued\<rparr>
                         else refuse FreeMailFailed) }) })) }))"

subsection \<open>Paying customers\<close>

definition intro_text :: string where
  "intro_text = ''vielen Dank f'' @ u_uuml @ ''r Ihren Auftrag. Wir stellen Ihnen wie vereinbart in Rechnung:''"

definition invoice_row :: "string \<Rightarrow> string \<Rightarrow> instant \<Rightarrow> instant \<Rightarrow> charge \<Rightarrow> InvoiceAmounts \<Rightarrow> instant \<Rightarrow> invoice" where
  "invoice_row sid ref start fin ch a t =
     \<lparr>i_sub = sid, i_ref = ref, i_start = day_of start, i_end = day_of fin, i_net = ch_net_cents ch,
      i_list = ch_list_cents ch, i_discount = ch_percent ch, i_status = InvOpen, i_created = t, i_paid = None,
      i_reminded = None, i_gross = ia_gross a, i_tax = ia_tax a, i_rate = ia_rate a, i_type = ia_type a\<rparr>"

definition amount_text :: "charge \<Rightarrow> string" where
  "amount_text ch = u_uuml @ ''ber '' @ fmtEUR (NetEUR ch) @
     (if Discounted ch then '' ('' @ fmtEUR (ListEUR ch) @ '' '' @ u_minus @ '' '' @ show_nat (nat (ch_percent ch))
        @ '' % Rabatt, dauerhaft '' @ u_dash @ '' auch auf jede Verl'' @ u_auml @ ''ngerung)'' else '''')"

definition approved :: "string \<Rightarrow> string \<Rightarrow> string \<Rightarrow> instant \<Rightarrow> subscription \<Rightarrow> subscription" where
  "approved c ref key t s = s\<lparr>s_status := Approved, s_contact := Some c, s_invoice := Some ref, s_key := Some key,
     s_approved := Some t\<rparr>"

lemma approved_simps [simp]:
  "s_id (approved c ref key t s) = s_id s" "s_status (approved c ref key t s) = Approved"
  "s_contact (approved c ref key t s) = Some c" "s_free (approved c ref key t s) = s_free s"
  "same_sub s (approved c ref key t s)" "s_next (approved c ref key t s) = s_next s"
  "s_discount (approved c ref key t s) = s_discount s" "s_cancelled (approved c ref key t s) = s_cancelled s"
  by (simp_all add: approved_def same_sub_def)

definition book_invoice :: "string \<Rightarrow> plan \<Rightarrow> string \<Rightarrow> string \<Rightarrow> string \<Rightarrow> charge \<Rightarrow> InvoiceAmounts
    \<Rightarrow> ('z world_scheme, bool) state" where
  "book_invoice sid p contactID invoiceID key ch amounts = do {
     t \<leftarrow> gets now;
     let (from, to) = Period p t;
     transaction (do {
       ok \<leftarrow> exec (update_sub sid (approved contactID invoiceID key t));
       (if ok then insert_invoice (invoice_row sid invoiceID from to ch amounts t) else State_Monad.return False) }) }"

text \<open>From the finalised invoice on.\<close>

definition approve_invoiced :: "deployment \<Rightarrow> subscription \<Rightarrow> plan \<Rightarrow> charge \<Rightarrow> InvoiceAmounts \<Rightarrow> string \<Rightarrow> string
    \<Rightarrow> ('z world_scheme, ApproveResult) state" where
  "approve_invoiced E s p ch amounts contactID invoiceID = do {
     pdf \<leftarrow> InvoicePDF (d_client E) invoiceID;
     t \<leftarrow> gets now;
     r \<leftarrow> insert_licence E (s_id s) (s_company s) (TrialExpiry t) Trial
       ''mit der Rechnung ausgestellt, vor der Zahlung'';
     (case r of
        None \<Rightarrow> State_Monad.return \<lparr>ar_ok = False, ar_invoice = invoiceID, ar_msg = LicenceRowFailed\<rparr>
      | Some token \<Rightarrow> do {
          (key, mailErr) \<leftarrow> IssueUntil (d_crypto E) (d_issuer E)
            (AsTrial (ForLicence token (s_company s) (s_email s) (s_interval s))) (TrialExpiry t)
            (pdf_or_nil pdf) ''Rechnung-Vakt-Pro.pdf'';
          _ \<leftarrow> exec (update_licence token (\<lambda>l. l\<lparr>l_key := key\<rparr>));
          ok \<leftarrow> book_invoice (s_id s) p contactID invoiceID key ch amounts;
          State_Monad.return
            (if \<not> ok then \<lparr>ar_ok = False, ar_invoice = invoiceID, ar_msg = RequestNotUpdated\<rparr>
             else if mailErr \<noteq> None then \<lparr>ar_ok = False, ar_invoice = invoiceID, ar_msg = InvoiceMailFailed\<rparr>
             else \<lparr>ar_ok = True, ar_invoice = invoiceID, ar_msg = Invoiced (amount_text ch)\<rparr>) }) }"

text \<open>From the checked number on: contact and invoice.\<close>

definition approve_priced :: "deployment \<Rightarrow> subscription \<Rightarrow> plan \<Rightarrow> charge \<Rightarrow> bool \<Rightarrow> InvoiceAmounts
    \<Rightarrow> ('z world_scheme, ApproveResult) state" where
  "approve_priced E s p ch verified amounts = do {
     c \<leftarrow> CreateContact (d_client E) \<lparr>ci_company = s_company s, ci_vat_id = s_vat_id s, ci_contact = s_contact_name s,
       ci_email = s_email s, ci_street = s_street s, ci_zip = s_zip s, ci_city = s_city s, ci_country = s_country s\<rparr>;
     (case c of
        None \<Rightarrow> State_Monad.return (refuse ContactFailed)
      | Some contactID \<Rightarrow> do {
          i \<leftarrow> CreateInvoice (d_client E) \<lparr>ii_contact = contactID, ii_title = pl_title p, ii_intro = intro_text,
            ii_desc = LineDesc p (s_quantity s), ii_charge = ch, ii_due_days = pl_due_days p,
            ii_country = s_country s, ii_vat_verified = verified\<rparr>;
          (case i of
             None \<Rightarrow> State_Monad.return (refuse InvoiceFailed)
           | Some invoiceID \<Rightarrow> approve_invoiced E s p ch amounts contactID invoiceID) }) }"

definition ApproveRequest :: "deployment \<Rightarrow> string \<Rightarrow> ('z world_scheme, ApproveResult) state" where
  "ApproveRequest E sid = do {
     r \<leftarrow> row (find_sub sid);
     (case r of
        None \<Rightarrow> State_Monad.return (refuse RequestNotFound)
      | Some s \<Rightarrow>
          if s_status s \<noteq> Requested then State_Monad.return (refuse (AlreadyHandled (s_status s)))
          else if s_free s then approveFree E sid (s_company s) (s_email s) (s_product s) (s_interval s) (s_quantity s)
          else if \<not> client_enabled (d_client E) \<or> \<not> Enabled (d_issuer E)
          then State_Monad.return (refuse BillingNotConfigured)
          else (case PlanFor (s_product s) (s_interval s) of
            None \<Rightarrow> State_Monad.return (refuse (NoTariffFor (s_product s) (s_interval s)))
          | Some p \<Rightarrow>
              (case Charge p (s_quantity s) (s_discount s) of
                 Inl e \<Rightarrow> State_Monad.return (refuse (BadDiscount e))
               | Inr ch \<Rightarrow> do {
                   (verified, stop) \<leftarrow> verifyVATID E sid (s_country s) (s_vat_id s);
                   (case stop of
                      Some m \<Rightarrow> State_Monad.return (refuse (VatRefused m))
                    | None \<Rightarrow>
                        (case InvoiceAmountsFor (cl_small (d_client E)) (ch_net_cents ch) (s_country s) verified of
                           Inl e \<Rightarrow> State_Monad.return (refuse (TaxRefused e))
                         | Inr amounts \<Rightarrow> approve_priced E s p ch verified amounts)) }))) }"

datatype approve_reply = TokenMissing | ApproveNotFound | TokenInvalid | ApproveAnswer ApproveResult

definition Approve :: "deployment \<Rightarrow> string \<Rightarrow> string \<Rightarrow> ('z world_scheme, approve_reply) state" where
  "Approve E sid token =
     (if sid = '''' \<or> token = '''' then State_Monad.return TokenMissing
      else do {
        r \<leftarrow> row (\<lambda>w. map_option s_approval_hash (find_sub sid w));
        (case r of
           None \<Rightarrow> State_Monad.return ApproveNotFound
         | Some stored \<Rightarrow>
             if d_hash E token \<noteq> stored then State_Monad.return TokenInvalid
             else do { res \<leftarrow> ApproveRequest E sid; State_Monad.return (ApproveAnswer res) }) })"

section \<open>What the orders do\<close>

lemma wp_verifyVATID:
  assumes refuse: "\<And>m t v. Q (False, Some m) (w\<lparr>faults := t, vats := v\<rparr>)"
    and none: "\<And>cc. cc = to_upper (trim_space country) \<Longrightarrow> cc = '''' \<or> cc = ''DE'' \<or> cc \<notin> set euCountries \<Longrightarrow> Q (False, None) w"
    and valid: "\<And>res t v. Check (vies w) (now w) vatID = (res, None) \<Longrightarrow> vr_valid res \<Longrightarrow> d_has_vies E \<Longrightarrow>
      Q (True, None) (w\<lparr>faults := t, vats := v\<rparr>)"
  shows "wp (verifyVATID E sid country vatID) Q w"
proof -
  let ?cc = "to_upper (trim_space country)"
  have refuse': "Q (False, Some m) w" for m using refuse [where t = "faults w" and v = "vats w"] by simp
  obtain res err where c: "Check (vies w) (now w) vatID = (res, err)" by fastforce
  define ans where "ans = (if err = Some ViesUnavailable then (False, Some ViesDown)
           else if err \<noteq> None \<or> \<not> vr_valid res then (False, Some VatInvalid) else (True, None))"
  have noted: "Q ans (w\<lparr>faults := t, vats := v\<rparr>)" if "d_has_vies E" for t v
    unfolding ans_def using refuse valid [OF _ _ that, of res] c by auto
  then have "Q ans (w\<lparr>faults := t\<rparr>)" if "d_has_vies E" for t
    using noted [OF that, where t = t and v = "vats w"] by simp
  with noted have ask: "wp (do { _ \<leftarrow> recordVATCheck sid res; State_Monad.return ans }) Q w" if "d_has_vies E"
    using that unfolding recordVATCheck_def by (intro wp_intros wp_insert_row) simp_all
  show ?thesis unfolding verifyVATID_def Let_def
  proof (intro wp_ifI wp_return [THEN iffD2])
    assume "\<not> \<not> d_has_vies E"
    then have "d_has_vies E" by simp
    then show "wp (do { service \<leftarrow> gets vies; t \<leftarrow> gets now;
        case Check service t vatID of (res, err) \<Rightarrow> do {
          _ \<leftarrow> recordVATCheck sid res;
          State_Monad.return (if err = Some ViesUnavailable then (False, Some ViesDown)
            else if err \<noteq> None \<or> \<not> vr_valid res then (False, Some VatInvalid) else (True, None)) } }) Q w"
      using ask by (simp add: wp_bind wp_gets c ans_def)
  qed (use none refuse' in auto)
qed

lemma invoice_ok_update_sub: "(\<And>s. s_id (f s) = s_id s) \<Longrightarrow> invoice_ok i (update_sub sid f w) = invoice_ok i w"
  by (simp add: invoice_ok_def update_sub_def map_update_where del: set_map)

lemma invoice_ok_faults [simp]: "invoice_ok i (w\<lparr>faults := t\<rparr>) = invoice_ok i w"
  by (simp add: invoice_ok_def)

lemma wp_book_invoice:
  assumes "\<And>t n. Q False (w\<lparr>faults := t, fresh := n\<rparr>)"
    and "\<And>t row. row = invoice_row sid ref (fst (Period p (now w))) (snd (Period p (now w))) ch a (now w) \<Longrightarrow>
      invoice_ok row w \<Longrightarrow> Q True ((update_sub sid (approved c ref key (now w)) w)\<lparr>faults := t, invs := invs w @ [row]\<rparr>)"
  shows "wp (book_invoice sid p c ref key ch a) Q w"
proof -
  have u: "update_sub sid f (w\<lparr>faults := t\<rparr>) = (update_sub sid f w)\<lparr>faults := t\<rparr>" "invs (update_sub sid f w) = invs w"
    for f t by (simp_all add: update_sub_def)
  show ?thesis unfolding book_invoice_def Let_def
    by (intro wp_consts wp_intros wp_transaction)
      (simp_all add: u invoice_ok_update_sub assms)
qed


text \<open>A key that is none, or came out of the signing path for this row.\<close>

definition signed :: "deployment \<Rightarrow> instant \<Rightarrow> licence \<Rightarrow> bool" where
  "signed E t l \<longleftrightarrow> l_key l = '''' \<or> (\<exists>r. SignUntil (d_crypto E) (d_issuer E) t r (l_until l) = Inr (l_key l) \<and>
     rq_token r = l_rtoken l \<and> rq_orgname r = l_orgname l)"

definition fresh_row :: "subscription \<Rightarrow> kind \<Rightarrow> instant \<Rightarrow> 'z world_scheme \<Rightarrow> licence \<Rightarrow> bool" where
  "fresh_row s k e w l \<longleftrightarrow> l_sub l = s_id s \<and> l_orgname l = s_company s \<and> l_kind l = k \<and> l_until l = e \<and>
     l_created l = now w \<and> l_revoked l = None \<and> l_rtoken l \<notin> l_rtoken ` set (lics w)"

lemma fresh_row_new: "licence_ok (new_licence (s_id s) (s_company s) e k note tok (now w)) w \<Longrightarrow>
    fresh_row s k e w ((new_licence (s_id s) (s_company s) e k note tok (now w))\<lparr>l_key := key\<rparr>)"
  by (simp add: fresh_row_def licence_ok_def)


text \<open>\<open>booked s p c ref ch a key l w\<close>: the tables after an approval that went through.\<close>

definition booked :: "subscription \<Rightarrow> plan \<Rightarrow> string \<Rightarrow> string \<Rightarrow> charge \<Rightarrow> InvoiceAmounts \<Rightarrow> string \<Rightarrow> licence
    \<Rightarrow> 'z world_scheme \<Rightarrow> 'z world_scheme" where
  "booked s p c ref ch a key l w = w\<lparr>subs := update_where (\<lambda>x. s_id x = s_id s) (approved c ref key (now w)) (subs w),
     invs := invs w @ [invoice_row (s_id s) ref (fst (Period p (now w))) (snd (Period p (now w))) ch a (now w)],
     lics := lics w @ [l]\<rparr>"

lemma wp_approve_invoiced:
  assumes none: "\<And>u. tab w u \<Longrightarrow> Q \<lparr>ar_ok = False, ar_invoice = ref, ar_msg = LicenceRowFailed\<rparr> u"
    and half: "\<And>l u. fresh_row s Trial (TrialExpiry (now w)) w l \<Longrightarrow> signed E (now w) l \<Longrightarrow>
      tab (w\<lparr>lics := lics w @ [l]\<rparr>) u \<Longrightarrow> Q \<lparr>ar_ok = False, ar_invoice = ref, ar_msg = RequestNotUpdated\<rparr> u"
    and full: "\<And>l u key ok m. fresh_row s Trial (TrialExpiry (now w)) w l \<Longrightarrow> signed E (now w) l \<Longrightarrow>
      invoice_ok (invoice_row (s_id s) ref (fst (Period p (now w))) (snd (Period p (now w))) ch a (now w)) w \<Longrightarrow>
      tab (booked s p c ref ch a key l w) u \<Longrightarrow> Q \<lparr>ar_ok = ok, ar_invoice = ref, ar_msg = m\<rparr> u"
  shows "wp (approve_invoiced E s p ch a c ref) Q w"
proof -
  let ?note = "''mit der Rechnung ausgestellt, vor der Zahlung''"
  have book: "wp (book_invoice (s_id s) p c ref key ch a) (\<lambda>ok. wp (State_Monad.return
            (if \<not> ok then \<lparr>ar_ok = False, ar_invoice = ref, ar_msg = RequestNotUpdated\<rparr>
             else if mailErr \<noteq> None then \<lparr>ar_ok = False, ar_invoice = ref, ar_msg = InvoiceMailFailed\<rparr>
             else \<lparr>ar_ok = True, ar_invoice = ref, ar_msg = Invoiced (amount_text ch)\<rparr>)) Q) v"
    if l: "fresh_row s Trial (TrialExpiry (now w)) w l" "signed E (now w) l" and v: "tab (w\<lparr>lics := lics w @ [l]\<rparr>) v"
    for l key mailErr v
  proof -
    have tables: "subs v = subs w" "invs v = invs w" "lics v = lics w @ [l]" "now v = now w"
      using tabD [OF v] by simp_all
    have iok: "invoice_ok i v = invoice_ok i w" for i using tables by (simp add: invoice_ok_def)
    have "tab (booked s p c ref ch a key l w) ((update_sub (s_id s) (approved c ref key (now w)) v)\<lparr>faults := t, invs := invs w @
        [invoice_row (s_id s) ref (fst (Period p (now w))) (snd (Period p (now w))) ch a (now w)]\<rparr>)" for t
      using v tables by (simp add: booked_def update_sub_def tab_def)
    note final = full [OF l _ this]
    show ?thesis
      by (rule wp_book_invoice) (use half [OF l] final v tables iok in \<open>auto simp: wp_return\<close>)
  qed
  show ?thesis unfolding approve_invoiced_def Let_def
  proof (intro wp_consts wp_intros, goal_cases)
    case (1 r t t')
    then show ?case by (auto intro: none)
  next
    case (2 r t t' tok l)
    note l = 2(2) and new = 2(3)
    define e where "e = TrialExpiry (now w)"
    have l': "l = new_licence (s_id s) (s_company s) e Trial ?note tok (now w)" "tok \<notin> l_rtoken ` set (lics w)"
      using l new by (simp_all add: e_def licence_ok_def)
    have row: "fresh_row s Trial e w (l\<lparr>l_key := key\<rparr>)" for key
      using l' by (simp add: fresh_row_def)
    have l0: "l = l\<lparr>l_key := ''''\<rparr>" using l'(1) by (simp add: new_licence_def)
    have upd: "update_where (\<lambda>m. l_rtoken m = tok) f (lics w @ [l]) = lics w @ [f l]" for f
      using l' by (intro update_new) simp_all
    let ?r = "AsTrial (ForLicence tok (s_company s) (s_email s) (s_interval s))"
    have req: "rq_token ?r = tok" "rq_orgname ?r = s_company s" by (simp_all add: AsTrial_def ForLicence_def)
    have "signed E (now w) (l\<lparr>l_key := key\<rparr>)"
      if "key = '''' \<or> SignUntil (d_crypto E) (d_issuer E) (now w) ?r e = Inr key" for key
      using that req l' unfolding signed_def by auto
    note sig = this and sig0 = this [of "''''", folded l0, simplified]
    have go: "wp (book_invoice (s_id s) p c ref key ch a) (\<lambda>ok. wp (State_Monad.return
            (if \<not> ok then \<lparr>ar_ok = False, ar_invoice = ref, ar_msg = RequestNotUpdated\<rparr>
             else if mailErr \<noteq> None then \<lparr>ar_ok = False, ar_invoice = ref, ar_msg = InvoiceMailFailed\<rparr>
             else \<lparr>ar_ok = True, ar_invoice = ref, ar_msg = Invoiced (amount_text ch)\<rparr>)) Q) v"
      if "key = '''' \<or> SignUntil (d_crypto E) (d_issuer E) (now w) ?r e = Inr key"
        "tab (w\<lparr>lics := lics w @ [l\<lparr>l_key := key\<rparr>]\<rparr>) v \<or> tab (w\<lparr>lics := lics w @ [l]\<rparr>) v" for key mailErr v
      using that(2) book [OF row [of key, unfolded e_def] sig [OF that(1)]]
        book [OF row [of "''''", folded l0, unfolded e_def] sig0] by blast
    show ?case unfolding e_def [symmetric]
      by (intro wp_consts wp_intros wp_IssueUntil go) (auto simp: tab_lics update_licence_def upd e_def)
  qed
qed


text \<open>The tables and the service's invoices after a free licence is booked.\<close>

definition freed :: "plan \<Rightarrow> string \<Rightarrow> instant \<Rightarrow> subscription \<Rightarrow> subscription" where
  "freed p key t s = s\<lparr>s_status := SubPaid, s_approved := Some t, s_paid := Some t, s_key := Some key,
     s_next := Some (NextInvoiceAt p (snd (Period p t)))\<rparr>"

lemma freed_simps [simp]:
  "s_id (freed p key t s) = s_id s" "s_status (freed p key t s) = SubPaid" "s_contact (freed p key t s) = s_contact s"
  "s_free (freed p key t s) = s_free s" "same_sub s (freed p key t s)" "s_discount (freed p key t s) = s_discount s"
  "s_cancelled (freed p key t s) = s_cancelled s"
  by (simp_all add: freed_def same_sub_def)

definition booked_free :: "subscription \<Rightarrow> plan \<Rightarrow> charge \<Rightarrow> licence \<Rightarrow> 'z world_scheme \<Rightarrow> 'z world_scheme" where
  "booked_free s p ch l w = w\<lparr>subs := update_where (\<lambda>x. s_id x = s_id s) (freed p (l_key l) (now w)) (subs w),
     invs := invs w @ [free_invoice (s_id s) (fst (Period p (now w))) (snd (Period p (now w))) ch (now w)],
     lics := lics w @ [l]\<rparr>"

lemma wp_book_free:
  assumes "\<And>t n. Q False (w\<lparr>faults := t, fresh := n\<rparr>)"
    and "\<And>t inv ch. Charge p n 0 = Inr ch \<Longrightarrow>
      inv = free_invoice sid (fst (Period p (now w))) (snd (Period p (now w))) ch (now w) \<Longrightarrow> invoice_ok inv w \<Longrightarrow>
      Q True (w\<lparr>faults := t, subs := update_where (\<lambda>x. s_id x = sid) (freed p key (now w)) (subs w),
        invs := invs w @ [inv], lics := update_where (\<lambda>l. l_rtoken l = tok) (\<lambda>l. l\<lparr>l_key := key\<rparr>) (lics w)\<rparr>)"
  shows "wp (book_free E sid p n tok key) Q w"
proof -
  have iok: "invoice_ok i (w\<lparr>faults := t, subs := update_where (\<lambda>x. s_id x = sid) (freed p k t') (subs w),
      lics := L\<rparr>) = invoice_ok i w" for i t k t' L
    by (simp add: invoice_ok_def map_update_where del: set_map)
  have f: "(\<lambda>s. s\<lparr>s_status := SubPaid, s_approved := Some t, s_paid := Some t, s_key := Some key,
      s_next := Some (NextInvoiceAt p b)\<rparr>) = freed p key t" if "Period p t = (a, b)" for t a b
    using that by (simp add: freed_def fun_eq_iff)
  show ?thesis unfolding book_free_def Let_def
    by (intro wp_consts wp_intros wp_transaction)
      (simp_all add: f update_sub_def update_licence_def iok assms)
qed

lemma wp_approveFree:
  assumes none: "\<And>u m. tab w u \<Longrightarrow> Q (refuse m) u"
    and half: "\<And>u m l. fresh_row s Full e w l \<Longrightarrow> l_key l = '''' \<Longrightarrow> tab (w\<lparr>lics := lics w @ [l]\<rparr>) u \<Longrightarrow> Q (refuse m) u"
    and full: "\<And>u r l ch p. PlanFor (s_product s) (s_interval s) = Some p \<Longrightarrow> e = add_date (snd (Period p (now w))) 0 0 (pl_grace_days p) \<Longrightarrow>
      Charge p (s_quantity s) 0 = Inr ch \<Longrightarrow>
      invoice_ok (free_invoice (s_id s) (fst (Period p (now w))) (snd (Period p (now w))) ch (now w)) w \<Longrightarrow>
      fresh_row s Full e w l \<Longrightarrow> signed E (now w) l \<Longrightarrow> l_key l \<noteq> '''' \<Longrightarrow>
      tab (booked_free s p ch l w) u \<Longrightarrow> ar_invoice r = '''' \<Longrightarrow> Q r u"
    and e: "\<And>p. PlanFor (s_product s) (s_interval s) = Some p \<Longrightarrow> e = add_date (snd (Period p (now w))) 0 0 (pl_grace_days p)"
    and keys: "\<And>r k. SignUntil (d_crypto E) (d_issuer E) (now w) r e = Inr k \<Longrightarrow> k \<noteq> ''''"
  shows "wp (approveFree E (s_id s) (s_company s) (s_email s) (s_product s) (s_interval s) (s_quantity s)) Q w"
proof (cases "PlanFor (s_product s) (s_interval s)")
  case None
  then show ?thesis using none [of w] by (simp add: approveFree_def wp_return)
next
  case (Some p)
  note e = e [OF Some]
  let ?note = "''Freilizenz '' @ u_dash @ '' keine Rechnung''"
  have main: "wp (do {
        ok \<leftarrow> book_free E (s_id s) p (s_quantity s) tok key;
        (if \<not> ok then State_Monad.return (refuse FreeNotBooked)
         else do {
           sent \<leftarrow> Send (d_issuer E) (s_email s) subj (mailtext key) '''' '''';
           State_Monad.return (if sent then \<lparr>ar_ok = True, ar_invoice = '''', ar_msg = FreeIssued\<rparr>
             else refuse FreeMailFailed) }) }) Q v"
    if l: "l = new_licence (s_id s) (s_company s) e Full ?note tok (now w)" "licence_ok l w"
      and k: "SignUntil (d_crypto E) (d_issuer E) (now w) (ForLicence tok (s_company s) (s_email s) (s_interval s)) e = Inr key"
      and v: "tab (w\<lparr>lics := lics w @ [l]\<rparr>) v" for l tok key v subj mailtext
  proof -
    have tables: "subs v = subs w" "invs v = invs w" "lics v = lics w @ [l]" "now v = now w" "lx_invoices v = lx_invoices w"
      using tabD [OF v] by simp_all
    have tok: "tok \<notin> l_rtoken ` set (lics w)" "l_rtoken l = tok" using l by (simp_all add: licence_ok_def)
    have row: "fresh_row s Full e w (l\<lparr>l_key := key\<rparr>)" "fresh_row s Full e w l" "l_key l = ''''"
      using l tok by (simp_all add: fresh_row_def)
    have sig: "signed E (now w) (l\<lparr>l_key := key\<rparr>)"
      using k l(1) unfolding signed_def by (auto simp: ForLicence_def)
    have iok: "invoice_ok i v = invoice_ok i w" for i using tables by (simp add: invoice_ok_def)
    have fin: "tab (booked_free s p ch (l\<lparr>l_key := key\<rparr>) w) (v\<lparr>faults := t,
        subs := update_where (\<lambda>x. s_id x = s_id s) (freed p key (now w)) (subs w),
        invs := invs w @ [free_invoice (s_id s) (fst (Period p (now w))) (snd (Period p (now w))) ch (now w)],
        lics := lics w @ [l\<lparr>l_key := key\<rparr>]\<rparr>)"
      "tab (booked_free s p ch (l\<lparr>l_key := key\<rparr>) w) (v\<lparr>faults := t, outbox := ob,
        subs := update_where (\<lambda>x. s_id x = s_id s) (freed p key (now w)) (subs w),
        invs := invs w @ [free_invoice (s_id s) (fst (Period p (now w))) (snd (Period p (now w))) ch (now w)],
        lics := lics w @ [l\<lparr>l_key := key\<rparr>]\<rparr>)" for ch t ob
      using tables by (simp_all add: booked_free_def tab_def)
    have n: "key \<noteq> ''''" by (rule keys [OF k])
    show ?thesis unfolding wp_bind
      by (rule wp_book_free)
        (auto simp: n refuse_def wp_return tables iok update_new [OF tok] intro!: wp_intros wp_Send
          half [OF row(2,3), unfolded refuse_def] v full [OF Some e _ _ row(1) sig] fin)
  qed
  have none': "Q (refuse m) (w\<lparr>faults := t, fresh := n\<rparr>)" "Q (refuse m) w" for m t n
    by (simp_all add: none)
  have half': "Q (refuse m) (w\<lparr>faults := t, fresh := n, lics := lics w @ [l]\<rparr>)"
    if "l = new_licence (s_id s) (s_company s) e Full ?note tok (now w)" "licence_ok l w" for m t n l tok
    by (rule half [of l]) (use that in \<open>simp_all add: fresh_row_def licence_ok_def tab_lics\<close>)
  have issue: "wp (case SignUntil (d_crypto E) (d_issuer E) (now w) (ForLicence tok (s_company s) (s_email s) (s_interval s)) e of
        Inl x \<Rightarrow> State_Monad.return (refuse (FreeNotSigned x))
      | Inr key \<Rightarrow> do {
        ok \<leftarrow> book_free E (s_id s) p (s_quantity s) tok key;
        (if \<not> ok then State_Monad.return (refuse FreeNotBooked)
         else do {
           sent \<leftarrow> Send (d_issuer E) (s_email s) (''Euer Vakt-Lizenzschl'' @ u_uuml @ ''ssel'') (free_mail key e tok) '''' '''';
           State_Monad.return (if sent then \<lparr>ar_ok = True, ar_invoice = '''', ar_msg = FreeIssued\<rparr>
             else refuse FreeMailFailed) }) }) Q (w\<lparr>faults := t, fresh := n, lics := lics w @ [l]\<rparr>)"
    if "l = new_licence (s_id s) (s_company s) e Full ?note tok (now w)" "licence_ok l w" for t n l tok
  proof (intro wp_sumI main [OF that] wp_return [THEN iffD2] half' [OF that])
    show "tab (w\<lparr>lics := lics w @ [l]\<rparr>) (w\<lparr>faults := t, fresh := n, lics := lics w @ [l]\<rparr>)" by (simp add: tab_lics)
  qed
  show ?thesis unfolding approveFree_def Some option.case Let_def
  proof (intro wp_ifI wp_return [THEN iffD2] wp_bind [THEN iffD2] wp_gets [THEN iffD2] wp_insert_licence, fold e, goal_cases)
    case (3 t tok l)
    from issue [OF 3(3,4)] show ?case unfolding option.case .
  qed (simp_all add: none' wp_return)
qed


lemma fresh_row_tab: "tab w v \<Longrightarrow> fresh_row s k e v l = fresh_row s k e w l"
  by (simp add: fresh_row_def tab_def)

lemma invoice_ok_tab: "tab w v \<Longrightarrow> invoice_ok i v = invoice_ok i w"
  by (simp add: invoice_ok_def tab_def)

lemma booked_tab: "tab w v \<Longrightarrow> tab (booked s p c ref ch a key l w) (booked s p c ref ch a key l v)"
  by (simp add: booked_def tab_def)

lemma lics_tab: "tab w v \<Longrightarrow> tab (w\<lparr>lics := lics w @ [l]\<rparr>) (v\<lparr>lics := lics v @ [l]\<rparr>)"
  by (simp add: tab_def)

text \<open>The invoice the service was asked for, in a world where nothing else has changed.\<close>

definition asked :: "deployment \<Rightarrow> subscription \<Rightarrow> plan \<Rightarrow> charge \<Rightarrow> bool \<Rightarrow> string \<Rightarrow> string \<Rightarrow> 'z world_scheme
    \<Rightarrow> 'z world_scheme \<Rightarrow> bool" where
  "asked E s p ch verified c ref w v \<longleftrightarrow> (\<exists>tax i. ii_charge i = ch \<and> ii_contact i = c \<and> ii_country i = s_country s \<and>
     taxTreatmentFor \<lparr>tc_country = s_country s, tc_vat_verified = verified, tc_small_business = cl_small (d_client E)\<rparr> = Inr tax \<and>
     tab (w\<lparr>lx_invoices := lx_invoices w @ [(ref, invoice_request (now w) i tax)]\<rparr>) v)"

lemma asked_tables:
  assumes "asked E s p ch verified c ref w v"
  shows "subs v = subs w" "invs v = invs w" "lics v = lics w" "now v = now w"
  using assms by (auto simp: asked_def tab_def)

lemma wp_approve_priced:
  assumes none: "\<And>u m. tab w u \<Longrightarrow> Q (refuse m) u"
    and lost: "\<And>u c ref. asked E s p ch verified c ref w u \<Longrightarrow> Q (refuse InvoiceFailed) u"
    and norow: "\<And>u c ref. asked E s p ch verified c ref w u \<Longrightarrow> Q \<lparr>ar_ok = False, ar_invoice = ref, ar_msg = LicenceRowFailed\<rparr> u"
    and half: "\<And>u v c ref l. asked E s p ch verified c ref w v \<Longrightarrow> fresh_row s Trial (TrialExpiry (now w)) w l \<Longrightarrow>
      signed E (now w) l \<Longrightarrow> tab (v\<lparr>lics := lics w @ [l]\<rparr>) u \<Longrightarrow>
      Q \<lparr>ar_ok = False, ar_invoice = ref, ar_msg = RequestNotUpdated\<rparr> u"
    and full: "\<And>u v c ref l key ok m. asked E s p ch verified c ref w v \<Longrightarrow> fresh_row s Trial (TrialExpiry (now w)) w l \<Longrightarrow>
      signed E (now w) l \<Longrightarrow>
      invoice_ok (invoice_row (s_id s) ref (fst (Period p (now w))) (snd (Period p (now w))) ch a (now w)) w \<Longrightarrow>
      tab (booked s p c ref ch a key l v) u \<Longrightarrow> Q \<lparr>ar_ok = ok, ar_invoice = ref, ar_msg = m\<rparr> u"
  shows "wp (approve_priced E s p ch verified a) Q w"
proof -
  have go: "wp (approve_invoiced E s p ch a c ref) Q v" if v: "asked E s p ch verified c ref w v" for c ref v
  proof -
    note t = asked_tables [OF v]
    have f: "fresh_row s k e v l = fresh_row s k e w l" for k e l
      using t by (simp add: fresh_row_def)
    have i: "invoice_ok i v = invoice_ok i w" for i using t by (simp add: invoice_ok_def)
    have n: "asked E s p ch verified c ref w u" if "tab v u" for u
      using v tab_trans [OF _ that] unfolding asked_def by blast
    show ?thesis
    proof (rule wp_approve_invoiced, goal_cases)
      case (1 u)
      then show ?case by (rule norow [OF n])
    next
      case (2 l u)
      then show ?case using half [OF v, of l u] by (simp only: f t)
    next
      case (3 l u key ok m)
      then show ?case using full [OF v, of l key u ok m] by (simp only: f t i)
    qed
  qed
  have contact: "wp (CreateInvoice (d_client E) i) (\<lambda>r. wp (case r of
             None \<Rightarrow> State_Monad.return (refuse InvoiceFailed)
           | Some invoiceID \<Rightarrow> approve_invoiced E s p ch a c invoiceID) Q) v"
    if i: "ii_charge i = ch" "ii_country i = s_country s" "ii_vat_verified i = verified" "ii_contact i = c"
      and v: "tab w v" for i c v
  proof (rule wp_CreateInvoice, goal_cases)
    case (1 u)
    then show ?case using tab_trans [OF v tab_outside [OF 1(1)]] by (simp add: wp_return none)
  next
    case (2 u r tax)
    have "tab (w\<lparr>lx_invoices := lx_invoices w @ [(lx_name v (fresh v), invoice_request (now w) i tax)]\<rparr>) u"
      using 2(1,4) v by (simp add: tab_def outside_tables)
    then have ask: "asked E s p ch verified c (lx_name v (fresh v)) w u"
      using i 2(3) unfolding asked_def by (intro exI [of _ tax] exI [of _ i]) simp
    then show ?case using 2(2) lost [OF ask] go [OF ask] by (auto simp: wp_return)
  qed
  have priced: "wp (case c of None \<Rightarrow> State_Monad.return (refuse ContactFailed)
      | Some contactID \<Rightarrow> do {
          i \<leftarrow> CreateInvoice (d_client E) \<lparr>ii_contact = contactID, ii_title = pl_title p, ii_intro = intro_text,
            ii_desc = LineDesc p (s_quantity s), ii_charge = ch, ii_due_days = pl_due_days p,
            ii_country = s_country s, ii_vat_verified = verified\<rparr>;
          (case i of
             None \<Rightarrow> State_Monad.return (refuse InvoiceFailed)
           | Some invoiceID \<Rightarrow> approve_invoiced E s p ch a contactID invoiceID) }) Q u" if "tab w u" for c u
  proof (cases c)
    case (Some contactID)
    show ?thesis unfolding Some option.case wp_bind
      by (rule contact [OF _ _ _ _ that]) simp_all
  qed (use none that in \<open>simp add: wp_return\<close>)
  show ?thesis unfolding approve_priced_def wp_bind
    by (rule wp_CreateContact) (rule priced, rule tab_outside)
qed


definition priced :: "deployment \<Rightarrow> 'z world_scheme \<Rightarrow> subscription \<Rightarrow> plan \<Rightarrow> charge \<Rightarrow> InvoiceAmounts \<Rightarrow> bool \<Rightarrow> bool" where
  "priced E w s p ch a verified \<longleftrightarrow> \<not> s_free s \<and> PlanFor (s_product s) (s_interval s) = Some p \<and>
     Charge p (s_quantity s) (s_discount s) = Inr ch \<and>
     InvoiceAmountsFor (cl_small (d_client E)) (ch_net_cents ch) (s_country s) verified = Inr a \<and>
     (verified \<longrightarrow> (\<exists>res. Check (vies w) (now w) (s_vat_id s) = (res, None) \<and> vr_valid res)) \<and>
     (IsEUCountry (s_country s) \<and> to_upper (trim_space (s_country s)) \<noteq> ''DE'' \<longrightarrow> verified)"

lemma sign_nonempty: "good_deployment E \<Longrightarrow> SignUntil (d_crypto E) (d_issuer E) t r e = Inr k \<Longrightarrow> k \<noteq> ''''"
  unfolding good_deployment_def by (auto simp: key_for_def dest: SignUntil_key)

lemma wp_ApproveRequest:
  assumes good: "good_deployment E"
    and none: "\<And>u m. tab w u \<Longrightarrow> Q (refuse m) u"
    and fhalf: "\<And>s u m l e. find_sub sid w = Some s \<Longrightarrow> s_status s = Requested \<Longrightarrow> s_free s \<Longrightarrow>
      fresh_row s Full e w l \<Longrightarrow> l_key l = '''' \<Longrightarrow> tab (w\<lparr>lics := lics w @ [l]\<rparr>) u \<Longrightarrow> Q (refuse m) u"
    and ffull: "\<And>s p u r l ch. find_sub sid w = Some s \<Longrightarrow> s_status s = Requested \<Longrightarrow> s_free s \<Longrightarrow>
      PlanFor (s_product s) (s_interval s) = Some p \<Longrightarrow> Charge p (s_quantity s) 0 = Inr ch \<Longrightarrow>
      invoice_ok (free_invoice (s_id s) (fst (Period p (now w))) (snd (Period p (now w))) ch (now w)) w \<Longrightarrow>
      fresh_row s Full (add_date (snd (Period p (now w))) 0 0 (pl_grace_days p)) w l \<Longrightarrow> signed E (now w) l \<Longrightarrow>
      l_key l \<noteq> '''' \<Longrightarrow> tab (booked_free s p ch l w) u \<Longrightarrow> ar_invoice r = '''' \<Longrightarrow> Q r u"
    and lost: "\<And>s p ch a ver u c ref. find_sub sid w = Some s \<Longrightarrow> s_status s = Requested \<Longrightarrow> priced E w s p ch a ver \<Longrightarrow>
      asked E s p ch ver c ref w u \<Longrightarrow> Q (refuse InvoiceFailed) u \<and> Q \<lparr>ar_ok = False, ar_invoice = ref, ar_msg = LicenceRowFailed\<rparr> u"
    and half: "\<And>s p ch a ver u v c ref l. find_sub sid w = Some s \<Longrightarrow> s_status s = Requested \<Longrightarrow> priced E w s p ch a ver \<Longrightarrow>
      asked E s p ch ver c ref w v \<Longrightarrow> fresh_row s Trial (TrialExpiry (now w)) w l \<Longrightarrow> signed E (now w) l \<Longrightarrow>
      tab (v\<lparr>lics := lics w @ [l]\<rparr>) u \<Longrightarrow> Q \<lparr>ar_ok = False, ar_invoice = ref, ar_msg = RequestNotUpdated\<rparr> u"
    and full: "\<And>s p ch a ver u v c ref l key ok m. find_sub sid w = Some s \<Longrightarrow> s_status s = Requested \<Longrightarrow> priced E w s p ch a ver \<Longrightarrow>
      asked E s p ch ver c ref w v \<Longrightarrow> fresh_row s Trial (TrialExpiry (now w)) w l \<Longrightarrow> signed E (now w) l \<Longrightarrow>
      invoice_ok (invoice_row (s_id s) ref (fst (Period p (now w))) (snd (Period p (now w))) ch a (now w)) w \<Longrightarrow>
      tab (booked s p c ref ch a key l v) u \<Longrightarrow> Q \<lparr>ar_ok = ok, ar_invoice = ref, ar_msg = m\<rparr> u"
  shows "wp (ApproveRequest E sid) Q w"
proof -
  have free: "wp (approveFree E sid (s_company s) (s_email s) (s_product s) (s_interval s) (s_quantity s)) Q v"
    if s: "find_sub sid w = Some s" "s_status s = Requested" "s_free s" and v: "v = w\<lparr>faults := t\<rparr>" for s v t
  proof -
    have sid: "sid = s_id s" using find_sub_id [OF s(1)] by simp
    have tabs: "tab v u = tab w u" "tab (v\<lparr>lics := L\<rparr>) u = tab (w\<lparr>lics := L\<rparr>) u" "invoice_ok i v = invoice_ok i w"
      "fresh_row s k e v l = fresh_row s k e w l" "now v = now w" "lics v = lics w"
      "tab (booked_free s p ch l v) u = tab (booked_free s p ch l w) u" for u L i k e l p ch
      by (simp_all add: v tab_def fresh_row_def booked_free_def)
    show ?thesis unfolding sid
    proof (rule wp_approveFree [where e = "add_date (snd (Period (the (PlanFor (s_product s) (s_interval s))) (now w))) 0 0
        (pl_grace_days (the (PlanFor (s_product s) (s_interval s))))"], goal_cases)
      case (3 u r l ch p)
      then show ?case using ffull [OF s, of p ch l u r] by (simp add: tabs)
    qed (use none fhalf [OF s] sign_nonempty [OF good] in \<open>simp_all add: tabs\<close>)
  qed
  have paid: "wp (approve_priced E s p ch ver a) Q v"
    if s: "find_sub sid w = Some s" "s_status s = Requested" and p: "priced E w s p ch a ver" and v: "tab w v" for s p ch ver a v
  proof -
    have ask: "asked E s p ch ver c ref v u = asked E s p ch ver c ref w u" for c ref u
      using v by (simp add: asked_def tab_def)
    have rest: "invoice_ok i v = invoice_ok i w" "fresh_row s k e v l = fresh_row s k e w l" "now v = now w" "lics v = lics w" for i k e l
      using v by (simp_all add: tab_def fresh_row_def invoice_ok_def)
    show ?thesis
    proof (rule wp_approve_priced, goal_cases)
      case (1 u m)
      then show ?case using none tab_trans [OF v] by blast
    next
      case (2 u c ref)
      then show ?case using lost [OF s p] by (simp only: ask)
    next
      case (3 u c ref)
      then show ?case using lost [OF s p] by (simp only: ask)
    next
      case (4 u v' c ref l)
      then show ?case using half [OF s p, of c ref v' l u] by (simp only: ask rest)
    next
      case (5 u v' c ref l key ok m)
      then show ?case using full [OF s p, of c ref v' l key u ok m] by (simp only: ask rest)
    qed
  qed
  have verify: "wp (verifyVATID E sid (s_country s) (s_vat_id s)) (\<lambda>x. wp (case x of (verified, stop) \<Rightarrow> (case stop of
                      Some m \<Rightarrow> State_Monad.return (refuse (VatRefused m))
                    | None \<Rightarrow>
                        (case InvoiceAmountsFor (cl_small (d_client E)) (ch_net_cents ch) (s_country s) verified of
                           Inl e \<Rightarrow> State_Monad.return (refuse (TaxRefused e))
                         | Inr amounts \<Rightarrow> approve_priced E s p ch verified amounts))) Q) v"
    if s: "find_sub sid w = Some s" "s_status s = Requested" "\<not> s_free s" and p: "PlanFor (s_product s) (s_interval s) = Some p"
      "Charge p (s_quantity s) (s_discount s) = Inr ch" and v: "v = w\<lparr>faults := t\<rparr>" for s p ch v t
  proof (rule wp_verifyVATID, goal_cases)
    case (1 m t v)
    then show ?case by (simp add: wp_return none v)
  next
    case (2 cc)
    then have "\<not> (IsEUCountry (s_country s) \<and> to_upper (trim_space (s_country s)) \<noteq> ''DE'')"
      by (auto simp: IsEUCountry_def euCountries_def)
    with s p show ?case
      by (auto simp: wp_return v priced_def intro!: none wp_intros paid [OF s(1,2)])
  next
    case (3 res t' vs)
    with s p v show ?case
      by (auto simp: wp_return priced_def intro!: none wp_intros paid [OF s(1,2)])
  qed
  have "Q (refuse m) (w\<lparr>faults := t\<rparr>)" for m t by (simp add: none)
  then show ?thesis unfolding ApproveRequest_def
    by (intro wp_consts wp_intros free verify) simp_all
qed


subsection \<open>The ledger stays consistent\<close>

lemma signed_good:
  assumes "good_deployment E" "signed E t l" "l_key l \<noteq> ''''"
  shows "key_good (d_crypto E) l"
  using assms SignUntil_good(1) unfolding signed_def good_deployment_def by metis

lemma requested_seat:
  assumes "seats_good L s" "row_good s" "s_status s \<noteq> SubPaid"
  shows "s_company s \<in> orgs_of L (s_id s) \<or> int (card (orgs_of L (s_id s))) < s_quantity s"
proof (cases "s_company s \<in> orgs_of L (s_id s)")
  case False
  with assms have "orgs_of L (s_id s) = {}" by (auto simp: seats_good_def)
  with assms(2) show ?thesis by (simp add: row_good_def)
qed simp

lemma fresh_row_key: "fresh_row s k e w l \<Longrightarrow> l_rtoken l \<notin> set (map l_rtoken (lics w))"
  by (simp add: fresh_row_def)

text \<open>A row for the company of a customer who has not paid yet: without a key, or with the trial.\<close>

lemma ledger_ok_first_row:
  assumes ok: "ledger_ok E w" and s: "s \<in> set (subs w)" "s_status s \<noteq> SubPaid" and l: "fresh_row s k e w l"
    and key: "l_key l = '''' \<or> good_deployment E \<and> signed E t l \<and> trial_span l"
  shows "ledger_ok E (w\<lparr>lics := lics w @ [l]\<rparr>)"
proof -
  have base: "store_ok (d_crypto E) (subs w) (invs w) (lics w)" using ok by (simp add: ledger_ok_def)
  have seat: "l_orgname l \<in> orgs_of (lics w) (s_id s) \<or> int (card (orgs_of (lics w) (s_id s))) < s_quantity s"
    using requested_seat [OF store_okD(7,5) [OF base s(1)] s(2)] l by (simp add: fresh_row_def)
  have k: "l_key l \<noteq> '''' \<longrightarrow> key_good (d_crypto E) l \<and> (trial_span l \<or> covered (subs w) (invs w) l)"
    using key signed_good by blast
  have "store_ok (d_crypto E) (subs w) (invs w) (lics w @ [l])"
    by (rule store_ok_insert_licence [OF base s(1) _ k fresh_row_key [OF l] seat])
      (use l s(2) in \<open>simp_all add: fresh_row_def\<close>)
  then show ?thesis by (simp add: ledger_ok_def)
qed

lemma trial_row_span: "fresh_row s Trial (TrialExpiry (now w)) w l \<Longrightarrow> trial_span l"
  by (simp add: fresh_row_def trial_span_def TrialExpiry_def TrialLifetimeDays_def add_date_days add_days_def)

lemma ledger_ok_booked:
  assumes ok: "ledger_ok E w" "good_deployment E" and s: "s \<in> set (subs w)" "s_status s = Requested" "\<not> s_free s"
    and l: "fresh_row s Trial (TrialExpiry (now w)) w l" "signed E (now w) l"
    and i: "invoice_ok (invoice_row (s_id s) ref (fst (Period p (now w))) (snd (Period p (now w))) ch a (now w)) w"
  shows "ledger_ok E (booked s p c ref ch a key l w)"
proof -
  let ?i = "invoice_row (s_id s) ref (fst (Period p (now w))) (snd (Period p (now w))) ch a (now w)"
  have base: "store_ok (d_crypto E) (subs w) (invs w) (lics w @ [l])"
    using ledger_ok_first_row [OF ok(1) s(1) _ l(1), where t = "now w"] s(2) ok l(2) trial_row_span [OF l(1)] by (simp add: ledger_ok_def)
  note row = store_okD(5) [OF base s(1)] and none = store_okD(6) [OF base s(1)]
  have free: "i_sub j \<noteq> s_id s" if "j \<in> set (invs w)" for j using none s(2) that by (simp add: cycle_good_def)
  have "i_gross ?i = i_net ?i + i_tax ?i" using i by (simp add: invoice_ok_def)
  then have good: "invoice_good (subs w) ?i" using s(1) by (auto simp: invoice_good_def invoice_row_def)
  have cyc: "cycle_good (invs w @ [?i]) (approved c ref key (now w) s)"
    using s(3) by (auto simp: cycle_good_def)
  have rg: "row_good (approved c ref key (now w) s)"
    using row s(2) by (simp add: row_good_def approved_def)
  have "store_ok (d_crypto E) (update_where (\<lambda>x. s_id x = s_id s) (approved c ref key (now w)) (subs w)) (invs w @ [?i]) (lics w @ [l])"
  proof (rule store_ok_sub_invoice [where f = "approved c ref key (now w)", OF base s(1) refl _ rg])
    show "[?i] = [] \<or> (\<exists>k. [?i] = [k] \<and> i_sub k = s_id s \<and> i_ref k \<notin> set (map i_ref (invs w)) \<and> invoice_good (subs w) k \<and>
      (i_status k = InvOpen \<longrightarrow> (\<forall>i \<in> set (invs w). i_sub i = s_id s \<longrightarrow> i_status i \<noteq> InvOpen)))"
      using i good free by (auto simp: invoice_ok_def invoice_row_def)
  qed (use cyc s(2) in simp_all)
  then show ?thesis by (simp add: ledger_ok_def booked_def)
qed


lemma booked_tables: "tab w v \<Longrightarrow> ledger_ok E (booked s p c ref ch a key l v) = ledger_ok E (booked s p c ref ch a key l w)"
  by (simp add: ledger_ok_def booked_def tab_def)

text \<open>A free period reaches its end day plus the grace, and the key runs out before the day after.\<close>

lemma free_covered:
  assumes "s \<in> set (subs w)" "PlanFor (s_product s) (s_interval s) = Some p"
    and "l_sub l = s_id s" "l_until l = add_date b 0 0 (pl_grace_days p)"
    and "fi = free_invoice (s_id s) a b ch t"
    and "S = update_where (\<lambda>x. s_id x = s_id s) f (subs w)" "same_sub s (f s)"
  shows "covered S (invs w @ [fi]) l"
proof -
  have "f s \<in> set S" using assms(1) unfolding assms(6) set_update_where by (intro image_eqI [of _ _ s]) simp_all
  moreover have "l_until l < midnight (i_end fi + pl_grace_days p + 1)"
  proof -
    have "add_days b (pl_grace_days p) < midnight (day_of b + pl_grace_days p + 1)"
    proof -
      have "b < midnight (day_of b + 1)" unfolding midnight_def day_of_def by presburger
      then show ?thesis by (simp add: add_days_def midnight_def algebra_simps)
    qed
    then show ?thesis by (simp add: assms(4,5) add_date_days free_invoice_def)
  qed
  ultimately show ?thesis using assms(2,3,5,7) unfolding covered_def
    by (intro bexI [of _ "f s"] bexI [of _ fi] exI [of _ p]) (simp_all add: same_sub_def free_invoice_def)
qed

lemma ledger_ok_booked_free:
  assumes ok: "ledger_ok E w" "good_deployment E" and s: "s \<in> set (subs w)" "s_status s = Requested" "s_free s"
    and p: "PlanFor (s_product s) (s_interval s) = Some p"
    and l: "fresh_row s Full (add_date (snd (Period p (now w))) 0 0 (pl_grace_days p)) w l" "signed E (now w) l" "l_key l \<noteq> ''''"
    and i: "invoice_ok (free_invoice (s_id s) (fst (Period p (now w))) (snd (Period p (now w))) ch (now w)) w"
  shows "ledger_ok E (booked_free s p ch l w)"
proof -
  let ?i = "free_invoice (s_id s) (fst (Period p (now w))) (snd (Period p (now w))) ch (now w)"
  let ?f = "freed p (l_key l) (now w)"
  let ?S = "update_where (\<lambda>x. s_id x = s_id s) ?f (subs w)"
  have base: "store_ok (d_crypto E) (subs w) (invs w) (lics w)" using ok(1) by (simp add: ledger_ok_def)
  note row = store_okD(5) [OF base s(1)] and none = store_okD(6) [OF base s(1)]
  have good: "invoice_good (subs w) ?i" using s(1) by (auto simp: invoice_good_def free_invoice_def)
  have idle: "i_status j \<noteq> InvOpen" if "j \<in> set (invs w)" "i_sub j = s_id s" for j
    using none s(2) that by (simp add: cycle_good_def)
  have cyc: "cycle_good (invs w @ [?i]) (?f s)"
    using s(2,3) none by (auto simp: cycle_good_def free_invoice_def)
  have rg: "row_good (?f s)" using row by (simp add: row_good_def freed_def)
  have mid: "store_ok (d_crypto E) ?S (invs w @ [?i]) (lics w)"
  proof (rule store_ok_sub_invoice [where f = ?f, OF base s(1) refl _ rg])
    show "[?i] = [] \<or> (\<exists>k. [?i] = [k] \<and> i_sub k = s_id s \<and> i_ref k \<notin> set (map i_ref (invs w)) \<and> invoice_good (subs w) k \<and>
      (i_status k = InvOpen \<longrightarrow> (\<forall>i \<in> set (invs w). i_sub i = s_id s \<longrightarrow> i_status i \<noteq> InvOpen)))"
      using i good by (auto simp: invoice_ok_def free_invoice_def)
  qed (use cyc in simp_all)
  have x: "?f s \<in> set ?S" using s(1) unfolding set_update_where by (intro image_eqI [of _ _ s]) simp_all
  have seat: "l_orgname l \<in> orgs_of (lics w) (s_id (?f s)) \<or> int (card (orgs_of (lics w) (s_id (?f s)))) < s_quantity (?f s)"
    using requested_seat [OF store_okD(7,5) [OF base s(1)]] s(2) l(1) by (simp add: fresh_row_def freed_def)
  have cov: "covered ?S (invs w @ [?i]) l"
    by (rule free_covered [OF s(1) p _ _ refl refl]) (use l(1) in \<open>simp_all add: fresh_row_def\<close>)
  have "store_ok (d_crypto E) ?S (invs w @ [?i]) (lics w @ [l])"
    by (rule store_ok_insert_licence [OF mid x _ _ fresh_row_key [OF l(1)] seat])
      (use l(1) cov signed_good [OF ok(2) l(2,3)] in \<open>simp_all add: fresh_row_def\<close>)
  then show ?thesis by (simp add: ledger_ok_def booked_free_def)
qed

lemma keeps_ApproveRequest:
  assumes "good_deployment E"
  shows "keeps (ledger_ok E) (ApproveRequest E sid)"
proof (rule keepsI, rule wp_ApproveRequest [OF assms], goal_cases)
  case (1 w u m)
  then show ?case by (simp add: ledger_ok_tab)
next
  case (2 w s u m l e)
  note s = find_sub_id [OF 2(2)]
  have "ledger_ok E (w\<lparr>lics := lics w @ [l]\<rparr>)"
    by (rule ledger_ok_first_row [OF 2(1) _ _ 2(5)]) (use s 2 in simp_all)
  with 2 show ?case by (simp add: ledger_ok_tab)
next
  case (3 w s p u r l ch)
  note s = find_sub_id [OF 3(2)]
  have "ledger_ok E (booked_free s p ch l w)"
    by (rule ledger_ok_booked_free [OF 3(1) assms]) (use s 3 in simp_all)
  with 3 show ?case by (simp add: ledger_ok_tab)
next
  case (4 w s p ch a ver u c ref)
  then show ?case by (simp add: ledger_ok_def asked_tables [OF 4(5)])
next
  case (5 w s p ch a ver u v c ref l)
  note s = find_sub_id [OF 5(2)] and t = asked_tables [OF 5(5)]
  have "ledger_ok E (w\<lparr>lics := lics w @ [l]\<rparr>)"
    by (rule ledger_ok_first_row [OF 5(1) _ _ 5(6), where t = "now w"]) (use s 5 assms trial_row_span [OF 5(6)] in simp_all)
  then have "ledger_ok E (v\<lparr>lics := lics w @ [l]\<rparr>)" by (simp add: ledger_ok_def t)
  with 5 show ?case by (simp add: ledger_ok_tab)
next
  case (6 w s p ch a ver u v c ref l key ok m)
  note s = find_sub_id [OF 6(2)] and t = asked_tables [OF 6(5)]
  have "ledger_ok E (booked s p c ref ch a key l w)"
    by (rule ledger_ok_booked [OF 6(1) assms _ _ _ 6(6,7)]) (use s 6 in \<open>simp_all add: priced_def\<close>)
  then have "ledger_ok E (booked s p c ref ch a key l v)" by (simp add: ledger_ok_def booked_def t)
  with 6 show ?case by (simp add: ledger_ok_tab)
qed


lemma insert_request_wp:
  assumes "\<And>t n. Q None (w\<lparr>faults := t, fresh := n\<rparr>)"
    and "\<And>t sid. sub_ok (mk sid (now w)) w \<Longrightarrow>
      Q (Some sid) (w\<lparr>faults := t, fresh := Suc (fresh w), subs := subs w @ [mk sid (now w)]\<rparr>)"
  shows "wp (insert_request E mk) Q w"
  unfolding insert_request_def by (intro wp_consts wp_intros) (simp_all add: assms sub_ok_def)

lemma wp_notifySeller:
  "(\<And>r t b. Q r (w\<lparr>faults := t, outbox := b\<rparr>)) \<Longrightarrow> wp (notifySeller E sid token i) Q w"
proof -
  assume q: "\<And>r t b. Q r (w\<lparr>faults := t, outbox := b\<rparr>)"
  have "Q r (w\<lparr>faults := t\<rparr>)" "Q r w" for r t using q [where r = r and t = t and b = "outbox w"] q [where r = r and t = "faults w" and b = "outbox w"]
    by simp_all
  with q show ?thesis unfolding notifySeller_def by (intro wp_intros) simp_all
qed

text \<open>What the form and the panel may add: one request, for a plan on sale, that nothing has been
  created for.\<close>

definition new_request :: "subscription \<Rightarrow> bool" where
  "new_request s \<longleftrightarrow> s_status s = Requested \<and> PlanFor (s_product s) (s_interval s) \<noteq> None \<and> 1 \<le> s_quantity s \<and>
     s_portal_hash s = None \<and> s_contact s = None \<and> s_invoice s = None \<and> s_key s = None \<and> s_next s = None \<and>
     s_cancelled s = None \<and> s_company s \<noteq> '''' \<and> s_email s \<noteq> ''''"

lemma new_request_row:
  "PlanFor product interval \<noteq> None \<Longrightarrow> 1 \<le> q \<Longrightarrow> qi_company i \<noteq> '''' \<Longrightarrow> qi_email i \<noteq> '''' \<Longrightarrow>
   new_request (request_row sid i product q interval nts d free h t)"
  by (simp add: new_request_def request_row_def)

lemma ledger_ok_new_request:
  assumes "ledger_ok E w" "new_request s" "sub_ok s w"
  shows "ledger_ok E (w\<lparr>subs := subs w @ [s]\<rparr>)"
  using assms unfolding ledger_ok_def
  by (auto simp: new_request_def sub_ok_def row_good_def intro!: store_ok_insert_sub)

lemma quote_checks_ok:
  "quote_checks E i = Inr j \<Longrightarrow> qi_company j \<noteq> '''' \<and> qi_email j \<noteq> '''' \<and> length (qi_company j) \<le> 200 \<and>
     length (qi_note j) \<le> 2000 \<and> isAlpha2 (qi_country j) \<and> d_address E (qi_email j) \<and>
     (qi_interval j = ''month'' \<or> qi_interval j = ''year'') \<and> qi_product j = qi_product i \<and> qi_quantity j = qi_quantity i"
  by (auto simp: quote_checks_def Let_def split: if_splits)

text \<open>The public form adds nothing, or one bounded request.\<close>

lemma wp_RequestQuote:
  assumes none: "\<And>u r. tab w u \<Longrightarrow> Q r u"
    and row: "\<And>u s. new_request s \<Longrightarrow> s_free s = False \<Longrightarrow> s_discount s = 0 \<Longrightarrow> s_quantity s \<le> 500 \<Longrightarrow> sub_ok s w \<Longrightarrow>
      length (s_company s) \<le> 200 \<Longrightarrow> length (s_note s) \<le> 2000 \<Longrightarrow> isAlpha2 (s_country s) \<Longrightarrow> d_address E (s_email s) \<Longrightarrow>
      tab (w\<lparr>subs := subs w @ [s]\<rparr>) u \<Longrightarrow> Q QuoteOk u"
  shows "wp (RequestQuote E req) Q w"
proof (cases req)
  case None
  then show ?thesis by (simp add: RequestQuote_def wp_return none)
next
  case (Some i0)
  have insert: "wp (do {
      n \<leftarrow> insert_request E (\<lambda>sid. request_row sid i product q (qi_interval i) '''' 0 False h);
      (case n of None \<Rightarrow> State_Monad.return QuoteInternalError
       | Some sid \<Rightarrow> do { _ \<leftarrow> notifySeller E sid token i; State_Monad.return QuoteOk }) }) Q v"
    if i: "quote_checks E i0 = Inr i" and p: "PlanFor product (qi_interval i) \<noteq> None" "1 \<le> q" "q \<le> 500" and v: "tab w v"
    for i product q h token v
  proof -
    note c = quote_checks_ok [OF i]
    let ?row = "\<lambda>sid. request_row sid i product q (qi_interval i) '''' 0 False h (now v)"
    have new: "new_request (?row sid)" for sid using new_request_row p c by simp
    have tabs: "tab w (v\<lparr>faults := t, fresh := n\<rparr>)" for t n using v by simp
    show ?thesis unfolding wp_bind
    proof (rule insert_request_wp, goal_cases)
      case (1 t n)
      then show ?case using none [OF tabs] by (simp add: wp_return)
    next
      case (2 t sid)
      have "sub_ok (?row sid) w" using 2 v by (simp add: sub_ok_def tab_def)
      then have "Q QuoteOk u" if "tab (w\<lparr>subs := subs w @ [?row sid]\<rparr>) u" for u
        by (rule row [OF new _ _ _ _ _ _ _ _ that, rotated 3]) (use c p(3) in \<open>simp_all add: request_row_def\<close>)
      moreover have "tab (w\<lparr>subs := subs w @ [?row sid]\<rparr>) (v\<lparr>faults := t', fresh := n, outbox := b, subs := subs v @ [?row sid]\<rparr>)" for t' n b
        using v by (simp add: tab_def)
      ultimately show ?case unfolding option.case
        by (intro wp_intros wp_notifySeller) simp
    qed
  qed
  show ?thesis unfolding RequestQuote_def Some option.case Let_def
    by (intro wp_consts wp_intros wp_rand_hex insert) (simp_all add: none)
qed


lemma wp_CreateSubscription:
  assumes none: "\<And>u r. tab w u \<Longrightarrow> Q (Inl r) u"
    and row: "\<And>u s. new_request s \<Longrightarrow> sub_ok s w \<Longrightarrow> tab (w\<lparr>subs := subs w @ [s]\<rparr>) u \<Longrightarrow> Q (Inr (s_id s)) u"
  shows "wp (CreateSubscription E n) Q w"
proof -
  have insert: "wp (do {
      s \<leftarrow> insert_request E (\<lambda>sid. request_row sid i product q (qi_interval i) nts d f h);
      State_Monad.return (case s of None \<Rightarrow> Inl CreateFailed | Some sid \<Rightarrow> Inr sid) }) Q v"
    if i: "qi_company i \<noteq> ''''" "qi_email i \<noteq> ''''" "PlanFor product (qi_interval i) \<noteq> None" "1 \<le> q" and v: "tab w v"
    for i product q nts d f h v
    unfolding wp_bind
  proof (rule insert_request_wp, goal_cases)
    case (1 t m)
    have "tab w (v\<lparr>faults := t, fresh := m\<rparr>)" using v by simp
    then show ?case using none by (simp add: wp_return)
  next
    case (2 t sid)
    let ?s = "request_row sid i product q (qi_interval i) nts d f h (now v)"
    have "sub_ok ?s w" using 2 v by (simp add: sub_ok_def tab_def)
    moreover have "tab (w\<lparr>subs := subs w @ [?s]\<rparr>) (v\<lparr>faults := t, fresh := Suc (fresh v), subs := subs v @ [?s]\<rparr>)"
      using v by (simp add: tab_def)
    ultimately show ?case using row [OF new_request_row [OF i(3,4,1,2)]]
      by (simp add: wp_return request_row_def)
  qed
  show ?thesis unfolding CreateSubscription_def Let_def
    by (intro wp_consts wp_intros wp_rand_hex insert) (simp_all add: none)
qed

lemma keeps_RequestQuote: "keeps (ledger_ok E) (RequestQuote E req)"
proof (intro keepsI wp_RequestQuote)
  fix w u :: "'a world_scheme" and s
  assume ok: "ledger_ok E w"
  show "ledger_ok E u" if "tab w u" using ok ledger_ok_tab [OF that] by simp
  show "ledger_ok E u" if "new_request s" "sub_ok s w" "tab (w\<lparr>subs := subs w @ [s]\<rparr>) u"
    using ledger_ok_new_request [OF ok that(1,2)] ledger_ok_tab [OF that(3)] by simp
qed

lemma keeps_CreateSubscription: "keeps (ledger_ok E) (CreateSubscription E n)"
proof (intro keepsI wp_CreateSubscription)
  fix w u :: "'a world_scheme" and s
  assume ok: "ledger_ok E w"
  show "ledger_ok E u" if "tab w u" using ok ledger_ok_tab [OF that] by simp
  show "ledger_ok E u" if "new_request s" "sub_ok s w" "tab (w\<lparr>subs := subs w @ [s]\<rparr>) u"
    using ledger_ok_new_request [OF ok that(1,2)] ledger_ok_tab [OF that(3)] by simp
qed

lemma keeps_Approve:
  assumes "good_deployment E"
  shows "keeps (ledger_ok E) (Approve E sid token)"
proof (rule keepsI)
  fix w :: "'a world_scheme"
  assume ok: "ledger_ok E w"
  have "wp (ApproveRequest E sid) (\<lambda>res. wp (State_Monad.return (ApproveAnswer res)) (\<lambda>_. ledger_ok E)) (w\<lparr>faults := t\<rparr>)" for t
    unfolding wp_return by (rule keeps_wp [OF keeps_ApproveRequest [OF assms]]) (simp add: ok)
  then show "wp (Approve E sid token) (\<lambda>_. ledger_ok E) w"
    unfolding Approve_def by (intro wp_consts wp_intros) (simp_all add: ok)
qed

section \<open>An approval and its invoice\<close>

lemma asked_paper:
  assumes "asked E s p ch verified c ref w v" "PlanFor (s_product s) (s_interval s) = Some p"
    and "Charge p (s_quantity s) d = Inr ch" "s_quantity s < 2 ^ 31"
  shows "\<exists>q. lx_invoices v = lx_invoices w @ [(ref, q)] \<and> 100 * paper_net q = of_int (ch_net_cents ch)"
proof -
  from assms(1) obtain tax i where "ii_charge i = ch"
    "tab (w\<lparr>lx_invoices := lx_invoices w @ [(ref, invoice_request (now w) i tax)]\<rparr>) v" unfolding asked_def by blast
  with paper_net_request [OF assms(2) _ assms(3)] assms(4) show ?thesis by (simp add: tab_def)
qed

text \<open>Abroad within the Union, by the country as it is stored.\<close>

definition eu_abroad :: "string \<Rightarrow> bool" where
  "eu_abroad c \<longleftrightarrow> IsEUCountry c \<and> to_upper (trim_space c) \<noteq> ''DE''"

text \<open>C27: one request, one invoice, at the price of the books. Whatever fails on the way, an
  approval creates no invoice or one; it creates one only for a request that is not handled
  yet and not free, for the net amount its plan, quantity and discount come to, and, for a
  customer in another member state, only on a positive answer of the VAT service. When it
  reports success, the request is approved with an open invoice of the number and net amount
  the bookkeeping service has, or, for a free licence, paid without any invoice there.\<close>

theorem approval_safe:
  assumes "good_deployment E" "ledger_ok E w" "run_state (ApproveRequest E sid) w = (res, u)"
  shows "ledger_ok E u \<and>
    (lx_invoices u = lx_invoices w \<or>
      (\<exists>s p ch ref q. find_sub sid w = Some s \<and> s_status s = Requested \<and> \<not> s_free s \<and>
         PlanFor (s_product s) (s_interval s) = Some p \<and> Charge p (s_quantity s) (s_discount s) = Inr ch \<and>
         lx_invoices u = lx_invoices w @ [(ref, q)] \<and> 100 * paper_net q = of_int (ch_net_cents ch) \<and>
         (eu_abroad (s_country s) \<longrightarrow> (\<exists>v. Check (vies w) (now w) (s_vat_id s) = (v, None) \<and> vr_valid v)))) \<and>
    (ar_ok res \<longrightarrow> (\<exists>s. find_sub sid u = Some s \<and>
       (if s_free s then s_status s = SubPaid \<and> lx_invoices u = lx_invoices w
        else s_status s = Approved \<and> (\<exists>i q. i \<in> set (invs u) \<and> i_sub i = sid \<and> i_ref i = ar_invoice res \<and>
          i_status i = InvOpen \<and> (ar_invoice res, q) \<in> set (lx_invoices u) \<and> 100 * paper_net q = of_int (i_net i)))))"
proof -
  let ?L = "\<lambda>u :: 'a world_scheme. lx_invoices u = lx_invoices w \<or>
      (\<exists>s p ch ref q. find_sub sid w = Some s \<and> s_status s = Requested \<and> \<not> s_free s \<and>
         PlanFor (s_product s) (s_interval s) = Some p \<and> Charge p (s_quantity s) (s_discount s) = Inr ch \<and>
         lx_invoices u = lx_invoices w @ [(ref, q)] \<and> 100 * paper_net q = of_int (ch_net_cents ch) \<and>
         (eu_abroad (s_country s) \<longrightarrow> (\<exists>v. Check (vies w) (now w) (s_vat_id s) = (v, None) \<and> vr_valid v)))"
  let ?R = "\<lambda>res (u :: 'a world_scheme). ar_ok res \<longrightarrow> (\<exists>s. find_sub sid u = Some s \<and>
       (if s_free s then s_status s = SubPaid \<and> lx_invoices u = lx_invoices w
        else s_status s = Approved \<and> (\<exists>i q. i \<in> set (invs u) \<and> i_sub i = sid \<and> i_ref i = ar_invoice res \<and>
          i_status i = InvOpen \<and> (ar_invoice res, q) \<in> set (lx_invoices u) \<and> 100 * paper_net q = of_int (i_net i))))"
  have small: "s_quantity s < 2 ^ 31" if "find_sub sid w = Some s" for s
    using find_sub_id [OF that] assms(2) by (auto simp: ledger_ok_def row_good_def dest!: store_okD(5))
  have upd: "find_sub sid (w'\<lparr>subs := update_where (\<lambda>x. s_id x = s_id s) f (subs w)\<rparr>) = Some (f s)"
    if "find_sub sid w = Some s" "\<And>x. s_id (f x) = s_id x" for s f and w' :: "'a world_scheme"
    using that find_sub_id [OF that(1)] find_update_same [of "\<lambda>x. s_id x = sid" f "\<lambda>x. s_id x = s_id s" "subs w"]
    by (simp add: find_sub_def)
  have paper: "\<exists>q. lx_invoices v = lx_invoices w @ [(ref, q)] \<and> 100 * paper_net q = of_int (ch_net_cents ch)"
    if "find_sub sid w = Some s" "priced E w s p ch a ver" "asked E s p ch ver c ref w v" for s p ch a ver c ref v
    using asked_paper [OF that(3) _ _ small [OF that(1)]] that(2) by (auto simp: priced_def)
  have L: "?L u" if "find_sub sid w = Some s" "s_status s = Requested" "priced E w s p ch a ver"
    "asked E s p ch ver c ref w v" "lx_invoices u = lx_invoices v" for s p ch a ver c ref v u
    using paper [OF that(1,3,4)] that(1-3,5) unfolding priced_def eu_abroad_def by metis
  have "wp (ApproveRequest E sid) (\<lambda>res u. ?L u \<and> ?R res u) w"
  proof (rule wp_ApproveRequest [OF assms(1)], goal_cases)
    case (1 u m)
    then show ?case by (simp add: refuse_def tabD)
  next
    case (2 s u m l e)
    then show ?case by (simp add: refuse_def tab_def)
  next
    case (3 s p u r l ch)
    have "find_sub sid u = Some (freed p (l_key l) (now w) s)"
      using find_sub_tab [OF 3(10)] upd [OF 3(1), of "freed p (l_key l) (now w)" w]
      by (simp add: booked_free_def find_sub_def)
    moreover have "lx_invoices u = lx_invoices w" using 3(10) by (simp add: tab_def booked_free_def)
    ultimately show ?case using 3(3) by simp
  next
    case (4 s p ch a ver u c ref)
    then show ?case using L [OF 4 refl] by (simp add: refuse_def)
  next
    case (5 s p ch a ver u v c ref l)
    have "lx_invoices u = lx_invoices v" using 5(7) by (simp add: tab_def)
    then show ?case using L [OF 5(1-4)] by simp
  next
    case (6 s p ch a ver u v c ref l key ok m)
    note t = asked_tables [OF 6(4)]
    have lx: "lx_invoices u = lx_invoices v" using 6(8) by (simp add: tab_def booked_def)
    have f: "find_sub sid u = Some (approved c ref key (now w) s)"
      using find_sub_tab [OF 6(8)] upd [OF 6(1), of "approved c ref key (now w)" w]
      by (simp add: booked_def find_sub_def t)
    let ?i = "invoice_row (s_id s) ref (fst (Period p (now w))) (snd (Period p (now w))) ch a (now w)"
    have i: "?i \<in> set (invs u)" using 6(8) by (simp add: tab_def booked_def t)
    from paper [OF 6(1,3,4)] obtain q where q: "lx_invoices u = lx_invoices w @ [(ref, q)]"
      "100 * paper_net q = of_int (ch_net_cents ch)" unfolding lx by blast
    have "\<exists>i q. i \<in> set (invs u) \<and> i_sub i = sid \<and> i_ref i = ref \<and> i_status i = InvOpen \<and>
        (ref, q) \<in> set (lx_invoices u) \<and> 100 * paper_net q = of_int (i_net i)"
      using i q find_sub_id [OF 6(1)] by (intro exI [of _ ?i] exI [of _ q]) (simp add: invoice_row_def)
    with f L [OF 6(1-4) lx] 6(3) show ?case by (simp add: priced_def)
  qed
  from wp_run [OF this assms(3)] keepsD [OF keeps_ApproveRequest [OF assms(1)] assms(2), of sid] assms(3)
  show ?thesis by simp
qed


definition order_world :: "world" where
  "order_world = sample_world 0 [(sample_sub Requested None)\<lparr>s_contact := None, s_invoice := None, s_approved := None\<rparr>] [] []"

lemma order_ledger: "ledger_ok E order_world"
  by (simp add: order_world_def ledger_ok_def store_ok_def sample_defs row_good_def plans_simps cycle_good_def
      seats_good_def orgs_of_def one_open_def)

lemma run_IssueUntil_ex:
  assumes "good_deployment E" "faults s = []" "Enabled (d_issuer E)" "rq_token l \<noteq> ''''"
    and "\<not> bad_line (sm_from (is_smtp (d_issuer E)))" "\<not> bad_line (rq_email l)"
  shows "\<exists>key m. key \<noteq> '''' \<and> run_state (IssueUntil (d_crypto E) (d_issuer E) l e pdf name) s
    = ((key, None), s\<lparr>outbox := outbox s @ [(rq_email l, m)]\<rparr>)"
proof -
  obtain key where "SignUntil (d_crypto E) (d_issuer E) (now s) l e = Inr key"
    using SignUntil_total assms unfolding good_deployment_def by metis
  with run_IssueUntil_Nil [OF assms(2) this assms(5,6)] sign_nonempty [OF assms(1) this] show ?thesis by metis
qed

lemma order_run: "\<exists>u. run_state (ApproveRequest sample_deployment ''s1'') order_world
   = (\<lparr>ar_ok = True, ar_invoice = ''RE8'', ar_msg = Invoiced (amount_text \<lparr>ch_quantity = 2, ch_percent = 0,
       ch_list_cents = 59800, ch_discount_cents = 0, ch_net_cents = 59800\<rparr>)\<rparr>, u) \<and> (\<forall>s \<in> set (subs u). \<not> s_free s)"
proof -
  let ?s = "(sample_sub Requested None)\<lparr>s_contact := None, s_invoice := None, s_approved := None\<rparr>"
  let ?ch = "\<lparr>ch_quantity = 2, ch_percent = 0, ch_list_cents = 59800, ch_discount_cents = 0, ch_net_cents = 59800\<rparr>"
  let ?a = "\<lparr>ia_net = 59800, ia_tax = 0, ia_gross = 59800, ia_type = ''vatfree'', ia_rate = 0\<rparr>"
  have p: "PlanFor (s_product ?s) (s_interval ?s) = Some pro_month" by (simp add: plans_simps sample_sub_def)
  have c: "Charge pro_month (s_quantity ?s) (s_discount ?s) = Inr ?ch" unfolding sample_sub_def by code_simp
  have cc: "to_upper (trim_space ''DE'') = ''DE''" by code_simp
  have a: "InvoiceAmountsFor True 59800 ''DE'' False = Inr ?a" by code_simp
  have d: "cl_small (d_client sample_deployment) = True" "client_enabled (d_client sample_deployment)" "Enabled (d_issuer sample_deployment)"
    by (simp_all add: sample_deployment_def client_enabled_def Enabled_def toy_issuer_def)
  have f: "find_sub ''s1'' order_world = Some ?s" "faults order_world = []"
    by (simp_all add: order_world_def find_sub_def sample_defs)
  have s: "s_status ?s = Requested" "\<not> s_free ?s" "s_country ?s = ''DE''" by (simp_all add: sample_sub_def)
  have 1: "run_state (ApproveRequest sample_deployment ''s1'') order_world
      = run_state (approve_priced sample_deployment ?s pro_month ?ch False ?a) order_world"
    unfolding ApproveRequest_def using f d s p c a cc
    by (simp add: run_simps verifyVATID_def)
  have "\<not> isl (taxTreatmentFor \<lparr>tc_country = ''DE'', tc_vat_verified = False, tc_small_business = True\<rparr>)" by code_simp
  then obtain tx where tx: "taxTreatmentFor \<lparr>tc_country = ''DE'', tc_vat_verified = False, tc_small_business = True\<rparr> = Inr tx"
    by (cases "taxTreatmentFor \<lparr>tc_country = ''DE'', tc_vat_verified = False, tc_small_business = True\<rparr>") simp_all
  have names: "show_nat 7 = ''7''" "show_nat 8 = ''8''" by code_simp+
  have n: "lx_name order_world k = ''RE'' @ show_nat k" "fresh order_world = 7" for k
    by (simp_all add: order_world_def sample_world_def)
  have "\<exists>v. run_state (approve_priced sample_deployment ?s pro_month ?ch False ?a) order_world
      = run_state (approve_invoiced sample_deployment ?s pro_month ?ch ?a ''RE7'' ''RE8'') v \<and>
      faults v = [] \<and> subs v = subs order_world \<and> invs v = [] \<and> lics v = []"
    unfolding approve_priced_def CreateContact_def CreateInvoice_def
    by (simp add: run_simps run_do_create f(2) d s tx n names, intro exI conjI, rule refl)
      (simp_all add: order_world_def sample_world_def)
  then obtain v where 2: "run_state (approve_priced sample_deployment ?s pro_month ?ch False ?a) order_world
      = run_state (approve_invoiced sample_deployment ?s pro_month ?ch ?a ''RE7'' ''RE8'') v"
    and v: "faults v = []" "subs v = [?s]" "invs v = []" "lics v = []" by (auto simp: order_world_def sample_world_def)
  let ?r = "AsTrial (ForLicence (d_uuid sample_deployment (fresh v)) (s_company ?s) (s_email ?s) (s_interval ?s))"
  let ?l = "new_licence (s_id ?s) (s_company ?s) (TrialExpiry (now v)) Trial ''mit der Rechnung ausgestellt, vor der Zahlung'' (d_uuid sample_deployment (fresh v)) (now v)"
  obtain pdf where pdf: "run_state (InvoicePDF (d_client sample_deployment) ''RE8'') v = (pdf, v)"
    using v(1) d by (simp add: InvoicePDF_def run_do_get)
  have lok: "licence_ok ?l v" using v by (simp add: licence_ok_def)
  have "rq_token ?r \<noteq> ''''" "rq_email ?r = ''a@acme''" by (simp_all add: AsTrial_def ForLicence_def sample_deployment_def sample_sub_def)
  then obtain key m where key: "run_state (IssueUntil (d_crypto sample_deployment) (d_issuer sample_deployment) ?r (TrialExpiry (now v))
      (pdf_or_nil pdf) ''Rechnung-Vakt-Pro.pdf'') (v\<lparr>fresh := Suc (fresh v), lics := [?l]\<rparr>)
      = ((key, None), v\<lparr>fresh := Suc (fresh v), lics := [?l], outbox := outbox v @ [(''a@acme'', m)]\<rparr>)"
    using run_IssueUntil_ex [OF sample_good, of "v\<lparr>fresh := Suc (fresh v), lics := [?l]\<rparr>" ?r "TrialExpiry (now v)"
      "pdf_or_nil pdf" "''Rechnung-Vakt-Pro.pdf''"] v(1) d by (auto simp: sample_deployment_def toy_issuer_def bad_line_def)
  have i: "invoice_ok (invoice_row (s_id ?s) ''RE8'' a b ?ch ?a t) (update_sub (s_id ?s) (approved c ref k t) (v\<lparr>fresh := n, lics := L, outbox := ob\<rparr>))" for a b c ref k t n L ob
    using v by (simp add: invoice_ok_update_sub) (simp add: invoice_ok_def invoice_row_def)
  have nf: "\<forall>x \<in> set (update_where P (approved c r k t) [?s]). \<not> s_free x" for P c r k t
    using s(2) by (simp add: update_where_def)
  show ?thesis unfolding 1 2 approve_invoiced_def book_invoice_def Let_def
    using v pdf lok key i nf
    by (simp add: run_simps Let_def transaction_def case_prod_beta update_licence_def update_sub_def)
qed

theorem approval_safe_witness:
  "\<exists>u i q. ar_invoice (fst (run_state (ApproveRequest sample_deployment ''s1'') order_world)) = ''RE8'' \<and>
     u = snd (run_state (ApproveRequest sample_deployment ''s1'') order_world) \<and> ledger_ok sample_deployment u \<and>
     i \<in> set (invs u) \<and> i_ref i = ''RE8'' \<and> i_status i = InvOpen \<and> (''RE8'', q) \<in> set (lx_invoices u) \<and>
     100 * paper_net q = of_int (i_net i)"
proof -
  from order_run obtain u where u: "run_state (ApproveRequest sample_deployment ''s1'') order_world
   = (\<lparr>ar_ok = True, ar_invoice = ''RE8'', ar_msg = Invoiced (amount_text \<lparr>ch_quantity = 2, ch_percent = 0,
       ch_list_cents = 59800, ch_discount_cents = 0, ch_net_cents = 59800\<rparr>)\<rparr>, u)" "\<forall>s \<in> set (subs u). \<not> s_free s"
    by blast
  from approval_safe [OF sample_good order_ledger u(1), unfolded ApproveResult.simps] obtain s where ok: "ledger_ok sample_deployment u"
    and s: "find_sub ''s1'' u = Some s" "if s_free s then s_status s = SubPaid \<and> lx_invoices u = lx_invoices order_world
        else s_status s = Approved \<and> (\<exists>i q. i \<in> set (invs u) \<and> i_sub i = ''s1'' \<and> i_ref i = ''RE8'' \<and>
          i_status i = InvOpen \<and> (''RE8'', q) \<in> set (lx_invoices u) \<and> 100 * paper_net q = of_int (i_net i))"
    by blast
  have "\<not> s_free s" using find_sub_id [OF s(1)] u(2) by blast
  with s(2) obtain i q where "i \<in> set (invs u)" "i_ref i = ''RE8''" "i_status i = InvOpen"
    "(''RE8'', q) \<in> set (lx_invoices u)" "100 * paper_net q = of_int (i_net i)" by auto
  with ok u(1) show ?thesis by (intro exI [of _ u] exI [of _ i] exI [of _ q]) simp
qed

text \<open>the public form. Whatever is posted to it, no invoice, licence or other row changes, and at
  most one request is added: not free, without a discount, for a plan on sale and 1 to 500
  seats, with bounded texts, a country of two capitals and an address that parses; a filled
  honeypot adds nothing and learns nothing.\<close>

theorem public_form_safe:
  assumes "run_state (RequestQuote E req) w = (r, u)"
  shows "invs u = invs w \<and> lics u = lics w \<and> lx_invoices u = lx_invoices w \<and>
    (subs u = subs w \<or> r = QuoteOk \<and> (\<exists>s. subs u = subs w @ [s] \<and> s_id s \<notin> s_id ` set (subs w) \<and> s_status s = Requested \<and>
       \<not> s_free s \<and> s_discount s = 0 \<and> PlanFor (s_product s) (s_interval s) \<noteq> None \<and> 1 \<le> s_quantity s \<and> s_quantity s \<le> 500 \<and>
       length (s_company s) \<le> 200 \<and> length (s_note s) \<le> 2000 \<and> isAlpha2 (s_country s) \<and> d_address E (s_email s))) \<and>
    (\<forall>i. req = Some i \<and> trim_space (qi_website i) \<noteq> '''' \<longrightarrow> r = QuoteOk \<and> u = w)"
proof -
  have "wp (RequestQuote E req) (\<lambda>r u. invs u = invs w \<and> lics u = lics w \<and> lx_invoices u = lx_invoices w \<and>
    (subs u = subs w \<or> r = QuoteOk \<and> (\<exists>s. subs u = subs w @ [s] \<and> s_id s \<notin> s_id ` set (subs w) \<and> s_status s = Requested \<and>
       \<not> s_free s \<and> s_discount s = 0 \<and> PlanFor (s_product s) (s_interval s) \<noteq> None \<and> 1 \<le> s_quantity s \<and> s_quantity s \<le> 500 \<and>
       length (s_company s) \<le> 200 \<and> length (s_note s) \<le> 2000 \<and> isAlpha2 (s_country s) \<and> d_address E (s_email s)))) w"
    by (rule wp_RequestQuote) (auto simp: tab_def new_request_def sub_ok_def)
  moreover have "r = QuoteOk \<and> u = w" if "req = Some i" "trim_space (qi_website i) \<noteq> ''''" for i
    using assms that by (simp add: RequestQuote_def run_simps)
  ultimately show ?thesis using wp_run [OF _ assms] by blast
qed

definition sample_quote :: quoteRequestInput where
  "sample_quote = \<lparr>qi_company = '' Acme '', qi_contact = '''', qi_email = ''a@acme'', qi_vat_id = '''', qi_street = '''',
     qi_zip = '''', qi_city = '''', qi_country = ''at'', qi_note = '''', qi_product = '''', qi_quantity = 7,
     qi_interval = ''day'', qi_website = ''''\<rparr>"

theorem public_form_safe_witness:
  "\<exists>u s. run_state (RequestQuote sample_deployment (Some sample_quote)) (sample_world 0 [] [] []) = (QuoteOk, u) \<and>
    subs u = [s] \<and> s_status s = Requested \<and> s_quantity s \<le> 500 \<and> s_country s = ''AT''"
proof -
  let ?w = "sample_world 0 [] [] []"
  let ?i = "sample_quote\<lparr>qi_company := ''Acme'', qi_interval := ''year'', qi_country := ''AT''\<rparr>"
  have i: "quote_checks sample_deployment sample_quote = Inr ?i"
    unfolding quote_checks_def sample_quote_def sample_deployment_def deployment.simps by code_simp
  have f: "faults ?w = []" "trim_space (qi_website sample_quote) = ''''" by (simp_all add: sample_world_def sample_quote_def trim_space_def)
  have p: "PlanFor ''pro'' ''year'' = Some pro_year" by (rule plans_simps)
  have ok: "sub_ok (request_row sid ?i ''pro'' 7 ''year'' '''' 0 False h t) (?w\<lparr>fresh := k\<rparr>)" for h t k sid
    by (simp add: sub_ok_def request_row_def sample_world_def)
  have q: "qi_product sample_quote = ''''" "qi_quantity sample_quote = 7" "subs ?w = []"
    "\<not> bad_line (sm_from (is_smtp (d_issuer sample_deployment)))" "\<not> bad_line (d_notify_to sample_deployment)"
    "s_country (request_row sid ?i a b c d e g h t) = ''AT''" for sid a b c d e g h t
    by (simp_all add: sample_quote_def sample_world_def sample_deployment_def toy_issuer_def bad_line_def request_row_def)
  have "\<exists>u s. run_state (RequestQuote sample_deployment (Some sample_quote)) ?w = (QuoteOk, u) \<and> subs u = [s] \<and> s_country s = ''AT''"
    using f i p ok q by (simp add: RequestQuote_def run_simps Let_def rand_hex_def insert_request_def notifySeller_def)
  then obtain u s where r: "run_state (RequestQuote sample_deployment (Some sample_quote)) ?w = (QuoteOk, u)"
    "subs u = [s]" "s_country s = ''AT''" by blast
  from public_form_safe [OF r(1)] r f show ?thesis by (auto simp: sample_world_def)
qed

end
