(* ===== verification/Billing_Cycle.thy ===== *)
theory Billing_Cycle
  imports Billing_Orders
begin

text \<open>
  The billing cycle (\<^verbatim>\<open>internal/billing/lexware/handler.go\<close>, \<^verbatim>\<open>subscription.go\<close>,
  \<^verbatim>\<open>free.go\<close>): a payment becomes a key (\<open>settle\<close>, from the webhook or the poller), the
  sweep raises the next invoice (\<open>renewOnce\<close>), \<open>Cancel\<close> ends a subscription.
  A handler that returns nothing returns here the line it logs last. One handler runs at a
  time.
\<close>

definition u_ndash :: string where "u_ndash = [CHR 0xE2, CHR 0x80, CHR 0x93]"
definition u_Uuml :: string where "u_Uuml = [CHR 0xC3, CHR 0x9C]"

text \<open>\<^verbatim>\<open>UPDATE ... RETURNING\<close>: no row, and no connection, are an error to the caller.\<close>

definition returning :: "('e effects_scheme \<Rightarrow> 'a option) \<Rightarrow> ('e effects_scheme \<Rightarrow> 'e effects_scheme)
    \<Rightarrow> ('e effects_scheme, 'a option) state" where
  "returning sel f = do {
     ok \<leftarrow> attempt;
     (if \<not> ok then State_Monad.return None
      else do {
        r \<leftarrow> gets sel;
        (case r of None \<Rightarrow> State_Monad.return None
         | Some x \<Rightarrow> do { modify f; State_Monad.return (Some x) }) }) }"

text \<open>Rows read in a loop that does not ask for the error afterwards: a lost connection
  shortens the result.\<close>

fun received :: "'a list \<Rightarrow> ('e effects_scheme, 'a list) state" where
  "received [] = State_Monad.return []"
| "received (x # xs) = do {
     ok \<leftarrow> attempt;
     (if ok then do { ys \<leftarrow> received xs; State_Monad.return (x # ys) } else State_Monad.return []) }"

section \<open>A payment\<close>

datatype settle_log =
    StatusUnreadable
  | StillDraft
  | NotSettled string
  | NotClaimed
  | SubscriptionLost
  | PlanGone
  | LicenceRowMissing
  | KeyNotSigned "issue_error option"
  | KeyNotMailed
  | CycleStuck
  | CycleAdvanced

definition paid_now :: "instant \<Rightarrow> invoice \<Rightarrow> invoice" where
  "paid_now t i = i\<lparr>i_status := InvPaid, i_paid := Some t\<rparr>"

text \<open>The subscription and the period end of the invoice that is claimed.\<close>

definition open_invoice :: "string \<Rightarrow> 'z world_scheme \<Rightarrow> (string \<times> int) option" where
  "open_invoice ref w = (case find_invoice ref w of
     None \<Rightarrow> None
   | Some i \<Rightarrow> if i_status i = InvOpen then Some (i_sub i, i_end i) else None)"

text \<open>The oldest licence in the customer's own name.\<close>

definition own_licence :: "string \<Rightarrow> string \<Rightarrow> 'z world_scheme \<Rightarrow> licence option" where
  "own_licence sid company w =
     (case sort_key l_created (filter (\<lambda>l. l_sub l = sid \<and> l_orgname l = company) (lics w)) of
        [] \<Rightarrow> None | l # _ \<Rightarrow> Some l)"

definition settled_sub :: "plan \<Rightarrow> string \<Rightarrow> int \<Rightarrow> instant \<Rightarrow> subscription \<Rightarrow> subscription" where
  "settled_sub p key fin t s = s\<lparr>s_status := SubPaid,
     s_paid := (case s_paid s of None \<Rightarrow> Some t | Some x \<Rightarrow> Some x),
     s_key := Some key, s_next := Some (NextInvoiceAt p (midnight fin))\<rparr>"

definition settled_licence :: "string \<Rightarrow> instant \<Rightarrow> licence \<Rightarrow> licence" where
  "settled_licence key until l = l\<lparr>l_key := key, l_until := until, l_kind := Full, l_note := ''issued on payment''\<rparr>"

definition portal_text :: "int \<Rightarrow> string \<Rightarrow> string" where
  "portal_text quantity link =
     ''Hallo,'' @ nl @ nl
     @ ''ihr habt '' @ show_nat (nat quantity) @ '' Vakt-Pro-Lizenzen gekauft.'' @ nl @ nl
     @ ''Unter diesem Link seht ihr, wie viele Pl'' @ u_auml @ ''tze noch frei sind, und stellt euch die'' @ nl
     @ ''Schl'' @ u_uuml @ ''ssel f'' @ u_uuml @ ''r eure Kunden selbst aus '' @ u_dash @ '' ihr m'' @ u_uuml @ ''sst uns daf'' @ u_uuml @ ''r nicht schreiben:'' @ nl @ nl
     @ link @ nl @ nl
     @ ''Der Link ist euer Zugang, bitte behandelt ihn wie ein Passwort. Braucht ihr einen'' @ nl
     @ ''neuen, sagt Bescheid '' @ u_dash @ '' dann wird der alte ung'' @ u_uuml @ ''ltig.'' @ nl @ nl
     @ ''Wichtig: Der Name der Organisation wird in den Schl'' @ u_uuml @ ''ssel signiert und erscheint in'' @ nl
     @ ''der Vakt-Instanz eures Kunden. Er l'' @ u_auml @ ''sst sich nachtr'' @ u_auml @ ''glich nicht '' @ u_auml @ ''ndern.'' @ nl @ nl
     @ ''Viele Gr'' @ u_uuml @ u_szlig @ ''e'' @ nl
     @ ''Stefan'' @ nl
     @ ''Norvik Ops'' @ nl"

definition send_portal_link :: "deployment \<Rightarrow> string \<Rightarrow> string \<Rightarrow> ('z world_scheme, unit) state" where
  "send_portal_link E sid email = (case d_portal E of
     None \<Rightarrow> skip
   | Some base \<Rightarrow> do {
       q \<leftarrow> row (\<lambda>w. map_option s_quantity (find_sub sid w));
       (case q of
          None \<Rightarrow> skip
        | Some quantity \<Rightarrow>
            if quantity > 1 then do {
              l \<leftarrow> NewPortalToken E sid base;
              (case l of
                 None \<Rightarrow> skip
               | Some link \<Rightarrow> do {
                   _ \<leftarrow> Send (d_issuer E) email ''Eure Vakt-Lizenzverwaltung'' (portal_text quantity link) '''' '''';
                   skip }) }
            else skip) })"

text \<open>From the claimed invoice on: sign, book, mail.\<close>

definition settle_key :: "deployment \<Rightarrow> subscription \<Rightarrow> plan \<Rightarrow> int \<Rightarrow> string \<Rightarrow> ('z world_scheme, settle_log) state" where
  "settle_key E s p fin token = do {
     let entitledTo = add_date (midnight fin) 0 0 (pl_grace_days p);
     (key, mailErr) \<leftarrow> IssueUntil (d_crypto E) (d_issuer E)
       (ForLicence token (s_company s) (s_email s) (s_interval s)) entitledTo '''' '''';
     (if key = '''' then State_Monad.return (KeyNotSigned mailErr)
      else do {
        t \<leftarrow> gets now;
        advanced \<leftarrow> exec (update_sub (s_id s) (settled_sub p key fin t));
        upgraded \<leftarrow> exec (update_licence token (settled_licence key entitledTo));
        (if mailErr \<noteq> None then State_Monad.return KeyNotMailed
         else do {
           send_portal_link E (s_id s) (s_email s);
           State_Monad.return (if advanced \<and> upgraded then CycleAdvanced else CycleStuck) }) }) }"

definition settle :: "deployment \<Rightarrow> string \<Rightarrow> ('z world_scheme, settle_log) state" where
  "settle E ref = do {
     pay \<leftarrow> PaymentStatus (d_client E) ref;
     (case pay of
        CallFailed \<Rightarrow> State_Monad.return StatusUnreadable
      | NotApplicable \<Rightarrow> State_Monad.return StillDraft
      | Body b \<Rightarrow>
          if \<not> pay_settled b then State_Monad.return (NotSettled (py_status b))
          else do {
            t \<leftarrow> gets now;
            c \<leftarrow> returning (open_invoice ref) (update_invoice ref (paid_now t));
            (case c of
               None \<Rightarrow> State_Monad.return NotClaimed
             | Some (sid, fin) \<Rightarrow> do {
                 q \<leftarrow> row (find_sub sid);
                 (case q of
                    None \<Rightarrow> State_Monad.return SubscriptionLost
                  | Some s \<Rightarrow>
                      (case PlanFor (s_product s) (s_interval s) of
                         None \<Rightarrow> State_Monad.return PlanGone
                       | Some p \<Rightarrow> do {
                           r \<leftarrow> row (own_licence sid (s_company s));
                           (case r of
                              None \<Rightarrow> State_Monad.return LicenceRowMissing
                            | Some l \<Rightarrow> settle_key E s p fin (l_rtoken l)) })) }) }) }"

text \<open>The webhook: \<^term>\<open>None\<close> for a body that does not bind. The event is a hint, whose resource
  is looked up; the reply is sent before.\<close>

definition Webhook :: "deployment \<Rightarrow> (string \<times> string) option \<Rightarrow> ('z world_scheme, nat) state" where
  "Webhook E ev = (case ev of
     None \<Rightarrow> State_Monad.return 400
   | Some (typ, ref) \<Rightarrow>
       if typ \<noteq> EventPaymentChanged \<or> ref = '''' then State_Monad.return 200
       else if \<not> client_enabled (d_client E) \<or> \<not> Enabled (d_issuer E) then State_Monad.return 200
       else do { _ \<leftarrow> settle E ref; State_Monad.return 200 })"

definition pollOnce :: "deployment \<Rightarrow> ('z world_scheme, unit) state" where
  "pollOnce E = do {
     t \<leftarrow> gets now;
     r \<leftarrow> db (\<lambda>w. map i_ref (filter (\<lambda>i. i_status i = InvOpen \<and> i_created i > t - 180 * secs_per_day) (invs w)));
     (case r of
        None \<Rightarrow> skip
      | Some rows \<Rightarrow> do {
          refs \<leftarrow> received rows;
          for_each (\<lambda>ref. do { _ \<leftarrow> settle E ref; skip }) refs }) }"

section \<open>The next invoice\<close>

record dueSubscription =
  du_id :: string
  du_company :: string
  du_email :: string
  du_product :: string
  du_interval :: string
  du_quantity :: int
  du_discount :: int
  du_free :: bool
  du_contact :: string
  du_end :: instant
  du_country :: string
  du_vat_id :: string

datatype renew_result =
    RenewNoPlan
  | RenewDiscount discount_error
  | RenewTax tax_error
  | RenewNotCreated
  | RenewNotStored string
  | RenewNotCleared string
  | RenewInvoiced string bool   \<comment> \<open>the invoice, and whether the mail went out\<close>
  | FreeNotStored
  | FreeNotAdvanced
  | FreeExtended

definition due_of :: "subscription \<Rightarrow> instant \<Rightarrow> dueSubscription" where
  "due_of s end = \<lparr>du_id = s_id s, du_company = s_company s, du_email = s_email s, du_product = s_product s,
     du_interval = s_interval s, du_quantity = s_quantity s, du_discount = s_discount s, du_free = s_free s,
     du_contact = (case s_contact s of None \<Rightarrow> '''' | Some c \<Rightarrow> c), du_end = end, du_country = s_country s,
     du_vat_id = s_vat_id s\<rparr>"

definition is_due :: "'z world_scheme \<Rightarrow> subscription \<Rightarrow> bool" where
  "is_due w s \<longleftrightarrow> s_status s = SubPaid \<and> s_cancelled s = None \<and> (\<exists>n. s_next s = Some n \<and> n \<le> now w) \<and>
     (s_free s \<or> s_contact s \<noteq> None) \<and> \<not> has_open (s_id s) w"

definition is_orphan :: "'z world_scheme \<Rightarrow> subscription \<Rightarrow> bool" where
  "is_orphan w s \<longleftrightarrow> s_status s = SubPaid \<and> s_cancelled s = None \<and> (\<exists>n. s_next s = Some n \<and> n \<le> now w) \<and>
     \<not> s_free s \<and> s_contact s = None"

definition renewal_intro :: "instant \<Rightarrow> instant \<Rightarrow> string" where
  "renewal_intro from to = ''hier ist die Rechnung f'' @ u_uuml @ ''r den n'' @ u_auml @ ''chsten Abrechnungszeitraum (''
     @ fmt_german from @ '' '' @ u_ndash @ '' '' @ fmt_german to @ '').''"

definition renewal_subject :: string where
  "renewal_subject = ''Deine Vakt-Rechnung f'' @ u_uuml @ ''r den n'' @ u_auml @ ''chsten Zeitraum''"

definition renewal_text :: "instant \<Rightarrow> instant \<Rightarrow> string" where
  "renewal_text from to =
     ''Hallo,'' @ nl @ nl
     @ ''anbei die Rechnung f'' @ u_uuml @ ''r den n'' @ u_auml @ ''chsten Abrechnungszeitraum ('' @ fmt_german from @ '' '' @ u_ndash @ '' '' @ fmt_german to @ '').'' @ nl @ nl
     @ ''Dein aktueller Lizenzschl'' @ u_uuml @ ''ssel bleibt bis zum Zahlungseingang g'' @ u_uuml @ ''ltig '' @ u_dash @ '' du musst'' @ nl
     @ ''nichts tun und es geht nichts aus. Sobald die Zahlung da ist, verl'' @ u_auml @ ''ngert sich die'' @ nl
     @ ''Lizenz automatisch.'' @ nl @ nl
     @ ''Du m'' @ u_ouml @ ''chtest nicht verl'' @ u_auml @ ''ngern? Antworte einfach auf diese Mail, dann beenden wir'' @ nl
     @ ''das Abo zum Ende des laufenden Zeitraums.'' @ nl @ nl
     @ ''Viele Gr'' @ u_uuml @ u_szlig @ ''e'' @ nl
     @ ''Stefan'' @ nl
     @ ''Norvik Ops'' @ nl"

definition renewFree :: "deployment \<Rightarrow> dueSubscription \<Rightarrow> ('z world_scheme, renew_result) state" where
  "renewFree E d = (case PlanFor (du_product d) (du_interval d) of
     None \<Rightarrow> State_Monad.return RenewNoPlan
   | Some p \<Rightarrow>
       (case Charge p (du_quantity d) 0 of
          Inl e \<Rightarrow> State_Monad.return (RenewDiscount e)
        | Inr ch \<Rightarrow> do {
            let (from, to) = Period p (du_end d);
            t \<leftarrow> gets now;
            ok \<leftarrow> insert_invoice (free_invoice (du_id d) from to ch t);
            (if \<not> ok then State_Monad.return FreeNotStored
             else do {
               ok2 \<leftarrow> exec (update_sub (du_id d) (\<lambda>s. s\<lparr>s_next := Some (NextInvoiceAt p to)\<rparr>));
               State_Monad.return (if ok2 then FreeExtended else FreeNotAdvanced) }) }))"

definition renew_invoiced :: "deployment \<Rightarrow> dueSubscription \<Rightarrow> instant \<Rightarrow> instant \<Rightarrow> charge \<Rightarrow> InvoiceAmounts
    \<Rightarrow> string \<Rightarrow> ('z world_scheme, renew_result) state" where
  "renew_invoiced E d from to ch a ref = do {
     t \<leftarrow> gets now;
     ok \<leftarrow> insert_invoice (invoice_row (du_id d) ref from to ch a t);
     (if \<not> ok then State_Monad.return (RenewNotStored ref)
      else do {
        ok2 \<leftarrow> exec (update_sub (du_id d) (\<lambda>s. s\<lparr>s_next := None\<rparr>));
        (if \<not> ok2 then State_Monad.return (RenewNotCleared ref)
         else do {
           pdf \<leftarrow> InvoicePDF (d_client E) ref;
           sent \<leftarrow> Send (d_issuer E) (du_email d) renewal_subject (renewal_text from to) (pdf_or_nil pdf) ''Rechnung-Vakt.pdf'';
           State_Monad.return (RenewInvoiced ref sent) }) }) }"

definition renewOne :: "deployment \<Rightarrow> dueSubscription \<Rightarrow> ('z world_scheme, renew_result) state" where
  "renewOne E d =
     (if du_free d then renewFree E d
      else (case PlanFor (du_product d) (du_interval d) of
        None \<Rightarrow> State_Monad.return RenewNoPlan
      | Some p \<Rightarrow>
          (case Charge p (du_quantity d) (du_discount d) of
             Inl e \<Rightarrow> State_Monad.return (RenewDiscount e)
           | Inr ch \<Rightarrow>
               (case InvoiceAmountsFor (cl_small (d_client E)) (ch_net_cents ch) (du_country d) False of
                  Inl e \<Rightarrow> State_Monad.return (RenewTax e)
                | Inr a \<Rightarrow> do {
                    let (from, to) = Period p (du_end d);
                    i \<leftarrow> CreateInvoice (d_client E) \<lparr>ii_contact = du_contact d, ii_title = pl_title p,
                      ii_intro = renewal_intro from to, ii_desc = LineDesc p (du_quantity d), ii_charge = ch,
                      ii_due_days = pl_due_days p, ii_country = du_country d, ii_vat_verified = False\<rparr>;
                    (case i of
                       None \<Rightarrow> State_Monad.return RenewNotCreated
                     | Some ref \<Rightarrow> renew_invoiced E d from to ch a ref) }))))"

text \<open>What the sweep logs: subscriptions without history, the number of orphans, and per
  subscription what came of it.\<close>

record renew_report =
  rr_no_history :: "string list"
  rr_orphans :: "nat option"
  rr_results :: "(string \<times> renew_result) list"

definition renewOnce :: "deployment \<Rightarrow> ('z world_scheme, renew_report option) state" where
  "renewOnce E = do {
     r \<leftarrow> db (\<lambda>w. map (\<lambda>s. (s, last_end (s_id s) w)) (filter (is_due w) (subs w)));
     (case r of
        None \<Rightarrow> State_Monad.return None
      | Some rows \<Rightarrow> do {
          orphans \<leftarrow> db (\<lambda>w. count_where (is_orphan w) (subs w));
          results \<leftarrow> collect (\<lambda>d. do { x \<leftarrow> renewOne E d; State_Monad.return (du_id d, x) })
            [due_of s (midnight e). (s, Some e) \<leftarrow> rows];
          State_Monad.return (Some \<lparr>rr_no_history = [s_id s. (s, None) \<leftarrow> rows], rr_orphans = orphans,
            rr_results = results\<rparr>) }) }"

section \<open>Ending it\<close>

text \<open>\<^term>\<open>True\<close> for no error.\<close>

definition Cancel :: "string \<Rightarrow> ('z world_scheme, bool) state" where
  "Cancel sid = do {
     t \<leftarrow> gets now;
     n \<leftarrow> exec_count (\<lambda>w. count_where (\<lambda>s. s_id s = sid \<and> s_cancelled s = None) (subs w))
       (\<lambda>w. w\<lparr>subs := update_where (\<lambda>s. s_id s = sid \<and> s_cancelled s = None)
          (\<lambda>s. s\<lparr>s_cancelled := Some t, s_next := None\<rparr>) (subs w)\<rparr>);
     State_Monad.return (case n of None \<Rightarrow> False | Some k \<Rightarrow> k \<noteq> 0) }"

section \<open>Walking the cycle\<close>

lemma wp_returning:
  "(\<And>t. Q None (w\<lparr>faults := t\<rparr>)) \<Longrightarrow>
   (\<And>t x. sel (w\<lparr>faults := t\<rparr>) = Some x \<Longrightarrow> Q (Some x) (f (w\<lparr>faults := t\<rparr>))) \<Longrightarrow> wp (returning sel f) Q w"
  unfolding returning_def by (intro wp_intros) simp_all

lemma wp_callI:
  "(v = CallFailed \<Longrightarrow> wp m Q s) \<Longrightarrow> (v = NotApplicable \<Longrightarrow> wp n Q s) \<Longrightarrow> (\<And>b. v = Body b \<Longrightarrow> wp (f b) Q s) \<Longrightarrow>
   wp (case v of CallFailed \<Rightarrow> m | NotApplicable \<Rightarrow> n | Body b \<Rightarrow> f b) Q s"
  by (cases v) simp_all

lemma wp_return_fun: "wp (State_Monad.return a) Q = Q a"
  by (simp add: fun_eq_iff wp_return)

lemma wp_received:
  assumes "\<And>ys t. prefix ys xs \<Longrightarrow> Q ys (w\<lparr>faults := t\<rparr>)"
  shows "wp (received xs) Q w"
  using assms
proof (induction xs arbitrary: Q w)
  case Nil
  have "Q [] w" using Nil [of "[]" "faults w"] by simp
  then show ?case by (simp add: wp_return)
next
  case (Cons x xs)
  have "wp (received xs) (\<lambda>ys. Q (x # ys)) (w\<lparr>faults := t\<rparr>)" for t
    by (rule Cons.IH) (use Cons.prems in simp)
  with Cons.prems [of "[]"] show ?case unfolding received.simps
    by (intro wp_intros) (simp_all add: wp_return_fun)
qed

lemma run_received [run_simps]: "faults w = [] \<Longrightarrow> run_state (received xs) w = (xs, w)"
  by (induction xs) (simp_all add: run_simps)


lemma update_where_same [simp]: "update_where P (\<lambda>x. x) xs = xs"
  by (simp add: update_where_def)

definition marks :: "string option \<Rightarrow> subscription \<Rightarrow> subscription" where
  "marks h s = (case h of None \<Rightarrow> s | Some x \<Rightarrow> s\<lparr>s_portal_hash := Some x\<rparr>)"

lemma marks_simps [simp]:
  "marks None s = s" "s_id (marks h s) = s_id s" "s_status (marks h s) = s_status s" "s_free (marks h s) = s_free s"
  "s_contact (marks h s) = s_contact s" "s_next (marks h s) = s_next s" "s_discount (marks h s) = s_discount s"
  "s_cancelled (marks h s) = s_cancelled s" "s_product (marks h s) = s_product s" "s_interval (marks h s) = s_interval s"
  "s_company (marks h s) = s_company s" "s_quantity (marks h s) = s_quantity s" "s_paid (marks h s) = s_paid s"
  "s_key (marks h s) = s_key s" "same_sub s (marks h t) = same_sub s t"
  by (simp_all add: marks_def same_sub_def split: option.splits)

lemma update_marks_None [simp]: "update_where P (marks None) xs = xs"
  by (simp add: update_where_def cong: if_cong)

lemma marks_Some: "marks (Some x) = (\<lambda>s. s\<lparr>s_portal_hash := Some x\<rparr>)"
  by (simp add: marks_def fun_eq_iff)

lemma wp_send_portal_link:
  assumes "\<And>t n ob h. Q () (w\<lparr>faults := t, fresh := n, outbox := ob, subs := update_where (\<lambda>x. s_id x = sid) (marks h) (subs w)\<rparr>)"
  shows "wp (send_portal_link E sid email) Q w"
proof -
  have none: "Q () w" "Q () (w\<lparr>faults := t\<rparr>)" "Q () (w\<lparr>faults := t, fresh := n\<rparr>)" for t n
    using assms [where t = "faults w" and n = "fresh w" and ob = "outbox w" and h = None]
      assms [where t = t and n = "fresh w" and ob = "outbox w" and h = None]
      assms [where t = t and n = n and ob = "outbox w" and h = None] by simp_all
  have some: "Q () (w\<lparr>faults := t, fresh := n, subs := update_where (\<lambda>x. s_id x = sid) (\<lambda>s. s\<lparr>s_portal_hash := Some x\<rparr>) (subs w)\<rparr>)"
    "Q () (w\<lparr>faults := t, fresh := n, outbox := ob, subs := update_where (\<lambda>x. s_id x = sid) (\<lambda>s. s\<lparr>s_portal_hash := Some x\<rparr>) (subs w)\<rparr>)"
    for t n x ob
    using assms [where t = t and n = n and ob = "outbox w" and h = "Some x"]
      assms [where t = t and n = n and ob = ob and h = "Some x"] by (simp_all add: marks_Some)
  show ?thesis unfolding send_portal_link_def NewPortalToken_def
    by (intro wp_consts wp_intros wp_rand_hex wp_Send) (simp_all add: none some update_sub_def)
qed

text \<open>\<open>keyed\<close>: the tables after a payment that got its key, when the two writes went through or not.\<close>

definition keyed :: "subscription \<Rightarrow> plan \<Rightarrow> int \<Rightarrow> string \<Rightarrow> string \<Rightarrow> bool \<Rightarrow> bool \<Rightarrow> string option
    \<Rightarrow> 'z world_scheme \<Rightarrow> 'z world_scheme" where
  "keyed s p fin token key advanced upgraded h w =
     w\<lparr>subs := update_where (\<lambda>x. s_id x = s_id s)
         (\<lambda>x. marks h (if advanced then settled_sub p key fin (now w) x else x)) (subs w),
       lics := update_where (\<lambda>l. l_rtoken l = token)
         (\<lambda>l. if upgraded then settled_licence key (midnight (fin + pl_grace_days p)) l else l) (lics w)\<rparr>"

lemma wp_settle_key:
  assumes "good_deployment E"
    and unsigned: "\<And>e. Q (KeyNotSigned (Some e)) w"
    and signed: "\<And>key a b h r u. SignUntil (d_crypto E) (d_issuer E) (now w)
        (ForLicence token (s_company s) (s_email s) (s_interval s)) (midnight (fin + pl_grace_days p)) = Inr key \<Longrightarrow>
      tab (keyed s p fin token key a b h w) u \<Longrightarrow> r = CycleAdvanced \<longrightarrow> a \<and> b \<Longrightarrow>
      r \<in> {KeyNotMailed, CycleStuck, CycleAdvanced} \<Longrightarrow> Q r u"
  shows "wp (settle_key E s p fin token) Q w"
proof -
  let ?e = "midnight (fin + pl_grace_days p)"
  let ?f = "settled_sub p key fin (now w)"
  have sub: "update_where (\<lambda>x. s_id x = s_id s) (marks h) (update_where (\<lambda>x. s_id x = s_id s) f (subs w))
      = update_where (\<lambda>x. s_id x = s_id s) (\<lambda>x. marks h (f x)) (subs w)" if "\<And>x. s_id (f x) = s_id x" for h f
    using that by (simp add: update_where_def)
  have rest: "wp (if mailErr \<noteq> None then State_Monad.return KeyNotMailed
         else do {
           send_portal_link E (s_id s) (s_email s);
           State_Monad.return (if a \<and> b then CycleAdvanced else CycleStuck) }) Q v"
    if k: "SignUntil (d_crypto E) (d_issuer E) (now w) (ForLicence token (s_company s) (s_email s) (s_interval s)) ?e = Inr key"
      and v: "tab (keyed s p fin token key a b None w) v" for key mailErr a b v
  proof -
    have "subs v = update_where (\<lambda>x. s_id x = s_id s) (\<lambda>x. if a then settled_sub p key fin (now w) x else x) (subs w)"
      using tabD(1) [OF v] by (simp add: keyed_def)
    then have "update_where (\<lambda>x. s_id x = s_id s) (marks h) (subs v) = update_where (\<lambda>x. s_id x = s_id s)
        (\<lambda>x. marks h (if a then settled_sub p key fin (now w) x else x)) (subs w)" for h
      using sub [where h = h and f = "\<lambda>x. if a then settled_sub p key fin (now w) x else x"] by (simp add: settled_sub_def)
    then have "tab (keyed s p fin token key a b h w) (v\<lparr>faults := t, fresh := n, outbox := ob,
        subs := update_where (\<lambda>x. s_id x = s_id s) (marks h) (subs v)\<rparr>)" for t n ob h
      using tabD [OF v] by (simp add: keyed_def tab_def)
    then show ?thesis using signed [OF k v]
      by (intro wp_intros wp_send_portal_link) (auto intro!: signed [OF k])
  qed
  have keys: "key \<noteq> ''''" if "SignUntil (d_crypto E) (d_issuer E) t r e = Inr key" for t r e key
    by (rule sign_nonempty [OF assms(1) that])
  have book: "wp (do {
        t \<leftarrow> gets now;
        advanced \<leftarrow> exec (update_sub (s_id s) (settled_sub p key fin t));
        upgraded \<leftarrow> exec (update_licence token (settled_licence key ?e));
        (if mailErr \<noteq> None then State_Monad.return KeyNotMailed
         else do {
           send_portal_link E (s_id s) (s_email s);
           State_Monad.return (if advanced \<and> upgraded then CycleAdvanced else CycleStuck) }) }) Q (w\<lparr>faults := t, outbox := ob\<rparr>)"
    if k: "SignUntil (d_crypto E) (d_issuer E) (now w) (ForLicence token (s_company s) (s_email s) (s_interval s)) ?e = Inr key"
    for key mailErr t ob
    by (intro wp_equation_rules wp_exec rest [OF k]) (simp_all add: keyed_def tab_def update_sub_def update_licence_def)
  show ?thesis unfolding settle_key_def Let_def grace_midnight
    by (intro wp_bind [THEN iffD2] wp_IssueUntil)
      (use book keys unsigned in \<open>auto simp: wp_return\<close>)
qed

definition ready :: "string \<Rightarrow> 'z world_scheme \<Rightarrow> invoice \<Rightarrow> bool" where
  "ready ref w i \<longleftrightarrow> (\<exists>b. classify (lx_payments w ref) = Body b \<and> pay_settled b) \<and>
     find_invoice ref w = Some i \<and> i_status i = InvOpen"

lemma wp_settle:
  assumes "good_deployment E"
    and idle: "\<And>r t. r \<in> {StatusUnreadable, StillDraft, NotClaimed} \<union> range NotSettled \<Longrightarrow> Q r (w\<lparr>faults := t\<rparr>)"
    and claimed: "\<And>r t i. ready ref w i \<Longrightarrow>
      r \<in> {SubscriptionLost, PlanGone, LicenceRowMissing} \<union> range KeyNotSigned \<Longrightarrow>
      Q r ((update_invoice ref (paid_now (now w)) w)\<lparr>faults := t\<rparr>)"
    and signed: "\<And>r i s p l key a b h u. ready ref w i \<Longrightarrow> find_sub (i_sub i) w = Some s \<Longrightarrow>
      PlanFor (s_product s) (s_interval s) = Some p \<Longrightarrow> own_licence (i_sub i) (s_company s) w = Some l \<Longrightarrow>
      SignUntil (d_crypto E) (d_issuer E) (now w) (ForLicence (l_rtoken l) (s_company s) (s_email s) (s_interval s))
        (midnight (i_end i + pl_grace_days p)) = Inr key \<Longrightarrow>
      tab (keyed s p (i_end i) (l_rtoken l) key a b h (update_invoice ref (paid_now (now w)) w)) u \<Longrightarrow>
      r = CycleAdvanced \<longrightarrow> a \<and> b \<Longrightarrow> r \<in> {KeyNotMailed, CycleStuck, CycleAdvanced} \<Longrightarrow> Q r u"
  shows "wp (settle E ref) Q w"
proof -
  let ?w = "update_invoice ref (paid_now (now w)) w"
  have look: "find_sub sid (?w\<lparr>faults := t\<rparr>) = find_sub sid w" "own_licence sid c (?w\<lparr>faults := t\<rparr>) = own_licence sid c w"
    "now (?w\<lparr>faults := t\<rparr>) = now w" "find_sub sid ?w = find_sub sid w" for sid c t
    by (simp_all add: update_invoice_def find_sub_def own_licence_def)
  have key: "wp (settle_key E s p (i_end i) (l_rtoken l)) Q (?w\<lparr>faults := t\<rparr>)"
    if "ready ref w i" "find_sub (i_sub i) w = Some s" "PlanFor (s_product s) (s_interval s) = Some p"
      "own_licence (i_sub i) (s_company s) w = Some l" for i s p l t
  proof (rule wp_settle_key [OF assms(1)], goal_cases)
    case (1 e)
    then show ?case by (rule claimed [OF that(1)]) simp
  next
    case (2 key a b h r u)
    have "tab (keyed s p (i_end i) (l_rtoken l) key a b h ?w) u"
      using 2(2) by (simp add: keyed_def tab_def cong: if_cong)
    then show ?case using signed [OF that, of key a b h u r] 2 by (simp add: look)
  qed
  have claim: "wp (returning (open_invoice ref) (update_invoice ref (paid_now (now w)))) (\<lambda>c. wp (case c of
               None \<Rightarrow> State_Monad.return NotClaimed
             | Some (sid, fin) \<Rightarrow> do {
                 q \<leftarrow> row (find_sub sid);
                 (case q of
                    None \<Rightarrow> State_Monad.return SubscriptionLost
                  | Some s \<Rightarrow>
                      (case PlanFor (s_product s) (s_interval s) of
                         None \<Rightarrow> State_Monad.return PlanGone
                       | Some p \<Rightarrow> do {
                           r \<leftarrow> row (own_licence sid (s_company s));
                           (case r of
                              None \<Rightarrow> State_Monad.return LicenceRowMissing
                            | Some l \<Rightarrow> settle_key E s p fin (l_rtoken l)) })) }) Q) (w\<lparr>faults := t\<rparr>)"
    if b: "classify (lx_payments w ref) = Body b" "pay_settled b" for b t
  proof (rule wp_returning, goal_cases)
    case (1 t)
    then show ?case by (simp add: wp_return idle)
  next
    case (2 t x)
    then obtain i where i: "ready ref w i" "x = (i_sub i, i_end i)"
      using b by (auto simp: open_invoice_def ready_def find_invoice_def split: option.splits if_splits)
    have u: "update_invoice ref (paid_now (now w)) (w\<lparr>faults := t'\<rparr>) = ?w\<lparr>faults := t'\<rparr>" for t'
      by (simp add: update_invoice_def)

    show ?case unfolding i(2) option.case prod.case
      by (intro wp_consts wp_intros) (auto simp: u look intro!: claimed [OF i(1)] key [OF i(1)])
  qed
  show ?thesis unfolding settle_def
    by (intro wp_bind [THEN iffD2] wp_PaymentStatus wp_callI wp_ifI wp_gets [THEN iffD2] wp_return [THEN iffD2])
      (use claim idle in auto)
qed

section \<open>The ledger stays consistent\<close>

lemma row_good_settled: "row_good s \<Longrightarrow> row_good (marks h (if a then settled_sub p key fin t s else s))"
  by (simp add: row_good_def settled_sub_def)

lemma ready_invoice: "ready ref w i \<Longrightarrow> i_ref i = ref \<and> i \<in> set (invs w) \<and> i_status i = InvOpen"
  by (auto simp: ready_def dest: find_invoice_ref)

lemma claimed_invoice: "ready ref w i \<Longrightarrow> paid_now t i \<in> set (invs (update_invoice ref (paid_now t) w))"
  by (auto simp: update_invoice_def set_update_where dest: ready_invoice)

lemma ledger_ok_claim:
  assumes "ledger_ok E w" "ready ref w i"
  shows "ledger_ok E (update_invoice ref (paid_now t) w)"
proof (rule ledger_ok_update_invoice [OF assms(1)])
  fix j assume j: "j \<in> set (invs w)" "i_ref j = ref"
  have "distinct (map i_ref (invs w))" using assms(1) by (simp add: ledger_ok_def store_okD)
  then have "j = i" by (rule distinct_key [OF _ j(1)]) (use ready_invoice [OF assms(2)] j in simp_all)
  then show "same_invoice j (paid_now t j)" using assms(2) by (simp add: same_invoice_def paid_now_def)
qed

lemma own_licence_row:
  assumes "own_licence sid company w = Some l"
  shows "l \<in> set (lics w) \<and> l_sub l = sid \<and> l_orgname l = company"
proof -
  from assms obtain ls where "sort_key l_created (filter (\<lambda>l. l_sub l = sid \<and> l_orgname l = company) (lics w)) = l # ls"
    by (auto simp: own_licence_def split: list.splits)
  then have "l \<in> set (sort_key l_created (filter (\<lambda>l. l_sub l = sid \<and> l_orgname l = company) (lics w)))" by simp
  then show ?thesis unfolding set_sort by simp
qed

lemma ledger_ok_keyed:
  fixes w :: "'z world_scheme"
  assumes ok: "ledger_ok E w" "good_deployment E"
    and s: "find_sub (i_sub i) w = Some s" and p: "PlanFor (s_product s) (s_interval s) = Some p"
    and i: "i \<in> set (invs w)" "i_paid i \<noteq> None" and l: "own_licence (i_sub i) (s_company s) w = Some l"
    and k: "SignUntil (d_crypto E) (d_issuer E) t (ForLicence (l_rtoken l) (s_company s) (s_email s) (s_interval s))
        (midnight (i_end i + pl_grace_days p)) = Inr key"
  shows "ledger_ok E (keyed s p (i_end i) (l_rtoken l) key a b h w)"
proof -
  note id = find_sub_id [OF s] and own = own_licence_row [OF l]
  let ?f = "\<lambda>x. marks h (if a then settled_sub p key (i_end i) (now w) x else x)"
  have one: "x = s" if "x \<in> set (subs w)" "s_id x = s_id s" for x
    using distinct_key [OF _ that(1) _ that(2)] id ok(1) by (metis ledger_ok_def store_okD(1))
  have mid: "ledger_ok E (update_sub (s_id s) ?f w)"
  proof (rule ledger_ok_update_sub [OF ok(1)])
    fix x assume x: "x \<in> set (subs w)" "s_id x = s_id s"
    have r: "row_good x" "cycle_good (invs w) x" using ok(1) x(1) by (simp_all add: ledger_ok_def store_okD)
    have c: "cycle_good (invs w) (?f x)"
      using r(2) i id one [OF x] by (auto simp: cycle_good_def settled_sub_def)
    show "same_sub x (?f x) \<and> row_good (?f x) \<and> cycle_good (invs w) (?f x) \<and>
      (s_status (?f x) \<noteq> SubPaid \<longrightarrow> s_status x \<noteq> SubPaid)"
      using row_good_settled [OF r(1)] c by (simp add: same_sub_def settled_sub_def)
  qed
  let ?l = "settled_licence key (midnight (i_end i + pl_grace_days p)) l"
  have "key_good (d_crypto E) ?l"
    by (rule SignUntil_good(1) [OF _ k]) (use ok(2) own in \<open>simp_all add: good_deployment_def settled_licence_def ForLicence_def\<close>)
  moreover have "covered (subs (update_sub (s_id s) ?f w)) (invs w) ?l"
  proof -
    have "?f s \<in> set (subs (update_sub (s_id s) ?f w))"
      using id by (simp add: update_sub_def set_update_where)
    then show ?thesis using i p own id unfolding covered_def
      by (intro bexI [of _ "?f s"] bexI [of _ i] exI [of _ p])
        (simp_all add: settled_sub_def settled_licence_def midnight_def)
  qed
  ultimately have "store_ok (d_crypto E) (subs (update_sub (s_id s) ?f w)) (invs w)
      (update_where (\<lambda>m. l_rtoken m = l_rtoken l) (settled_licence key (midnight (i_end i + pl_grace_days p))) (lics w))"
    using mid own by (intro store_ok_sign [where l = l])
      (simp_all add: ledger_ok_def update_sub_def settled_licence_def)
  with mid show ?thesis by (cases b) (simp_all add: ledger_ok_def keyed_def update_sub_def)
qed

lemma keeps_settle: "good_deployment E \<Longrightarrow> keeps (ledger_ok E) (settle E ref)"
proof (rule keepsI, rule wp_settle, assumption, goal_cases)
  case (1 w r t)
  then show ?case by simp
next
  case (2 w r t i)
  then show ?case using ledger_ok_claim by simp
next
  case (3 w r i s p l key a b h u)
  let ?v = "update_invoice ref (paid_now (now w)) w"
  have same: "find_sub sid ?v = find_sub sid w" "own_licence sid c ?v = own_licence sid c w" for sid c
    by (simp_all add: update_invoice_def find_sub_def own_licence_def)
  have "ledger_ok E (keyed s p (i_end i) (l_rtoken l) key a b h ?v)"
    using ledger_ok_keyed [OF ledger_ok_claim [OF 3(2,3)] 3(1), where i = "paid_now (now w) i"
        and s = s and p = p and l = l and key = key and t = "now w"] 3
      claimed_invoice [OF 3(3)] by (simp add: same paid_now_def)
  with 3 show ?case by (simp add: ledger_ok_tab)
qed

section \<open>One payment, one key\<close>

lemma settle_idle:
  assumes "good_deployment E" "\<And>i. \<not> ready ref w i"
  shows "\<exists>t. snd (run_state (settle E ref) w) = w\<lparr>faults := t\<rparr>"
proof -
  have "wp (settle E ref) (\<lambda>_ u. \<exists>t. u = w\<lparr>faults := t\<rparr>) w"
    by (rule wp_settle [OF assms(1)]) (use assms(2) in auto)
  then show ?thesis by (simp add: wp_def split_def)
qed

lemma claimed_not_ready:
  assumes "ready ref w i" "invs v = invs (update_invoice ref (paid_now t) w)"
  shows "\<not> ready ref v j"
proof -
  have "find (\<lambda>i. i_ref i = ref) (invs v) = map_option (\<lambda>i. if i_ref i = ref then paid_now t i else i) (find_invoice ref w)"
    unfolding assms(2) find_invoice_def by (simp add: update_invoice_def, rule find_update_same) (simp add: paid_now_def)
  then show ?thesis using assms(1) ready_invoice [OF assms(1)] by (auto simp: ready_def find_invoice_def paid_now_def)
qed

lemma find_updated:
  assumes "find (\<lambda>x. k x = c) xs = Some x" "\<And>x. k (f x) = k x"
  shows "find (\<lambda>x. k x = c) (update_where (\<lambda>x. k x = c) f xs) = Some (f x)"
proof -
  have "find (\<lambda>x. k x = c) (update_where (\<lambda>x. k x = c) f xs) = map_option (\<lambda>x. if k x = c then f x else x) (find (\<lambda>x. k x = c) xs)"
    by (rule find_update_same) (simp add: assms(2))
  then show ?thesis using assms(1) by (auto dest: find_Some_in)
qed

lemma own_licence_find:
  assumes "ledger_ok E w" "own_licence sid company w = Some l"
  shows "find_licence (l_rtoken l) w = Some l"
  using assms(1) own_licence_row [OF assms(2)] unfolding find_licence_def ledger_ok_def
  by (intro find_key) (auto dest: store_okD(3))

text \<open>C28: one payment, one key. Whatever fails, booking a payment keeps the ledger consistent.
  Nothing but the fault tape changes unless the bookkeeping service itself reports the
  invoice as balanced and the invoice is open here; and once it was claimed, booking it again
  (a replayed webhook, the poller) changes nothing. When the cycle is reported as
  advanced, the subscription is paid with its next invoice scheduled inside the period just
  paid, and the customer's own licence carries, under its old renewal token, a verified key up
  to the end of that period plus the grace.\<close>

theorem settle_once:
  fixes w u :: "'z world_scheme"
  assumes "good_deployment E" "ledger_ok E w" "run_state (settle E ref) w = (r, u)"
  shows "ledger_ok E u \<and>
    ((\<exists>b i. classify (lx_payments w ref) = Body b \<and> py_status b = ''balanced'' \<and>
        find_invoice ref w = Some i \<and> i_status i = InvOpen) \<or> (\<exists>t. u = w\<lparr>faults := t\<rparr>)) \<and>
    ((\<exists>t. u = w\<lparr>faults := t\<rparr>) \<or>
     (\<forall>v :: 'z world_scheme. invs v = invs u \<longrightarrow> (\<exists>t. snd (run_state (settle E ref) v) = v\<lparr>faults := t\<rparr>))) \<and>
    (r = CycleAdvanced \<longrightarrow> (\<exists>i s p l m. find_invoice ref w = Some i \<and> find_sub (i_sub i) u = Some s \<and>
       PlanFor (s_product s) (s_interval s) = Some p \<and> s_status s = SubPaid \<and>
       s_next s = Some (NextInvoiceAt p (midnight (i_end i))) \<and>
       own_licence (i_sub i) (s_company s) w = Some l \<and> find_licence (l_rtoken l) u = Some m \<and>
       l_kind m = Full \<and> l_until m = midnight (i_end i + pl_grace_days p) \<and> key_good (d_crypto E) m))"
proof -
  let ?I = "\<lambda>u :: 'z world_scheme. (\<exists>i. ready ref w i) \<or> (\<exists>t. u = w\<lparr>faults := t\<rparr>)"
  let ?O = "\<lambda>u :: 'z world_scheme. (\<exists>t. u = w\<lparr>faults := t\<rparr>) \<or>
     (\<forall>v :: 'z world_scheme. invs v = invs u \<longrightarrow> (\<exists>t. snd (run_state (settle E ref) v) = v\<lparr>faults := t\<rparr>))"
  let ?A = "\<lambda>u :: 'z world_scheme. \<exists>i s p l m. find_invoice ref w = Some i \<and> find_sub (i_sub i) u = Some s \<and>
       PlanFor (s_product s) (s_interval s) = Some p \<and> s_status s = SubPaid \<and>
       s_next s = Some (NextInvoiceAt p (midnight (i_end i))) \<and>
       own_licence (i_sub i) (s_company s) w = Some l \<and> find_licence (l_rtoken l) u = Some m \<and>
       l_kind m = Full \<and> l_until m = midnight (i_end i + pl_grace_days p) \<and> l_key m \<noteq> ''''"
  have once: "?O u" if "ready ref w i" "invs u = invs (update_invoice ref (paid_now (now w)) w)" for i u
    using settle_idle [OF assms(1)] claimed_not_ready [OF that(1)] that(2) by metis
  have "wp (settle E ref) (\<lambda>r u. ?I u \<and> ?O u \<and> (r = CycleAdvanced \<longrightarrow> ?A u)) w"
  proof (rule wp_settle [OF assms(1)], goal_cases)
    case (1 r t)
    then show ?case by auto
  next
    case (2 r t i)
    then show ?case using once [OF 2(1), of "(update_invoice ref (paid_now (now w)) w)\<lparr>faults := t\<rparr>"] by auto
  next
    case (3 r i s p l key a b h u)
    have "invs u = invs (update_invoice ref (paid_now (now w)) w)" using tabD(2) [OF 3(6)] by (simp add: keyed_def)
    moreover have "?A u" if "r = CycleAdvanced"
    proof -
      from that 3(7) have ab: "a" "b" by simp_all
      have nw: "now (update_invoice ref (paid_now (now w)) w) = now w" by (simp add: update_invoice_def)
      let ?s = "marks h (settled_sub p key (i_end i) (now w) s)"
      let ?m = "settled_licence key (midnight (i_end i + pl_grace_days p)) l"
      note id = find_sub_id [OF 3(2)]
      have "find_sub (i_sub i) u = Some ?s"
        using tabD(1) [OF 3(6)] 3(2) id ab unfolding find_sub_def
        by (simp add: keyed_def nw update_invoice_def) (rule find_updated, simp_all add: settled_sub_def)
      moreover have "find_licence (l_rtoken l) u = Some ?m"
        using tabD(3) [OF 3(6)] own_licence_find [OF assms(2) 3(4)] ab unfolding find_licence_def
        by (simp add: keyed_def update_invoice_def) (rule find_updated, simp_all add: settled_licence_def)
      moreover have "find_invoice ref w = Some i" using 3(1) by (simp add: ready_def)
      ultimately show ?thesis using 3(3,4) sign_nonempty [OF assms(1) 3(5)]
        by (intro exI [of _ i] exI [of _ ?s] exI [of _ p] exI [of _ l] exI [of _ ?m])
          (simp add: settled_sub_def settled_licence_def)
    qed
    ultimately show ?case using once [OF 3(1)] 3(1) by blast
  qed
  note post = wp_run [OF this assms(3)]
  have ok: "ledger_ok E u" using keepsD [OF keeps_settle [OF assms(1)] assms(2), of ref] assms(3) by simp
  have good: "key_good (d_crypto E) m" if "find_licence tok u = Some m" "l_key m \<noteq> ''''" for tok m
    using ok find_licence_token [OF that(1)] that(2) by (auto simp: ledger_ok_def licence_good_def dest!: store_okD(9))
  have A: "\<exists>i s p l m. find_invoice ref w = Some i \<and> find_sub (i_sub i) u = Some s \<and>
       PlanFor (s_product s) (s_interval s) = Some p \<and> s_status s = SubPaid \<and>
       s_next s = Some (NextInvoiceAt p (midnight (i_end i))) \<and>
       own_licence (i_sub i) (s_company s) w = Some l \<and> find_licence (l_rtoken l) u = Some m \<and>
       l_kind m = Full \<and> l_until m = midnight (i_end i + pl_grace_days p) \<and> key_good (d_crypto E) m" if "?A u"
    using that good by meson
  have I: "(\<exists>b i. classify (lx_payments w ref) = Body b \<and> py_status b = ''balanced'' \<and>
        find_invoice ref w = Some i \<and> i_status i = InvOpen) \<or> (\<exists>t. u = w\<lparr>faults := t\<rparr>)"
    using post by (auto simp: ready_def pay_settled_def)
  show ?thesis using ok I post A by blast
qed

definition settle_world :: world where
  "settle_world = (sample_world 0 [sample_sub Approved None] [sample_invoice InvOpen] [sample_licence Trial '''' 0])
     \<lparr>lx_payments := (\<lambda>_. Replied 200 (Some \<lparr>py_status = ''balanced'', py_voucher = ''''\<rparr>))\<rparr>"

lemma orgs_of_list: "orgs_of L sid = set (map l_orgname (filter (\<lambda>l. l_sub l = sid) L))"
  by (auto simp: orgs_of_def)

lemmas ledger_eval = ledger_ok_def store_ok_def sample_defs row_good_def plans_simps cycle_good_def
  seats_good_def orgs_of_list one_open_def invoice_good_def licence_good_def

lemma settle_ledger: "ledger_ok E settle_world"
  by (simp add: settle_world_def ledger_eval)

lemma settle_run: "\<exists>u. run_state (settle sample_deployment ''RE1'') settle_world = (CycleAdvanced, u)"
proof -
  have f: "faults settle_world = []" "find_invoice ''RE1'' settle_world = Some (sample_invoice InvOpen)"
    "find_sub ''s1'' settle_world = Some (sample_sub Approved None)"
    "own_licence ''s1'' ''Acme'' settle_world = Some (sample_licence Trial '''' 0)"
    "lx_payments settle_world ''RE1'' = Replied 200 (Some \<lparr>py_status = ''balanced'', py_voucher = ''''\<rparr>)"
    by (simp_all add: settle_world_def find_invoice_def find_sub_def own_licence_def sample_defs)
  let ?w = "update_invoice ''RE1'' (paid_now 0) settle_world"
  have g: "faults ?w = []" "now ?w = 0" "find_sub ''s1'' ?w = find_sub ''s1'' settle_world"
    "own_licence ''s1'' ''Acme'' ?w = own_licence ''s1'' ''Acme'' settle_world" "now settle_world = 0"
    by (simp_all add: settle_world_def update_invoice_def find_sub_def own_licence_def sample_world_def)
  have d: "client_enabled (d_client sample_deployment)" "Enabled (d_issuer sample_deployment)"
    "\<not> bad_line (sm_from (is_smtp (d_issuer sample_deployment)))" "\<not> bad_line ''a@acme''"
    by (simp_all add: sample_deployment_def client_enabled_def Enabled_def toy_issuer_def bad_line_def)
  have p: "PlanFor (s_product (sample_sub Approved None)) (s_interval (sample_sub Approved None)) = Some pro_month"
    by (simp add: plans_simps sample_sub_def)
  let ?r = "ForLicence ''tok'' ''Acme'' ''a@acme'' ''month''"
  let ?e = "add_date (midnight 31) 0 0 (pl_grace_days pro_month)"
  have r: "rq_token ?r \<noteq> ''''" "rq_email ?r = ''a@acme''" by (simp_all add: ForLicence_def)
  then obtain key m where k: "key \<noteq> ''''" "run_state (IssueUntil (d_crypto sample_deployment) (d_issuer sample_deployment) ?r ?e '''' '''') ?w
      = ((key, None), ?w\<lparr>outbox := outbox ?w @ [(''a@acme'', m)]\<rparr>)"
    using run_IssueUntil_ex [OF sample_good g(1) d(2), of ?r ?e "''''" "''''"] d(3,4) by auto
  have n: "\<exists>v. run_state (send_portal_link E sid em) w = ((), v)" for E sid em and w :: world by (simp add: prod_eq_iff)
  have s: "i_sub (sample_invoice InvOpen) = ''s1''" "i_end (sample_invoice InvOpen) = 31" "i_status (sample_invoice InvOpen) = InvOpen"
    "s_company (sample_sub Approved None) = ''Acme''" "s_email (sample_sub Approved None) = ''a@acme''"
    "s_interval (sample_sub Approved None) = ''month''" "l_rtoken (sample_licence Trial '''' 0) = ''tok''"
    by (simp_all add: sample_defs)
  have a: "faults (update_sub x h (?w\<lparr>outbox := ob\<rparr>)) = []" for x h ob
    using g(1) by (simp add: update_sub_def)
  show ?thesis using f g d p k n s a
    by (simp add: settle_def PaymentStatus_def run_do_get run_simps classify_def pay_settled_def returning_def open_invoice_def
        settle_key_def Let_def case_prod_beta prod_eq_iff)
qed

theorem settle_once_witness:
  "\<exists>u. run_state (settle sample_deployment ''RE1'') settle_world = (CycleAdvanced, u) \<and> ledger_ok sample_deployment u \<and>
    (\<exists>m \<in> set (lics u). l_kind m = Full \<and> key_good (d_crypto sample_deployment) m) \<and>
    (\<exists>t. snd (run_state (settle sample_deployment ''RE1'') u) = u\<lparr>faults := t\<rparr>)"
proof -
  obtain u where u: "run_state (settle sample_deployment ''RE1'') settle_world = (CycleAdvanced, u)"
    using settle_run by blast
  note s = settle_once [OF sample_good settle_ledger u]
  from s obtain m tok where m: "find_licence tok u = Some m" "l_kind m = Full" "key_good (d_crypto sample_deployment) m"
    by blast
  note m = m find_licence_token [OF m(1)]
  have "\<forall>l \<in> set (lics settle_world). l_kind l = Trial" by (simp add: settle_world_def sample_defs)
  with m have "u \<noteq> settle_world\<lparr>faults := t\<rparr>" for t by auto
  with s m u show ?thesis by blast
qed

section \<open>The sweep\<close>

text \<open>A subscription the sweep may bill: paid, with nothing open, and reachable at the service.\<close>

definition renewable :: "dueSubscription \<Rightarrow> 'z world_scheme \<Rightarrow> bool" where
  "renewable d w \<longleftrightarrow> (\<exists>s. find_sub (du_id d) w = Some s \<and> s_status s = SubPaid \<and> s_free s = du_free d \<and>
     s_quantity s = du_quantity d \<and> (du_free d \<or> s_contact s \<noteq> None)) \<and> \<not> has_open (du_id d) w"

text \<open>\<open>renewal_of E d i ks\<close>: \<open>i\<close> is the invoice of the next period of \<open>d\<close>; if the customer pays, it is
  on paper among \<open>ks\<close> for the same amount.\<close>

definition renewal_of :: "dueSubscription \<Rightarrow> invoice \<Rightarrow> (string \<times> invoiceRequest) list \<Rightarrow> bool" where
  "renewal_of d i ks \<longleftrightarrow> i_sub i = du_id d \<and> (\<exists>p. PlanFor (du_product d) (du_interval d) = Some p \<and>
     i_start i = day_of (fst (Period p (du_end d))) \<and> i_end i = day_of (snd (Period p (du_end d))) \<and>
     (if du_free d then i_status i = InvPaid \<and> i_net i = 0
      else i_status i = InvOpen \<and> (\<exists>ch q. Charge p (du_quantity d) (du_discount d) = Inr ch \<and>
        i_net i = ch_net_cents ch \<and> (i_ref i, q) \<in> set ks \<and> ir_contact q = du_contact d \<and>
        100 * paper_net q = of_int (i_net i))))"

definition sweep :: "dueSubscription list \<Rightarrow> 'z world_scheme \<Rightarrow> 'z world_scheme \<Rightarrow> bool" where
  "sweep ds w u \<longleftrightarrow> lics u = lics w \<and> now u = now w \<and>
     (\<forall>sid. sid \<notin> du_id ` set ds \<longrightarrow> find_sub sid u = find_sub sid w) \<and>
     (\<exists>ks new. lx_invoices u = lx_invoices w @ ks \<and> invs u = invs w @ new \<and>
       length ks \<le> length (filter (\<lambda>d. \<not> du_free d) ds) \<and> distinct (map i_sub new) \<and>
       (\<forall>i \<in> set new. \<exists>d \<in> set ds. renewal_of d i ks))"

lemma sweep_Nil: "sweep [] w w"
  by (simp add: sweep_def)

lemma renewal_of_mono: "renewal_of d i ks \<Longrightarrow> set ks \<subseteq> set ks' \<Longrightarrow> renewal_of d i ks'"
  unfolding renewal_of_def by (cases "du_free d") (simp_all, blast)

lemma sweep_trans:
  assumes "sweep ds w v" "sweep es v u" "du_id ` set ds \<inter> du_id ` set es = {}"
  shows "sweep (ds @ es) w u"
proof -
  from assms(1) obtain ks new where 1: "lx_invoices v = lx_invoices w @ ks" "invs v = invs w @ new"
    "length ks \<le> length (filter (\<lambda>d. \<not> du_free d) ds)" "distinct (map i_sub new)"
    "\<And>i. i \<in> set new \<Longrightarrow> \<exists>d \<in> set ds. renewal_of d i ks" unfolding sweep_def by blast
  from assms(2) obtain ks' new' where 2: "lx_invoices u = lx_invoices v @ ks'" "invs u = invs v @ new'"
    "length ks' \<le> length (filter (\<lambda>d. \<not> du_free d) es)" "distinct (map i_sub new')"
    "\<And>i. i \<in> set new' \<Longrightarrow> \<exists>d \<in> set es. renewal_of d i ks'" unfolding sweep_def by blast
  have "i_sub ` set new \<subseteq> du_id ` set ds" using 1(5) by (force simp: renewal_of_def)
  moreover have "i_sub ` set new' \<subseteq> du_id ` set es" using 2(5) by (force simp: renewal_of_def)
  ultimately have "distinct (map i_sub (new @ new'))" using 1(4) 2(4) assms(3)
    by (simp only: map_append distinct_append set_map) blast
  moreover have "\<exists>d \<in> set (ds @ es). renewal_of d i (ks @ ks')" if "i \<in> set (new @ new')" for i
  proof -
    have "\<exists>d \<in> set (ds @ es). renewal_of d i ks \<or> renewal_of d i ks'" using that 1(5) 2(5) by fastforce
    then show ?thesis using renewal_of_mono [of _ i ks "ks @ ks'"] renewal_of_mono [of _ i ks' "ks @ ks'"] by auto
  qed
  moreover have "lx_invoices u = lx_invoices w @ (ks @ ks')" "invs u = invs w @ (new @ new')"
    "length (ks @ ks') \<le> length (filter (\<lambda>d. \<not> du_free d) (ds @ es))" using 1 2 by simp_all
  moreover have "lics u = lics w" "now u = now w" "\<forall>sid. sid \<notin> du_id ` set (ds @ es) \<longrightarrow> find_sub sid u = find_sub sid w"
    using assms(1,2) by (simp_all add: sweep_def image_Un)
  ultimately show ?thesis unfolding sweep_def by blast
qed

lemma renewable_sweep:
  assumes "renewable d w" "sweep es w u" "du_id d \<notin> du_id ` set es"
  shows "renewable d u"
proof -
  from assms(2) obtain ks new where n: "invs u = invs w @ new" "\<And>i. i \<in> set new \<Longrightarrow> \<exists>d \<in> set es. renewal_of d i ks"
    unfolding sweep_def by blast
  have "i_sub i \<noteq> du_id d" if "i \<in> set new" for i using n(2) [OF that] assms(3) by (auto simp: renewal_of_def)
  then have "has_open (du_id d) u = has_open (du_id d) w" using n(1) by (auto simp: has_open_def invoices_of_def list_ex_iff)
  with assms show ?thesis by (simp add: renewable_def sweep_def)
qed

lemma ledger_ok_renewal:
  assumes ok: "ledger_ok E w" "renewable d w" and i: "invoice_ok i w" "i_sub i = du_id d"
    and st: "i_status i = InvOpen \<and> i_paid i = None \<and> \<not> du_free d \<or> i_status i = InvPaid \<and> i_paid i \<noteq> None \<and> du_free d"
  shows "ledger_ok E (w\<lparr>subs := update_where (\<lambda>s. s_id s = du_id d) (\<lambda>s. if c then s\<lparr>s_next := n\<rparr> else s) (subs w),
    invs := invs w @ [i]\<rparr>)"
proof -
  from ok(2) obtain s where s: "find_sub (du_id d) w = Some s" "s_status s = SubPaid" "s_free s = du_free d"
    "du_free d \<or> s_contact s \<noteq> None" "\<not> has_open (du_id d) w" by (auto simp: renewable_def)
  note id = find_sub_id [OF s(1)]
  let ?f = "\<lambda>s :: subscription. if c then s\<lparr>s_next := n\<rparr> else s"
  have base: "store_ok (d_crypto E) (subs w) (invs w) (lics w)" using ok(1) by (simp add: ledger_ok_def)
  have good: "invoice_good (subs w) i" using i st id by (auto simp: invoice_good_def invoice_ok_def)
  have idle: "\<forall>j \<in> set (invs w). i_sub j = du_id d \<longrightarrow> i_status j \<noteq> InvOpen"
    using s(5) by (auto simp: has_open_def invoices_of_def list_ex_iff)
  have f: "same_sub s (?f s)" "row_good (?f s)" "cycle_good (invs w @ [i]) (?f s)" "s_status (?f s) = SubPaid"
    using store_okD(5,6) [OF base, of s] id s st by (auto simp: same_sub_def row_good_def cycle_good_def)
  have "store_ok (d_crypto E) (update_where (\<lambda>s. s_id s = du_id d) ?f (subs w)) (invs w @ [i]) (lics w)"
  proof (rule store_ok_sub_invoice [where f = ?f, OF base _ _ f(1,2)])
    show "[i] = [] \<or> (\<exists>k. [i] = [k] \<and> i_sub k = du_id d \<and> i_ref k \<notin> set (map i_ref (invs w)) \<and> invoice_good (subs w) k \<and>
      (i_status k = InvOpen \<longrightarrow> (\<forall>i \<in> set (invs w). i_sub i = du_id d \<longrightarrow> i_status i \<noteq> InvOpen)))"
      using i good idle by (auto simp: invoice_ok_def)
  qed (use f id in simp_all)
  then show ?thesis by (simp add: ledger_ok_def)
qed

lemma find_sub_other:
  assumes "\<And>s. s_id (f s) = s_id s" "sid \<noteq> c"
  shows "find (\<lambda>s. s_id s = sid) (update_where (\<lambda>s. s_id s = c) f xs) = find (\<lambda>s. s_id s = sid) xs"
  using assms by (induction xs) (auto simp: update_where_def)

lemma sweep_one:
  assumes "tab (w\<lparr>lx_invoices := lx_invoices w @ ks, invs := invs w @ new,
      subs := update_where (\<lambda>s. s_id s = du_id d) f (subs w)\<rparr>) u"
    and "\<And>s. s_id (f s) = s_id s" "length ks \<le> (if du_free d then 0 else 1)" "length new \<le> 1"
    and "\<And>i. i \<in> set new \<Longrightarrow> renewal_of d i ks"
  shows "sweep [d] w u"
  unfolding sweep_def
proof (intro conjI allI impI exI)
  show "lics u = lics w" "now u = now w" "lx_invoices u = lx_invoices w @ ks" "invs u = invs w @ new"
    using tabD [OF assms(1)] by simp_all
  show "find_sub sid u = find_sub sid w" if "sid \<notin> du_id ` set [d]" for sid
    using tabD(1) [OF assms(1)] that find_sub_other [OF assms(2)] by (simp add: find_sub_def)
  show "distinct (map i_sub new)" using assms(4) by (cases new) simp_all
qed (use assms(3,5) in \<open>auto split: if_splits\<close>)

lemma sweep_tab: "tab w u \<Longrightarrow> sweep [d] w u"
  by (rule sweep_one [where ks = "[]" and new = "[]" and f = "\<lambda>s. s"]) (simp_all add: tab_def)

lemma wp_renewFree:
  assumes ok: "ledger_ok E w" "renewable d w" "du_free d"
  shows "wp (renewFree E d) (\<lambda>_ u. ledger_ok E u \<and> sweep [d] w u) w"
proof (cases "PlanFor (du_product d) (du_interval d)")
  case None
  then show ?thesis using ok by (simp add: renewFree_def wp_return sweep_tab)
next
  case (Some p)
  let ?i = "\<lambda>ch. free_invoice (du_id d) (fst (Period p (du_end d))) (snd (Period p (du_end d))) ch (now w)"
  have idle: "ledger_ok E (w\<lparr>faults := t\<rparr>) \<and> sweep [d] w (w\<lparr>faults := t\<rparr>)" for t
    using ok by (simp add: sweep_tab)
  have i: "i_sub (?i ch) = du_id d" "renewal_of d (?i ch) []" for ch
    using Some ok(3) by (simp_all add: free_invoice_def renewal_of_def)
  have fin: "ledger_ok E u \<and> sweep [d] w u"
    if "invoice_ok (?i ch) w" "tab (w\<lparr>subs := update_where (\<lambda>s. s_id s = du_id d) (\<lambda>s. if c then s\<lparr>s_next := n\<rparr> else s) (subs w),
        invs := invs w @ [?i ch]\<rparr>) u" for ch u c n
  proof -
    have "ledger_ok E (w\<lparr>subs := update_where (\<lambda>s. s_id s = du_id d) (\<lambda>s. if c then s\<lparr>s_next := n\<rparr> else s) (subs w),
        invs := invs w @ [?i ch]\<rparr>)"
      by (rule ledger_ok_renewal [OF ok(1,2) that(1)]) (use ok(3) in \<open>simp_all add: free_invoice_def\<close>)
    moreover have "sweep [d] w u"
      by (rule sweep_one [where ks = "[]" and new = "[?i ch]" and f = "\<lambda>s. if c then s\<lparr>s_next := n\<rparr> else s"])
        (use that(2) i in \<open>simp_all add: tab_def\<close>)
    ultimately show ?thesis using ledger_ok_tab [OF that(2)] by simp
  qed
  have stored: "ledger_ok E (update_sub (du_id d) (\<lambda>s. s\<lparr>s_next := n\<rparr>) (w\<lparr>faults := t, invs := invs w @ [?i ch]\<rparr>)) \<and>
      sweep [d] w (update_sub (du_id d) (\<lambda>s. s\<lparr>s_next := n\<rparr>) (w\<lparr>faults := t, invs := invs w @ [?i ch]\<rparr>))"
    "ledger_ok E (w\<lparr>faults := t, invs := invs w @ [?i ch]\<rparr>) \<and> sweep [d] w (w\<lparr>faults := t, invs := invs w @ [?i ch]\<rparr>)"
    if "invoice_ok (?i ch) w" for ch n t
    by (rule fin [OF that, where c = True and n = n], simp add: update_sub_def tab_def)
      (rule fin [OF that, where c = False], simp add: tab_def)
  show ?thesis unfolding renewFree_def Some option.case Let_def case_prod_beta
    by (intro wp_intros) (use idle stored ok(1) in \<open>simp_all add: sweep_tab\<close>)
qed

lemma wp_renewOne:
  assumes ok: "ledger_ok E w" "renewable d w"
  shows "wp (renewOne E d) (\<lambda>_ u. ledger_ok E u \<and> sweep [d] w u) w"
proof (cases "du_free d")
  case True
  then show ?thesis using wp_renewFree [OF ok] by (simp add: renewOne_def)
next
  case False
  let ?Q = "\<lambda>u. ledger_ok E u \<and> sweep [d] w u"
  have idle: "?Q u" if "tab w u" for u using ok(1) ledger_ok_tab [OF that] sweep_tab [OF that] by simp
  have quantity: "du_quantity d \<le> 2 ^ 31"
  proof -
    from ok(2) obtain s where "find_sub (du_id d) w = Some s" "s_quantity s = du_quantity d" by (auto simp: renewable_def)
    then show ?thesis using ok(1) find_sub_id [of "du_id d" w s]
      by (auto simp: ledger_ok_def row_good_def dest!: store_okD(5))
  qed
  have invoiced: "wp (renew_invoiced E d start til ch a ref) (\<lambda>_. ?Q) v"
    if p: "PlanFor (du_product d) (du_interval d) = Some p" "Charge p (du_quantity d) (du_discount d) = Inr ch"
      "(start, til) = Period p (du_end d)" and q: "q = invoice_request (now w) i tax" "ii_charge i = ch" "ii_contact i = du_contact d"
      and v: "tab (w\<lparr>lx_invoices := lx_invoices w @ [(ref, q)]\<rparr>) v" for start til ch a ref p q i tax v
  proof -
    let ?i = "invoice_row (du_id d) ref start til ch a (now w)"
    have ft: "fst (Period p (du_end d)) = start" "snd (Period p (du_end d)) = til" by (simp_all flip: p(3))
    have i: "i_sub ?i = du_id d" "renewal_of d ?i [(ref, q)]"
      using paper_net_request [OF p(1) quantity p(2) q(2)] p False q(1,3)
      by (simp_all add: invoice_row_def renewal_of_def invoice_request_def ft)
    note t = tabD [OF v, simplified]
    have iok: "invoice_ok j v = invoice_ok j w" for j using t by (simp add: invoice_ok_def)
    have fin: "?Q u"
      if "invoice_ok ?i w" "tab (w\<lparr>lx_invoices := lx_invoices w @ [(ref, q)],
          subs := update_where (\<lambda>s. s_id s = du_id d) (\<lambda>s. if c then s\<lparr>s_next := n\<rparr> else s) (subs w), invs := invs w @ [?i]\<rparr>) u"
      for u c n
    proof -
      have "ledger_ok E (w\<lparr>subs := update_where (\<lambda>s. s_id s = du_id d) (\<lambda>s. if c then s\<lparr>s_next := n\<rparr> else s) (subs w),
          invs := invs w @ [?i]\<rparr>)"
        by (rule ledger_ok_renewal [OF ok that(1)]) (use False in \<open>simp_all add: invoice_row_def\<close>)
      moreover have "sweep [d] w u"
        by (rule sweep_one [where ks = "[(ref, q)]" and new = "[?i]" and f = "\<lambda>s. if c then s\<lparr>s_next := n\<rparr> else s"])
          (use that(2) i False in \<open>simp_all add: tab_def\<close>)
      ultimately show ?thesis using tabD [OF that(2)] by (simp add: ledger_ok_def)
    qed
    have lost: "?Q u" if "tab v u" for u
    proof -
      have "sweep [d] w u"
        by (rule sweep_one [where ks = "[(ref, q)]" and new = "[]" and f = "\<lambda>s. s"])
          (use tab_trans [OF v that] False in \<open>simp_all add: tab_def\<close>)
      then show ?thesis using ok(1) tabD [OF tab_trans [OF v that]] by (simp add: ledger_ok_def)
    qed
    have stored: "?Q (v\<lparr>faults := t, subs := update_where (\<lambda>s. s_id s = du_id d) (\<lambda>s. s\<lparr>s_next := None\<rparr>) (subs v), invs := invs v @ [?i]\<rparr>)"
      "?Q (v\<lparr>faults := t, outbox := b, subs := update_where (\<lambda>s. s_id s = du_id d) (\<lambda>s. s\<lparr>s_next := None\<rparr>) (subs v), invs := invs v @ [?i]\<rparr>)"
      "?Q (v\<lparr>faults := t, invs := invs v @ [?i]\<rparr>)" if "invoice_ok ?i w" for t b
      by (rule fin [OF that, where c = True and n = None], use t in \<open>simp add: tab_def\<close>,
          rule fin [OF that, where c = True and n = None], use t in \<open>simp add: tab_def\<close>,
          rule fin [OF that, where c = False], use t in \<open>simp add: tab_def\<close>)
    show ?thesis unfolding renew_invoiced_def
      by (intro wp_intros wp_Send) (use t iok stored lost in \<open>simp_all add: update_sub_def\<close>)
  qed
  have create: "wp (CreateInvoice (d_client E) i) (\<lambda>r. wp (case r of
        None \<Rightarrow> State_Monad.return RenewNotCreated
      | Some ref \<Rightarrow> renew_invoiced E d start til ch a ref) (\<lambda>_. ?Q)) w"
    if p: "PlanFor (du_product d) (du_interval d) = Some p" "Charge p (du_quantity d) (du_discount d) = Inr ch"
      "(start, til) = Period p (du_end d)" and i: "ii_charge i = ch" "ii_contact i = du_contact d" for start til ch a p i
  proof (rule wp_CreateInvoice, goal_cases)
    case (1 u)
    then show ?case using idle [OF tab_outside] by (simp add: wp_return)
  next
    case (2 u r tax)
    have v: "tab (w\<lparr>lx_invoices := lx_invoices w @ [(lx_name w (fresh w), invoice_request (now w) i tax)]\<rparr>) u"
      using 2(1,4) by (simp add: tab_def outside_tables)
    have "sweep [d] w u"
      by (rule sweep_one [where ks = "[(lx_name w (fresh w), invoice_request (now w) i tax)]" and new = "[]" and f = "\<lambda>s. s"])
        (use v False in \<open>simp_all add: tab_def\<close>)
    moreover have "ledger_ok E u" using ok(1) tabD [OF v] by (simp add: ledger_ok_def)
    ultimately show ?case using 2(2) invoiced [OF p refl i v, of a] by (auto simp: wp_return)
  qed
  show ?thesis unfolding renewOne_def case_prod_beta Let_def
    by (intro wp_intros) (use False in \<open>auto intro!: idle create simp: wp_bind wp_return\<close>)
qed

lemma wp_renew_all:
  assumes "ledger_ok E w" "\<And>d. d \<in> set ds \<Longrightarrow> renewable d w" "distinct (map du_id ds)"
  shows "wp (collect (\<lambda>d. do { x \<leftarrow> renewOne E d; State_Monad.return (du_id d, x) }) ds) (\<lambda>_ u. ledger_ok E u \<and> sweep ds w u) w"
  using assms
proof (induction ds arbitrary: w)
  case Nil
  then show ?case by (simp add: wp_return sweep_Nil)
next
  case (Cons d ds)
  have "wp (renewOne E d) (\<lambda>_ v. ledger_ok E v \<and> sweep [d] w v) w"
    by (rule wp_renewOne) (use Cons.prems in simp_all)
  moreover have "wp (collect (\<lambda>d. do { x \<leftarrow> renewOne E d; State_Monad.return (du_id d, x) }) ds)
      (\<lambda>_ u. ledger_ok E u \<and> sweep (d # ds) w u) v" if v: "ledger_ok E v" "sweep [d] w v" for v
  proof -
    have new: "du_id d \<notin> du_id ` set ds" using Cons.prems(3) by simp
    have "renewable e v" if "e \<in> set ds" for e
    proof -
      have "du_id e \<noteq> du_id d" using that new by (metis imageI)
      then show ?thesis using renewable_sweep [OF Cons.prems(2) v(2), of e] that by simp
    qed
    then have "wp (collect (\<lambda>d. do { x \<leftarrow> renewOne E d; State_Monad.return (du_id d, x) }) ds) (\<lambda>_ u. ledger_ok E u \<and> sweep ds v u) v"
      using Cons.prems(3) v(1) by (intro Cons.IH) simp_all
    then show ?thesis by (rule wp_mono) (use sweep_trans [OF v(2), of ds] new in auto)
  qed
  ultimately show ?case
    by (auto simp: wp_bind wp_return_fun elim!: wp_mono)
qed

lemma due_renewable:
  assumes "ledger_ok E w" "s \<in> set (subs w)" "is_due w s"
  shows "renewable (due_of s e) w"
proof -
  have "find_sub (s_id s) w = Some s"
    using assms(1,2) unfolding find_sub_def ledger_ok_def by (intro find_key) (simp_all add: store_okD)
  with assms(3) show ?thesis by (auto simp: renewable_def due_of_def is_due_def)
qed

definition due_rows :: "'z world_scheme \<Rightarrow> dueSubscription list" where
  "due_rows w = [due_of s (midnight e). (s, Some e) \<leftarrow> map (\<lambda>s. (s, last_end (s_id s) w)) (filter (is_due w) (subs w))]"

lemma set_due_rows: "set (due_rows w) = {due_of s (midnight e) | s e. s \<in> set (subs w) \<and> is_due w s \<and> last_end (s_id s) w = Some e}"
  by (auto simp: due_rows_def split: option.splits) (metis (no_types, lifting))

lemma distinct_due_rows: "distinct (map s_id S) \<Longrightarrow>
  distinct (map du_id [due_of s (midnight e). (s, Some e) \<leftarrow> map (\<lambda>s. (s, g s)) (filter P S)])"
proof (induction S)
  case (Cons s S)
  have "du_id ` set [due_of s (midnight e). (s, Some e) \<leftarrow> map (\<lambda>s. (s, g s)) (filter P S)] \<subseteq> s_id ` set S"
    by (auto simp: due_of_def split: option.splits)
  with Cons show ?case by (cases "g s") (auto simp: due_of_def)
qed simp

lemma is_due_faults [simp]: "is_due (w\<lparr>faults := t\<rparr>) = is_due w"
  by (simp add: is_due_def fun_eq_iff)

lemma wp_renewOnce:
  assumes "ledger_ok E w"
  shows "wp (renewOnce E) (\<lambda>_ u. ledger_ok E u \<and> (tab w u \<or> sweep (due_rows w) w u)) w"
proof -
  have "distinct (map du_id (due_rows w))"
    unfolding due_rows_def by (rule distinct_due_rows) (use assms in \<open>simp add: ledger_ok_def store_okD\<close>)
  moreover have r: "renewable d (w\<lparr>faults := t\<rparr>)" if "d \<in> set (due_rows w)" for d t
    using that due_renewable [of E "w\<lparr>faults := t\<rparr>"] assms by (auto simp: set_due_rows)
  ultimately have all: "wp (collect (\<lambda>d. do { x \<leftarrow> renewOne E d; State_Monad.return (du_id d, x) }) (due_rows w))
      (\<lambda>_ u. ledger_ok E u \<and> sweep (due_rows w) (w\<lparr>faults := t\<rparr>) u) (w\<lparr>faults := t\<rparr>)" for t
    using assms by (intro wp_renew_all) simp_all
  have sw: "sweep ds (w\<lparr>faults := t\<rparr>) u = sweep ds w u" for ds t u by (simp add: sweep_def)
  show ?thesis unfolding renewOnce_def
    by (intro wp_consts wp_intros)
      (use assms in \<open>auto simp: wp_return_fun sw simp del: map_map simp flip: due_rows_def intro!: wp_mono [OF all]\<close>)
qed

lemma renewal_of_due:
  "renewal_of (due_of s (midnight e)) i ks \<longleftrightarrow> i_sub i = s_id s \<and> (\<exists>p. PlanFor (s_product s) (s_interval s) = Some p \<and>
     i_start i = e \<and> i_end i = day_of (snd (Period p (midnight e))) \<and>
     (if s_free s then i_status i = InvPaid \<and> i_net i = 0
      else i_status i = InvOpen \<and> (\<exists>ch q. Charge p (s_quantity s) (s_discount s) = Inr ch \<and> i_net i = ch_net_cents ch \<and>
        (i_ref i, q) \<in> set ks \<and> ir_contact q = (case s_contact s of None \<Rightarrow> '''' | Some c \<Rightarrow> c) \<and>
        100 * paper_net q = of_int (i_net i))))"
  by (simp add: renewal_of_def due_of_def Period_def cong: if_cong)

lemma keeps_renewOnce: "keeps (ledger_ok E) (renewOnce E)"
  by (rule keepsI, rule wp_mono [OF wp_renewOnce]) simp_all


definition renew_world :: world where
  "renew_world = sample_world 0 [sample_sub SubPaid (Some 0)] [sample_invoice InvPaid] []"

lemma renew_ledger: "ledger_ok E renew_world"
  by (simp add: renew_world_def ledger_eval)

lemma renew_run: "\<exists>rep u. run_state (renewOnce sample_deployment) renew_world = (Some rep, u) \<and> rr_orphans rep = Some 0 \<and>
    rr_results rep = [(''s1'', RenewInvoiced ''RE7'' True)] \<and> length (invs u) = 2"
proof -
  let ?s = "sample_sub SubPaid (Some 0)" and ?E = sample_deployment
  let ?d = "due_of ?s (midnight 31)"
  let ?ch = "\<lparr>ch_quantity = 2, ch_percent = 0, ch_list_cents = 59800, ch_discount_cents = 0, ch_net_cents = 59800\<rparr>"
  let ?a = "\<lparr>ia_net = 59800, ia_tax = 0, ia_gross = 59800, ia_type = ''vatfree'', ia_rate = 0\<rparr>"
  have due: "is_due renew_world ?s" "last_end ''s1'' renew_world = Some 31" "subs renew_world = [?s]" "\<not> is_orphan renew_world ?s"
    "faults renew_world = []" "fresh renew_world = 7" "invs renew_world = [sample_invoice InvPaid]"
    "lx_name renew_world k = ''RE'' @ show_nat k" "s_id ?s = ''s1''" for k
    by (simp_all add: renew_world_def sample_defs is_due_def is_orphan_def has_open_def last_end_def invoices_of_def)
  have p: "PlanFor (du_product ?d) (du_interval ?d) = Some pro_month" by (simp add: plans_simps sample_sub_def due_of_def)
  have c: "Charge pro_month (du_quantity ?d) (du_discount ?d) = Inr ?ch"
    unfolding sample_sub_def due_of_def by code_simp
  have a: "InvoiceAmountsFor True 59800 ''DE'' False = Inr ?a" by code_simp
  have d: "cl_small (d_client ?E) = True" "client_enabled (d_client ?E)" "\<not> bad_line (sm_from (is_smtp (d_issuer ?E)))"
    "\<not> bad_line (du_email ?d)" "du_country ?d = ''DE''" "\<not> du_free ?d" "du_id ?d = ''s1''"
    by (simp_all add: sample_deployment_def client_enabled_def toy_issuer_def bad_line_def due_of_def sample_sub_def)
  have "\<not> isl (taxTreatmentFor \<lparr>tc_country = ''DE'', tc_vat_verified = False, tc_small_business = True\<rparr>)" by code_simp
  then obtain tx where tx: "taxTreatmentFor \<lparr>tc_country = ''DE'', tc_vat_verified = False, tc_small_business = True\<rparr> = Inr tx"
    by (cases "taxTreatmentFor \<lparr>tc_country = ''DE'', tc_vat_verified = False, tc_small_business = True\<rparr>") simp_all
  have n: "show_nat 7 = ''7''" by code_simp
  obtain x y where per: "Period pro_month (du_end ?d) = (x, y)" by fastforce
  have iok: "invoice_ok (invoice_row ''s1'' ''RE7'' x y ?ch ?a t) (renew_world\<lparr>fresh := k, lx_invoices := l\<rparr>)" for t k l
    using due by (simp add: invoice_ok_def invoice_row_def sample_invoice_def)
  have "\<exists>u. run_state (renewOne ?E ?d) renew_world = (RenewInvoiced ''RE7'' True, u) \<and> length (invs u) = 2"
    using due(5-9) d p c a tx n per iok
    by (simp add: renewOne_def CreateInvoice_def run_simps run_do_create renew_invoiced_def InvoicePDF_def run_do_get Send_def
        update_sub_def)
  then show ?thesis using due d(7) by (auto simp: renewOnce_def run_simps count_where_def)
qed


end
