(* ===== verification/Billing_Keys.thy ===== *)
theory Billing_Keys
  imports Billing_Cycle
begin

text \<open>
  Fresh keys for running subscriptions (\<^verbatim>\<open>internal/billing/lexware/subscription.go\<close>,
  \<^verbatim>\<open>handler.go\<close>): the sweep that mails a key before the old one runs out
  (\<open>mailExpiringOnce\<close>), and the endpoint an instance fetches its key from (\<open>GetLicense\<close>).
  A renewal token is compared as text, in its canonical spelling.
\<close>

section \<open>Fresh keys\<close>

definition renewalProgress :: int where "renewalProgress = 24 * 3600"

record due_key =
  dk_token :: string
  dk_org :: string
  dk_until :: instant
  dk_email :: string
  dk_interval :: string

definition joined :: "instant \<Rightarrow> 'z world_scheme \<Rightarrow> licence \<Rightarrow> due_key list" where
  "joined cutoff w l = (case find_sub (l_sub l) w of
       None \<Rightarrow> []
     | Some s \<Rightarrow>
         if l_revoked l = None \<and> l_key l \<noteq> '''' \<and> l_kind l \<noteq> Trial \<and> s_status s = SubPaid \<and> s_cancelled s = None
           \<and> l_until l < cutoff
         then [\<lparr>dk_token = l_rtoken l, dk_org = l_orgname l, dk_until = l_until l, dk_email = s_email s,
                dk_interval = s_interval s\<rparr>]
         else [])"

definition expiring :: "instant \<Rightarrow> 'z world_scheme \<Rightarrow> due_key list" where
  "expiring cutoff w = concat (map (joined cutoff w) (lics w))"

definition renewed_text :: "string \<Rightarrow> string \<Rightarrow> instant \<Rightarrow> string \<Rightarrow> string" where
  "renewed_text org key until token =
     ''Hallo,'' @ nl @ nl
     @ ''hier ist der neue Lizenzschl'' @ u_uuml @ ''ssel f'' @ u_uuml @ ''r '' @ org @ ''. Der bisherige l'' @ u_auml @ ''uft demn'' @ u_auml @ ''chst aus '' @ u_dash @ nl
     @ ''trag den neuen einfach in deiner Vakt-Instanz ein (Einstellungen '' @ u_arrow @ '' Lizenz) oder in'' @ nl
     @ ''die .env:'' @ nl @ nl
     @ ''  VAKT_LICENSE_KEY='' @ key @ nl @ nl
     @ ''G'' @ u_uuml @ ''ltig bis '' @ fmt_german until @ ''.'' @ nl @ nl
     @ ''Das geht auch von allein: Tr'' @ u_auml @ ''gst du zus'' @ u_auml @ ''tzlich'' @ nl @ nl
     @ ''  VAKT_LICENSE_TOKEN='' @ token @ nl @ nl
     @ ''ein, holt sich deine Instanz den jeweils aktuellen Schl'' @ u_uuml @ ''ssel selbst und du bekommst'' @ nl
     @ ''diese Mail nie wieder. '' @ u_Uuml @ ''bertragen wird dabei ausschlie'' @ u_szlig @ ''lich dieser Token '' @ u_dash @ '' keine'' @ nl
     @ ''Daten aus deiner Instanz, keine Nutzungsstatistik, nichts '' @ u_uuml @ ''ber deine Compliance.'' @ nl
     @ ''Freiwillig: Ohne den Token bekommst du weiter alle paar Wochen einen Schl'' @ u_uuml @ ''ssel von'' @ nl
     @ ''uns, und deine Instanz spricht nie mit uns.'' @ nl @ nl
     @ ''Viele Gr'' @ u_uuml @ u_szlig @ ''e'' @ nl
     @ ''Stefan'' @ nl
     @ ''Norvik Ops'' @ nl"

datatype mail_log = MailNotEntitled | MailNoProgress | MailNotSigned | MailNotSent | MailSent

definition mail_key :: "deployment \<Rightarrow> due_key \<Rightarrow> ('z world_scheme, mail_log) state" where
  "mail_key E d = do {
     e \<leftarrow> EntitlementByToken (dk_token d);
     t \<leftarrow> gets now;
     (case e of
        Inl _ \<Rightarrow> State_Monad.return MailNotEntitled
      | Inr until \<Rightarrow>
          if \<not> until > t then State_Monad.return MailNotEntitled
          else if \<not> until > dk_until d + renewalProgress then State_Monad.return MailNoProgress
          else (case SignUntil (d_crypto E) (d_issuer E) t
              (ForLicence (dk_token d) (dk_org d) (dk_email d) (dk_interval d)) until of
            Inl _ \<Rightarrow> State_Monad.return MailNotSigned
          | Inr key \<Rightarrow> do {
              sent \<leftarrow> Send (d_issuer E) (dk_email d) (''Dein neuer Vakt-Lizenzschl'' @ u_uuml @ ''ssel'')
                (renewed_text (dk_org d) key until (dk_token d)) '''' '''';
              (if \<not> sent then State_Monad.return MailNotSent
               else do {
                 _ \<leftarrow> exec (update_licence (dk_token d) (\<lambda>l. l\<lparr>l_key := key, l_until := until\<rparr>));
                 State_Monad.return MailSent }) })) }"

text \<open>Selected, mailed, and passed over for want of progress.\<close>

definition mailExpiringOnce :: "deployment \<Rightarrow> ('z world_scheme, (nat \<times> nat \<times> nat) option) state" where
  "mailExpiringOnce E = do {
     t \<leftarrow> gets now;
     r \<leftarrow> db (expiring (t + MailBelowDays * secs_per_day));
     (case r of
        None \<Rightarrow> State_Monad.return None
      | Some rows \<Rightarrow> do {
          list \<leftarrow> received rows;
          logs \<leftarrow> collect (mail_key E) list;
          State_Monad.return (Some (length list, length (filter (\<lambda>x. x = MailSent) logs),
            length (filter (\<lambda>x. x = MailNoProgress) logs))) }) }"

text \<open>The endpoint behind the renewal token. The \<^verbatim>\<open>Authorization\<close> header carries it.\<close>

datatype licence_reply = BearerRequired | KeyServed string | LicenceNotFound

definition servable :: "string \<Rightarrow> 'z world_scheme \<Rightarrow> (licence \<times> string) option" where
  "servable token w = (case find_licence token w of
     None \<Rightarrow> None
   | Some l \<Rightarrow>
       (case find_sub (l_sub l) w of
          None \<Rightarrow> None
        | Some s \<Rightarrow> if l_revoked l = None \<and> l_key l \<noteq> '''' \<and> s_status s = SubPaid \<and> s_cancelled s = None
            then Some (l, s_interval s) else None))"

definition serve_key :: "deployment \<Rightarrow> string \<Rightarrow> instant \<Rightarrow> licence \<Rightarrow> string \<Rightarrow> ('z world_scheme, licence_reply) state" where
  "serve_key E token t l interval = do {
     e \<leftarrow> EntitlementByToken token;
     (case e of
        Inl _ \<Rightarrow> State_Monad.return (KeyServed (l_key l))
      | Inr limit \<Rightarrow>
          if \<not> limit > t then State_Monad.return LicenceNotFound
          else if Enabled (d_issuer E) \<and> l_until l - t < RenewBelowDays * secs_per_day \<and> limit > l_until l
          then (case SignUntil (d_crypto E) (d_issuer E) t (ForLicence token (l_orgname l) '''' interval) limit of
            Inl _ \<Rightarrow> State_Monad.return (KeyServed (l_key l))
          | Inr fresh_key \<Rightarrow> do {
              ok \<leftarrow> exec (update_licence token (\<lambda>m. m\<lparr>l_key := fresh_key, l_until := limit\<rparr>));
              State_Monad.return (KeyServed (if ok then fresh_key else l_key l)) })
          else State_Monad.return (KeyServed (l_key l))) }"

definition GetLicense :: "deployment \<Rightarrow> string \<Rightarrow> ('z world_scheme, licence_reply) state" where
  "GetLicense E auth =
     (let token = trim_prefix auth ''Bearer '' in
      if token = '''' \<or> token = auth then State_Monad.return BearerRequired
      else do {
        t \<leftarrow> gets now;
        r \<leftarrow> returning (servable token) (update_licence token (\<lambda>l. l\<lparr>l_seen := Some t\<rparr>));
        (case r of
           None \<Rightarrow> State_Monad.return LicenceNotFound
         | Some (l, interval) \<Rightarrow> serve_key E token t l interval) })"

section \<open>Keys that run out\<close>

text \<open>A key signed up to the limit of its subscription may take the place of the one in the row.\<close>

definition resigned :: "string \<Rightarrow> string \<Rightarrow> instant \<Rightarrow> 'z world_scheme \<Rightarrow> 'z world_scheme" where
  "resigned tok key until = update_licence tok (\<lambda>l. l\<lparr>l_key := key, l_until := until\<rparr>)"

lemma ledger_ok_resigned:
  assumes ok: "ledger_ok E w" "good_deployment E" and l: "find_licence tok w = Some l" "find_sub (l_sub l) w = Some s"
    and k: "limit_of s w = Inr until" "SignUntil (d_crypto E) (d_issuer E) t r until = Inr key"
      "rq_token r = tok" "rq_orgname r = l_orgname l"
  shows "ledger_ok E (resigned tok key until w)"
proof -
  have base: "store_ok (d_crypto E) (subs w) (invs w) (lics w)" using ok(1) by (simp add: ledger_ok_def)
  note lt = find_licence_token [OF l(1)] and st = find_sub_id [OF l(2)]
  let ?f = "\<lambda>l. l\<lparr>l_key := key, l_until := until\<rparr>"
  have "key_good (d_crypto E) (?f l)"
    using SignUntil_good(1) [OF _ k(2), of "?f l"] ok(2) k(3,4) lt by (simp add: good_deployment_def)
  moreover have "covered (subs w) (invs w) (?f l)"
    using limit_covered [OF k(1) _ store_okD(8) [OF base], of "?f l"] st by simp
  ultimately have "store_ok (d_crypto E) (subs w) (invs w) (update_where (\<lambda>l. l_rtoken l = tok) ?f (lics w))"
    using lt by (intro store_ok_sign [OF base, where l = l]) simp_all
  then show ?thesis by (simp add: ledger_ok_def resigned_def update_licence_def)
qed

lemma wp_mail_key:
  assumes idle: "\<And>r t. r \<noteq> MailSent \<Longrightarrow> Q r (w\<lparr>faults := t\<rparr>)"
    and sent: "\<And>l s until key t ob u. find_licence (dk_token d) w = Some l \<Longrightarrow> find_sub (l_sub l) w = Some s \<Longrightarrow> live s \<Longrightarrow>
      limit_of s w = Inr until \<Longrightarrow> until > now w \<Longrightarrow> until > dk_until d + renewalProgress \<Longrightarrow>
      SignUntil (d_crypto E) (d_issuer E) (now w) (ForLicence (dk_token d) (dk_org d) (dk_email d) (dk_interval d)) until = Inr key \<Longrightarrow>
      u = w\<lparr>faults := t, outbox := ob\<rparr> \<or> u = resigned (dk_token d) key until (w\<lparr>faults := t, outbox := ob\<rparr>) \<Longrightarrow> Q MailSent u"
  shows "wp (mail_key E d) Q w"
proof -
  have idle': "Q r w" if "r \<noteq> MailSent" for r using idle [OF that, of "faults w"] by simp
  have r: "update_licence tok (\<lambda>l. l\<lparr>l_key := key, l_until := until\<rparr>) v = resigned tok key until v" for tok key until v
    by (simp add: resigned_def)
  show ?thesis unfolding mail_key_def wp_bind
  proof (rule wp_EntitlementByToken, goal_cases)
    case (1 t e)
    then show ?case by (simp add: wp_bind wp_gets wp_return idle)
  next
    case (2 l s t x)
    show ?case unfolding sum.case
      by (intro wp_intros wp_Send) (auto simp: idle r intro: sent [OF 2])
  qed
qed

lemma keeps_mail_all:
  fixes w :: "'z world_scheme"
  assumes "good_deployment E"
  shows "ledger_ok E w \<Longrightarrow> \<forall>d \<in> set ds. \<forall>l \<in> set (lics w). l_rtoken l = dk_token d \<longrightarrow> l_orgname l = dk_org d \<Longrightarrow>
    wp (collect (mail_key E) ds) (\<lambda>_. ledger_ok E) w"
proof (induction ds arbitrary: w)
  case (Cons d ds)
  let ?P = "\<lambda>(w :: 'z world_scheme) ds. \<forall>d \<in> set ds. \<forall>l \<in> set (lics w). l_rtoken l = dk_token d \<longrightarrow> l_orgname l = dk_org d"
  have more: "wp (collect (mail_key E) ds) (\<lambda>a. wp (State_Monad.return (x # a)) (\<lambda>_. ledger_ok E)) v"
    if "ledger_ok E v" "?P v ds" for x and v :: "'z world_scheme"
    using Cons.IH [OF that] by (simp add: wp_return_fun)
  show ?case unfolding collect.simps wp_bind
  proof (rule wp_mail_key, goal_cases)
    case (1 r t)
    then show ?case using Cons.prems by (intro more) simp_all
  next
    case (2 l s until key t ob u)
    have same: "?P (resigned tok key until v) ds" if "lics v = lics w" for tok key until v
      using Cons.prems(2) that by (auto simp: resigned_def update_licence_def set_update_where split: if_splits)
    have "ledger_ok E (resigned (dk_token d) key until (w\<lparr>faults := t, outbox := ob\<rparr>))"
      using ledger_ok_resigned [OF _ assms, of "w\<lparr>faults := t, outbox := ob\<rparr>" "dk_token d" l s until "now w"] 2 Cons.prems
      by (auto simp: ForLicence_def find_licence_def find_sub_def limit_of_def paid_end_def invoices_of_def dest: find_Some_in)
    then show ?case using 2(8) Cons.prems same by (auto intro!: more simp: resigned_def update_licence_def)
  qed
qed (simp add: wp_return)

lemma joined_row:
  "d \<in> set (joined c w l) \<longleftrightarrow> (\<exists>s. find_sub (l_sub l) w = Some s \<and> l_revoked l = None \<and> l_key l \<noteq> '''' \<and>
     l_kind l \<noteq> Trial \<and> s_status s = SubPaid \<and> s_cancelled s = None \<and> l_until l < c \<and>
     d = \<lparr>dk_token = l_rtoken l, dk_org = l_orgname l, dk_until = l_until l, dk_email = s_email s, dk_interval = s_interval s\<rparr>)"
  by (cases "find_sub (l_sub l) w") (auto simp: joined_def)

lemma expiring_row:
  "d \<in> set (expiring c w) \<longleftrightarrow> (\<exists>l s. l \<in> set (lics w) \<and> find_sub (l_sub l) w = Some s \<and> l_revoked l = None \<and> l_key l \<noteq> '''' \<and>
     l_kind l \<noteq> Trial \<and> s_status s = SubPaid \<and> s_cancelled s = None \<and> l_until l < c \<and>
     d = \<lparr>dk_token = l_rtoken l, dk_org = l_orgname l, dk_until = l_until l, dk_email = s_email s, dk_interval = s_interval s\<rparr>)"
proof -
  have "d \<in> set (expiring c w) \<longleftrightarrow> (\<exists>l \<in> set (lics w). d \<in> set (joined c w l))" by (simp add: expiring_def)
  then show ?thesis unfolding joined_row by blast
qed

lemma expiring_faults [simp]: "expiring c (w\<lparr>faults := t\<rparr>) = expiring c w"
  by (simp add: expiring_def joined_def cong: map_cong)

lemma keeps_mailExpiringOnce:
  assumes "good_deployment E"
  shows "keeps (ledger_ok E) (mailExpiringOnce E)"
proof (rule keepsI)
  fix w :: "'a world_scheme"
  assume ok: "ledger_ok E w"
  have "wp (collect (mail_key E) ds) (\<lambda>_. ledger_ok E) (w\<lparr>faults := t\<rparr>)" if sub: "set ds \<subseteq> set (expiring c w)" for ds t c
  proof (rule keeps_mail_all [OF assms])
    show "\<forall>d \<in> set ds. \<forall>l \<in> set (lics (w\<lparr>faults := t\<rparr>)). l_rtoken l = dk_token d \<longrightarrow> l_orgname l = dk_org d"
    proof (intro ballI impI)
      fix d l assume d: "d \<in> set ds" "l \<in> set (lics (w\<lparr>faults := t\<rparr>))" "l_rtoken l = dk_token d"
      then obtain m where m: "m \<in> set (lics w)" "dk_token d = l_rtoken m" "dk_org d = l_orgname m"
        using subsetD [OF sub d(1)] by (auto simp: expiring_row)
      have "l = m" by (rule distinct_key [of l_rtoken "lics w"]) (use d m ok in \<open>simp_all add: ledger_ok_def store_okD\<close>)
      with m show "l_orgname l = dk_org d" by simp
    qed
  qed (simp add: ok)
  then show "wp (mailExpiringOnce E) (\<lambda>_. ledger_ok E) w" unfolding mailExpiringOnce_def
    by (intro wp_consts wp_intros wp_received) (auto simp: ok wp_return_fun dest!: set_mono_prefix)
qed

text \<open>What the limit of a token is, when the database answers.\<close>

definition ent_of :: "string \<Rightarrow> 'z world_scheme \<Rightarrow> ent_error + instant" where
  "ent_of tok w = (case find_licence tok w of
     None \<Rightarrow> Inl QueryFailed
   | Some l \<Rightarrow>
       (case find_sub (l_sub l) w of
          None \<Rightarrow> Inl QueryFailed
        | Some s \<Rightarrow> if \<exists>e. limit_of s w = Inl e \<and> e \<noteq> NothingPaid then limit_of s w
            else if \<not> live s then Inl NoRows else limit_of s w))"

lemma run_paidThrough:
  assumes "faults w = []" "find_sub sid w = Some s"
  shows "run_state (paidThrough sid) w = ((live s, limit_of s w), w)"
proof -
  have id: "s_id s = sid" using find_sub_id [OF assms(2)] by simp
  show ?thesis using assms
    by (cases "paid_end sid w"; cases "PlanFor (s_product s) (s_interval s)")
      (simp_all add: paidThrough_def run_simps live_def limit_of_def grace_midnight id Let_def)
qed

lemma run_ent:
  assumes "faults w = []"
  shows "run_state (EntitlementByToken tok) w = (ent_of tok w, w)"
proof (cases "find_licence tok w")
  case None
  then show ?thesis using assms by (simp add: EntitlementByToken_def ent_of_def run_simps)
next
  case (Some l)
  show ?thesis
  proof (cases "find_sub (l_sub l) w")
    case None
    then show ?thesis using assms Some
      by (simp add: EntitlementByToken_def Entitlement_def ent_of_def run_simps paidThrough_def)
  next
    case (Some s)
    then show ?thesis using assms \<open>find_licence tok w = Some l\<close>
      by (simp add: EntitlementByToken_def Entitlement_def ent_of_def run_simps run_paidThrough)
  qed
qed

lemma sign_time:
  "good_deployment E \<Longrightarrow> isl (SignUntil (d_crypto E) (d_issuer E) t r e) \<longleftrightarrow> \<not> Enabled (d_issuer E) \<or> rq_token r = ''''"
proof (cases "Enabled (d_issuer E) \<and> rq_token r \<noteq> ''''")
  case True
  assume "good_deployment E"
  with True obtain key where "SignUntil (d_crypto E) (d_issuer E) t r e = Inr key"
    using SignUntil_total unfolding good_deployment_def by metis
  with True show ?thesis by simp
qed (auto simp: SignUntil_def)

definition mail_due :: "deployment \<Rightarrow> instant \<Rightarrow> 'z world_scheme \<Rightarrow> due_key \<Rightarrow> bool" where
  "mail_due E t w d \<longleftrightarrow> (\<exists>until. ent_of (dk_token d) w = Inr until \<and> until > t \<and> until > dk_until d + renewalProgress) \<and>
     Enabled (d_issuer E) \<and> dk_token d \<noteq> '''' \<and> \<not> bad_line (sm_from (is_smtp (d_issuer E))) \<and> \<not> bad_line (dk_email d)"

lemma run_mail_key:
  assumes "good_deployment E" "faults w = []"
  shows "if mail_due E (now w) w d
    then \<exists>until key m. ent_of (dk_token d) w = Inr until \<and>
      run_state (mail_key E d) w = (MailSent, resigned (dk_token d) key until (w\<lparr>outbox := outbox w @ [m]\<rparr>))
    else \<exists>r. run_state (mail_key E d) w = (r, w)"
proof (cases "ent_of (dk_token d) w")
  case (Inl e)
  then show ?thesis using assms(2) by (simp add: mail_due_def mail_key_def run_simps run_ent)
next
  case (Inr until)
  let ?r = "ForLicence (dk_token d) (dk_org d) (dk_email d) (dk_interval d)"
  have tok: "rq_token ?r = dk_token d" by (simp add: ForLicence_def)
  show ?thesis
  proof (cases "SignUntil (d_crypto E) (d_issuer E) (now w) ?r until")
    case (Inl e)
    then have "\<not> mail_due E (now w) w d"
      using sign_time [OF assms(1), of "now w" ?r until] by (auto simp: mail_due_def tok)
    then show ?thesis using assms(2) Inr Inl by (simp add: mail_key_def run_simps run_ent)
  next
    case k: (Inr key)
    then have "Enabled (d_issuer E)" "dk_token d \<noteq> ''''"
      using sign_time [OF assms(1), of "now w" ?r until] by (simp_all add: tok)
    then show ?thesis using assms(2) Inr k
      by (auto simp: mail_due_def mail_key_def run_simps run_ent Send_def resigned_def)
  qed
qed

text \<open>\<open>still w v\<close>: of \<open>w\<close>, only licences changed, and a changed one runs to the limit of its token.\<close>

definition still :: "'z world_scheme \<Rightarrow> 'z world_scheme \<Rightarrow> bool" where
  "still w v \<longleftrightarrow> subs v = subs w \<and> invs v = invs w \<and> now v = now w \<and> faults v = [] \<and>
     map l_rtoken (lics v) = map l_rtoken (lics w) \<and>
     (\<forall>m \<in> set (lics v). \<exists>l \<in> set (lics w). l_rtoken m = l_rtoken l \<and> l_sub m = l_sub l \<and>
        (m = l \<or> ent_of (l_rtoken l) w = Inr (l_until m)))"

lemma find_licence_key: "distinct (map l_rtoken (lics w)) \<Longrightarrow> l \<in> set (lics w) \<Longrightarrow> find_licence (l_rtoken l) w = Some l"
  unfolding find_licence_def by (rule find_key)

lemma find_licence_None: "find_licence tok w = None \<longleftrightarrow> tok \<notin> set (map l_rtoken (lics w))"
  by (auto simp: find_licence_def find_None_iff)

lemma ent_of_cong:
  assumes "subs v = subs w" "invs v = invs w"
    and "map_option l_sub (find_licence tok v) = map_option l_sub (find_licence tok w)"
  shows "ent_of tok v = ent_of tok w"
proof -
  have "find_sub sid v = find_sub sid w" "limit_of s v = limit_of s w" for sid s
    using assms(1,2) by (simp_all add: find_sub_def limit_of_def paid_end_def invoices_of_def)
  with assms(3) show ?thesis
    by (cases "find_licence tok v"; cases "find_licence tok w") (simp_all add: ent_of_def cong: option.case_cong if_cong)
qed

lemma still_sub:
  assumes "still w v" "distinct (map l_rtoken (lics w))"
  shows "map_option l_sub (find_licence tok v) = map_option l_sub (find_licence tok w)"
proof (cases "find_licence tok v")
  case None
  then have "find_licence tok w = None" using assms(1) unfolding find_licence_None still_def by metis
  with None show ?thesis by simp
next
  case (Some m)
  note m = find_licence_token [OF Some]
  with assms(1) obtain l where "l \<in> set (lics w)" "l_rtoken l = tok" "l_sub m = l_sub l" unfolding still_def by metis
  then show ?thesis using find_licence_key [OF assms(2)] Some by auto
qed

lemma ent_of_still:
  assumes "still w v" "distinct (map l_rtoken (lics w))"
  shows "ent_of tok v = ent_of tok w"
  by (rule ent_of_cong [OF _ _ still_sub [OF assms]]) (use assms(1) in \<open>simp_all add: still_def\<close>)

text \<open>What the pass leaves behind for a licence it looked at.\<close>

definition served :: "deployment \<Rightarrow> 'z world_scheme \<Rightarrow> due_key \<Rightarrow> 'z world_scheme \<Rightarrow> bool" where
  "served E w d v \<longleftrightarrow> (\<forall>m \<in> set (lics v). l_rtoken m = dk_token d \<longrightarrow>
     ent_of (dk_token d) w = Inr (l_until m) \<or> \<not> mail_due E (now w) w d)"

lemma mail_step:
  fixes w v :: "'z world_scheme"
  assumes "good_deployment E" "still w v" "distinct (map l_rtoken (lics w))"
  obtains r v' where "run_state (mail_key E d) v = (r, v')" "still w v'" "served E w d v'"
    "\<And>e. served E w e v \<Longrightarrow> served E w e v'"
proof -
  have f: "faults v = []" "now v = now w" using assms(2) by (simp_all add: still_def)
  note ent = ent_of_still [OF assms(2,3)]
  have due: "mail_due E (now w) v e = mail_due E (now w) w e" for e by (simp add: mail_due_def ent)
  show thesis
  proof (cases "mail_due E (now w) w d")
    case False
    then obtain r where "run_state (mail_key E d) v = (r, v)"
      using run_mail_key [OF assms(1) f(1), of d] f(2) due by auto
    then show thesis by (rule that) (use assms(2) False in \<open>simp_all add: served_def\<close>)
  next
    case True
    then obtain until key m where m: "ent_of (dk_token d) w = Inr until"
      "run_state (mail_key E d) v = (MailSent, resigned (dk_token d) key until (v\<lparr>outbox := outbox v @ [m]\<rparr>))"
      using run_mail_key [OF assms(1) f(1), of d] f(2) due ent by auto
    let ?v = "resigned (dk_token d) key until (v\<lparr>outbox := outbox v @ [m]\<rparr>)"
    have L: "lics ?v = update_where (\<lambda>l. l_rtoken l = dk_token d) (\<lambda>l. l\<lparr>l_key := key, l_until := until\<rparr>) (lics v)"
      by (simp add: resigned_def update_licence_def)
    have row: "\<exists>m \<in> set (lics v). l_rtoken n = l_rtoken m \<and> l_sub n = l_sub m \<and>
        (if l_rtoken n = dk_token d then l_until n = until else n = m)" if "n \<in> set (lics ?v)" for n
    proof -
      from that obtain m where "m \<in> set (lics v)" "n = (if l_rtoken m = dk_token d then m\<lparr>l_key := key, l_until := until\<rparr> else m)"
        unfolding L set_update_where by blast
      then show ?thesis by (intro bexI [of _ m]) simp_all
    qed
    have st: "still w ?v" unfolding still_def
    proof (intro conjI ballI)
      show "map l_rtoken (lics ?v) = map l_rtoken (lics w)"
        unfolding L using assms(2) by (simp add: map_update_where still_def)
      fix n assume "n \<in> set (lics ?v)"
      from row [OF this] obtain m where n: "m \<in> set (lics v)" "l_rtoken n = l_rtoken m" "l_sub n = l_sub m"
        "if l_rtoken n = dk_token d then l_until n = until else n = m" by blast
      with assms(2) obtain l where "l \<in> set (lics w)" "l_rtoken m = l_rtoken l" "l_sub m = l_sub l"
        "m = l \<or> ent_of (l_rtoken l) w = Inr (l_until m)" unfolding still_def by blast
      with n m(1) show "\<exists>l \<in> set (lics w). l_rtoken n = l_rtoken l \<and> l_sub n = l_sub l \<and>
          (n = l \<or> ent_of (l_rtoken l) w = Inr (l_until n))"
        by (intro bexI [of _ l]) (auto split: if_splits)
    qed (use assms(2) in \<open>simp_all add: still_def resigned_def update_licence_def\<close>)
    have "served E w d ?v" unfolding served_def
    proof (intro ballI impI)
      fix n assume n: "n \<in> set (lics ?v)" "l_rtoken n = dk_token d"
      from row [OF n(1)] n(2) have "l_until n = until" by metis
      with m(1) show "ent_of (dk_token d) w = Inr (l_until n) \<or> \<not> mail_due E (now w) w d" by simp
    qed
    moreover have "served E w e ?v" if "served E w e v" for e unfolding served_def
    proof (intro ballI impI)
      fix n assume n: "n \<in> set (lics ?v)" "l_rtoken n = dk_token e"
      from row [OF n(1)] obtain k where "k \<in> set (lics v)" "l_rtoken n = l_rtoken k"
        "if l_rtoken n = dk_token d then l_until n = until else n = k" by blast
      note k = this
      show "ent_of (dk_token e) w = Inr (l_until n) \<or> \<not> mail_due E (now w) w e"
      proof (cases "l_rtoken n = dk_token d")
        case True
        with k(3) n(2) m(1) show ?thesis by simp
      next
        case False
        with k(3) have "n = k" by (simp only: if_False)
        with k(1) have "n \<in> set (lics v)" by (simp only:)
        with that n(2) show ?thesis unfolding served_def by blast
      qed
    qed
    ultimately show thesis by (intro that [OF m(2) st])
  qed
qed

lemma mail_pass:
  fixes w v :: "'z world_scheme"
  assumes "good_deployment E" "distinct (map l_rtoken (lics w))" "still w v"
  shows "\<exists>r u. run_state (collect (mail_key E) ds) v = (r, u) \<and> still w u \<and> (\<forall>d \<in> set ds. served E w d u) \<and>
    (\<forall>e. served E w e v \<longrightarrow> served E w e u)"
  using assms(3)
proof (induction ds arbitrary: v)
  case Nil
  then show ?case by simp
next
  case (Cons d ds)
  obtain r v' where 1: "run_state (mail_key E d) v = (r, v')" "still w v'" "served E w d v'"
    "\<And>e. served E w e v \<Longrightarrow> served E w e v'" using mail_step [OF assms(1) Cons.prems assms(2)] by blast
  from Cons.IH [OF 1(2)] obtain rs u where "run_state (collect (mail_key E) ds) v' = (rs, u)" "still w u"
    "\<forall>d \<in> set ds. served E w d u" "\<forall>e. served E w e v' \<longrightarrow> served E w e u" by blast
  with 1 have "run_state (collect (mail_key E) (d # ds)) v = (r # rs, u) \<and> still w u \<and>
      (\<forall>e \<in> set (d # ds). served E w e u) \<and> (\<forall>e. served E w e v \<longrightarrow> served E w e u)"
    by (auto simp: run_simps)
  then show ?case by blast
qed

lemma mail_idle:
  assumes "good_deployment E" "faults v = []"
  shows "\<forall>e \<in> set ds. \<not> mail_due E (now v) v e \<Longrightarrow> \<exists>r. run_state (collect (mail_key E) ds) v = (r, v)"
proof (induction ds)
  case (Cons d ds)
  obtain r where "run_state (mail_key E d) v = (r, v)" using run_mail_key [OF assms, of d] Cons.prems by auto
  moreover obtain rs where "run_state (collect (mail_key E) ds) v = (rs, v)" using Cons.IH Cons.prems by auto
  ultimately have "run_state (collect (mail_key E) (d # ds)) v = (r # rs, v)" by (simp add: run_simps)
  then show ?case by blast
qed simp

lemma not_due_again:
  fixes w u :: "'z world_scheme"
  assumes st: "still w u" "distinct (map l_rtoken (lics w))"
    and fin: "\<forall>d \<in> set (expiring (now w + MailBelowDays * secs_per_day) w). served E w d u"
    and t: "now w \<le> t" "\<forall>l \<in> set (lics w). l_until l < now w + MailBelowDays * secs_per_day \<or> t + MailBelowDays * secs_per_day \<le> l_until l"
    and e: "e \<in> set (expiring (t + MailBelowDays * secs_per_day) (u\<lparr>now := t\<rparr>))"
  shows "\<not> mail_due E t (u\<lparr>now := t\<rparr>) e"
proof
  let ?v = "u\<lparr>now := t\<rparr>"
  assume due: "mail_due E t ?v e"
  have same: "find_sub sid ?v = find_sub sid w" for sid using st(1) by (simp add: find_sub_def still_def)
  have "ent_of tok ?v = ent_of tok u" for tok by (rule ent_of_cong) (simp_all add: find_licence_def)
  then have ent: "ent_of tok ?v = ent_of tok w" for tok using ent_of_still [OF st] by simp
  from e obtain m s where m: "m \<in> set (lics u)" "find_sub (l_sub m) w = Some s" "l_revoked m = None" "l_key m \<noteq> ''''"
    "l_kind m \<noteq> Trial" "s_status s = SubPaid" "s_cancelled s = None" "l_until m < t + MailBelowDays * secs_per_day"
    and e': "e = \<lparr>dk_token = l_rtoken m, dk_org = l_orgname m, dk_until = l_until m, dk_email = s_email s, dk_interval = s_interval s\<rparr>"
    unfolding expiring_row same by auto
  from st(1) m(1) obtain l where l: "l \<in> set (lics w)" "l_rtoken m = l_rtoken l" "m = l \<or> ent_of (l_rtoken l) w = Inr (l_until m)"
    unfolding still_def by blast
  have gain: "\<not> ent_of (l_rtoken m) w = Inr (l_until m)"
    using due by (auto simp: mail_due_def e' ent renewalProgress_def)
  with l(2,3) have ml: "m = l" by auto
  with t(2) l(1) m(8) have "l_until m < now w + MailBelowDays * secs_per_day" by fastforce
  with m l(1) ml e' have "e \<in> set (expiring (now w + MailBelowDays * secs_per_day) w)" unfolding expiring_row by blast
  with fin have "served E w e u" by blast
  with m(1) gain have "\<not> mail_due E (now w) w e" by (auto simp: served_def e')
  moreover from due t(1) have "mail_due E (now w) w e" unfolding mail_due_def ent by (meson le_less_trans)
  ultimately show False by simp
qed

text \<open>C30: the sweep makes progress. After a pass in which nothing failed, a later pass mails nobody and
  changes nothing, as long as no invoice was paid in between and no key came below the 35-day
  threshold that was above it before: what made the pass mail a key is settled by the
  pass itself.\<close>

theorem mail_sweep_settles:
  fixes w u :: "'z world_scheme"
  assumes "good_deployment E" "ledger_ok E w" "faults w = []"
    and "run_state (mailExpiringOnce E) w = (r, u)" "now w \<le> t"
    and "\<forall>l \<in> set (lics w). l_until l < now w + MailBelowDays * secs_per_day \<or> t + MailBelowDays * secs_per_day \<le> l_until l"
  shows "\<exists>r'. run_state (mailExpiringOnce E) (u\<lparr>now := t\<rparr>) = (r', u\<lparr>now := t\<rparr>)"
proof -
  let ?ds = "expiring (now w + MailBelowDays * secs_per_day) w"
  have tok: "distinct (map l_rtoken (lics w))" using assms(2) by (simp add: ledger_ok_def store_okD)
  have "still w w" using assms(3) by (auto simp: still_def)
  from mail_pass [OF assms(1) tok this, of ?ds] obtain rs x where x: "run_state (collect (mail_key E) ?ds) w = (rs, x)"
    "still w x" "\<forall>d \<in> set ?ds. served E w d x" by blast
  have "x = u" using assms(3,4) x(1) by (simp add: mailExpiringOnce_def run_simps)
  note x = x(2,3) [unfolded this]
  have f: "faults (u\<lparr>now := t\<rparr>) = []" using x(1) by (simp add: still_def)
  have "\<forall>e \<in> set (expiring (t + MailBelowDays * secs_per_day) (u\<lparr>now := t\<rparr>)). \<not> mail_due E (now (u\<lparr>now := t\<rparr>)) (u\<lparr>now := t\<rparr>) e"
    using not_due_again [OF x(1) tok x(2) assms(5,6)] by simp
  from mail_idle [OF assms(1) f this] f show ?thesis by (auto simp: mailExpiringOnce_def run_simps)
qed

definition key_world :: "string \<Rightarrow> world" where
  "key_world key = sample_world 0 [sample_sub SubPaid None] [sample_invoice InvPaid] [sample_licence Full key 0]"

lemma key_ledger: "\<exists>key. key \<noteq> '''' \<and> ledger_ok sample_deployment (key_world key)"
proof -
  let ?r = "ForLicence ''tok'' ''Acme'' ''a@acme'' ''month''"
  have "good_crypto (d_crypto sample_deployment) (d_issuer sample_deployment)" "Enabled (d_issuer sample_deployment)"
    using sample_good by (simp_all add: good_deployment_def sample_deployment_def Enabled_def toy_issuer_def)
  moreover have "rq_token ?r \<noteq> ''''" by (simp add: ForLicence_def)
  ultimately obtain key where k: "SignUntil (d_crypto sample_deployment) (d_issuer sample_deployment) 0 ?r 0 = Inr key"
    using SignUntil_total by metis
  have good: "key_good (d_crypto sample_deployment) (sample_licence Full key 0)"
    by (rule SignUntil_good(1) [OF _ k]) (use sample_good in \<open>simp_all add: good_deployment_def ForLicence_def sample_licence_def\<close>)
  have "covered [sample_sub SubPaid None] [sample_invoice InvPaid] (sample_licence Full key 0)"
    by (simp add: covered_def sample_defs plans_simps midnight_def pro_month_def)
  with good have "licence_good (d_crypto sample_deployment) [sample_sub SubPaid None] [sample_invoice InvPaid] (sample_licence Full key 0)"
    by (simp add: licence_good_def) (simp add: sample_defs)
  then have "ledger_ok sample_deployment (key_world key)"
    by (simp add: key_world_def sample_world_def ledger_ok_def store_ok_def) (simp add: sample_defs row_good_def plans_simps
        cycle_good_def seats_good_def orgs_of_list one_open_def invoice_good_def)
  with sign_nonempty [OF sample_good k] show ?thesis by blast
qed

lemma key_expiring:
  assumes "key \<noteq> ''''"
  shows "expiring (MailBelowDays * secs_per_day) (key_world key) =
    [\<lparr>dk_token = ''tok'', dk_org = ''Acme'', dk_until = 0, dk_email = ''a@acme'', dk_interval = ''month''\<rparr>]"
  using assms by (simp add: expiring_def joined_def key_world_def sample_defs find_sub_def MailBelowDays_def)

lemma key_limit: "ent_of ''tok'' (key_world key) = Inr (midnight 36)" "limit_of (sample_sub SubPaid None) (key_world key) = Inr (midnight 36)"
  by (simp_all add: ent_of_def key_world_def find_licence_def find_sub_def sample_defs limit_of_def paid_end_def invoices_of_def
      plans_simps live_def pro_month_def)

theorem mail_sweep_settles_witness:
  "\<exists>key r u r'. run_state (mailExpiringOnce sample_deployment) (key_world key) = (r, u) \<and> length (outbox u) = 1 \<and>
    run_state (mailExpiringOnce sample_deployment) (u\<lparr>now := secs_per_day\<rparr>) = (r', u\<lparr>now := secs_per_day\<rparr>)"
proof -
  obtain key where k: "key \<noteq> ''''" "ledger_ok sample_deployment (key_world key)" using key_ledger by blast
  have f: "faults (key_world key) = []" "now (key_world key) = 0" "outbox (key_world key) = []"
    by (simp_all add: key_world_def sample_world_def)
  let ?d = "\<lparr>dk_token = ''tok'', dk_org = ''Acme'', dk_until = 0, dk_email = ''a@acme'', dk_interval = ''month''\<rparr>"
  have "mail_due sample_deployment 0 (key_world key) ?d"
    by (simp add: mail_due_def key_limit midnight_def renewalProgress_def bad_line_def)
      (simp add: sample_deployment_def toy_issuer_def Enabled_def)
  then obtain until key' m where m: "run_state (mail_key sample_deployment ?d) (key_world key) =
      (MailSent, resigned ''tok'' key' until ((key_world key)\<lparr>outbox := [m]\<rparr>))"
    using run_mail_key [OF sample_good f(1), of ?d] f by auto
  then obtain r u where u: "run_state (mailExpiringOnce sample_deployment) (key_world key) = (r, u)" "length (outbox u) = 1"
    using f key_expiring [OF k(1)] by (simp add: mailExpiringOnce_def run_simps resigned_def update_licence_def)
  have "\<forall>l \<in> set (lics (key_world key)). l_until l < now (key_world key) + MailBelowDays * secs_per_day \<or>
      secs_per_day + MailBelowDays * secs_per_day \<le> l_until l"
    by (simp add: key_world_def sample_defs MailBelowDays_def)
  from mail_sweep_settles [OF sample_good k(2) f(1) u(1) _ this] f(2) u show ?thesis by fastforce
qed

section \<open>The endpoint\<close>

lemma seen_tables: "subs (update_licence tok f w) = subs w" "invs (update_licence tok f w) = invs w" "now (update_licence tok f w) = now w"
  "faults (update_licence tok f w) = faults w"
  by (simp_all add: update_licence_def)

lemma find_licence_update:
  assumes "find_licence tok w = Some l" "l_rtoken (f l) = l_rtoken l" "\<And>m. l_rtoken (f m) = l_rtoken m"
  shows "find_licence tok (update_licence tok f w) = Some (f l)"
  using assms(1) find_updated [of l_rtoken tok "lics w" l f] assms(3) by (simp add: find_licence_def update_licence_def)

lemma servable_row:
  assumes "servable tok w = Some (l, interval)"
  shows "\<exists>s. find_licence tok w = Some l \<and> find_sub (l_sub l) w = Some s \<and> l_revoked l = None \<and> l_key l \<noteq> '''' \<and> live s \<and>
    interval = s_interval s"
  using assms by (auto simp: servable_def live_def split: option.splits if_splits)

lemma servable_faults [simp]: "servable tok (w\<lparr>faults := t\<rparr>) = servable tok w"
  by (simp add: servable_def cong: option.case_cong)

text \<open>The world after the heartbeat.\<close>

definition seen :: "string \<Rightarrow> 'z world_scheme \<Rightarrow> 'z world_scheme" where
  "seen tok w = update_licence tok (\<lambda>l. l\<lparr>l_seen := Some (now w)\<rparr>) w"

lemma wp_GetLicense:
  fixes auth :: string
  defines "tok \<equiv> trim_prefix auth ''Bearer ''"
  assumes none: "Q BearerRequired w" "\<And>t. Q LicenceNotFound (w\<lparr>faults := t\<rparr>)"
    and old: "\<And>l s t r. find_licence tok w = Some l \<Longrightarrow> find_sub (l_sub l) w = Some s \<Longrightarrow> l_revoked l = None \<Longrightarrow> l_key l \<noteq> '''' \<Longrightarrow>
      live s \<Longrightarrow> r = LicenceNotFound \<or> r = KeyServed (l_key l) \<Longrightarrow> Q r ((seen tok w)\<lparr>faults := t\<rparr>)"
    and new: "\<And>l s t limit key. find_licence tok w = Some l \<Longrightarrow> find_sub (l_sub l) w = Some s \<Longrightarrow> l_revoked l = None \<Longrightarrow> l_key l \<noteq> '''' \<Longrightarrow>
      live s \<Longrightarrow> limit_of s w = Inr limit \<Longrightarrow> limit > now w \<Longrightarrow> limit > l_until l \<Longrightarrow>
      SignUntil (d_crypto E) (d_issuer E) (now w) (ForLicence tok (l_orgname l) '''' (s_interval s)) limit = Inr key \<Longrightarrow>
      Q (KeyServed key) (resigned tok key limit ((seen tok w)\<lparr>faults := t\<rparr>))"
  shows "wp (GetLicense E auth) Q w"
proof -
  have serve: "wp (serve_key E tok (now w) l interval) Q ((seen tok w)\<lparr>faults := t\<rparr>)"
    if "servable tok w = Some (l, interval)" for l interval t
  proof -
    from servable_row [OF that] obtain s where s: "find_licence tok w = Some l" "find_sub (l_sub l) w = Some s" "l_revoked l = None"
      "l_key l \<noteq> ''''" "live s" "interval = s_interval s" by blast
    have fl: "find_licence tok (seen tok w) = Some (l\<lparr>l_seen := Some (now w)\<rparr>)"
      unfolding seen_def by (rule find_licence_update [OF s(1)]) simp_all
    have fs: "find_sub sid (seen tok w) = find_sub sid w" "limit_of x (seen tok w) = limit_of x w" "now (seen tok w) = now w" for sid x
      by (simp_all add: seen_def find_sub_def limit_of_def paid_end_def invoices_of_def seen_tables)
    show ?thesis unfolding serve_key_def
    proof (intro wp_bind [THEN iffD2] wp_EntitlementByToken, goal_cases)
      case (1 t e)
      show ?case using old [OF s(1-5)] by (simp add: wp_return)
    next
      case (2 m s' t x)
      from 2 fl fs have "m = l\<lparr>l_seen := Some (now w)\<rparr>" "s' = s" "limit_of s w = Inr x" using s by auto
      then show ?case unfolding sum.case
        by (intro wp_intros) (auto simp: s(6) old [OF s(1-5)] resigned_def [symmetric] intro!: new [OF s(1-5)])
    qed
  qed
  show ?thesis unfolding GetLicense_def Let_def tok_def [symmetric]
  proof (intro wp_ifI wp_return [THEN iffD2] wp_bind [THEN iffD2] wp_gets [THEN iffD2] wp_returning, goal_cases)
    case (3 t x)
    obtain l interval where x: "x = (l, interval)" by fastforce
    have "servable tok w = Some (l, interval)" using 3(2) unfolding x by simp
    moreover have "update_licence tok (\<lambda>l. l\<lparr>l_seen := Some (now w)\<rparr>) (w\<lparr>faults := t\<rparr>) = (seen tok w)\<lparr>faults := t\<rparr>"
      by (simp add: seen_def update_licence_def)
    ultimately show ?case using serve unfolding x by simp
  qed (use none in \<open>simp_all add: wp_return\<close>)
qed

lemma ledger_ok_seen: "ledger_ok E w \<Longrightarrow> ledger_ok E (seen tok w)"
  by (simp add: ledger_ok_def seen_def update_licence_def) (rule store_ok_licence, auto dest: store_okD(9))

lemma limit_of_seen: "limit_of s (seen tok w) = limit_of s w" "find_sub sid (seen tok w) = find_sub sid w" "now (seen tok w) = now w"
  by (simp_all add: seen_def find_sub_def limit_of_def paid_end_def invoices_of_def seen_tables)

lemma seen_rest: "subs (seen tok w) = subs w" "invs (seen tok w) = invs w" "outbox (seen tok w) = outbox w"
  by (simp_all add: seen_def update_licence_def)

lemma find_licence_seen: "find_licence tok w = Some l \<Longrightarrow> find_licence tok (seen tok w) = Some (l\<lparr>l_seen := Some (now w)\<rparr>)"
  unfolding seen_def by (rule find_licence_update) simp_all

lemma find_licence_resigned:
  "find_licence tok w = Some l \<Longrightarrow> find_licence tok (resigned tok key e w) = Some (l\<lparr>l_key := key, l_until := e\<rparr>)"
  unfolding resigned_def by (rule find_licence_update) simp_all

lemma ledger_ok_reissue:
  assumes ok: "ledger_ok E w" "good_deployment E" and l: "find_licence tok w = Some l" "find_sub (l_sub l) w = Some s"
    and k: "limit_of s w = Inr until" "SignUntil (d_crypto E) (d_issuer E) (now w) (ForLicence tok (l_orgname l) '''' (s_interval s)) until = Inr key"
  shows "ledger_ok E (resigned tok key until ((seen tok w)\<lparr>faults := t\<rparr>))"
proof (rule ledger_ok_resigned [where l = "l\<lparr>l_seen := Some (now w)\<rparr>" and s = s and t = "now w"
      and r = "ForLicence tok (l_orgname l) '''' (s_interval s)"])
qed (use ok l k ledger_ok_seen find_licence_seen [OF l(1)] in \<open>simp_all add: limit_of_seen ForLicence_def\<close>)

lemma keeps_GetLicense: "good_deployment E \<Longrightarrow> keeps (ledger_ok E) (GetLicense E auth)"
proof (rule keepsI, rule wp_GetLicense, goal_cases)
  case (3 w l s t r)
  then show ?case using ledger_ok_seen by simp
next
  case (4 w l s t limit key)
  then show ?case using ledger_ok_reissue by blast
qed simp_all

text \<open>C31: what the renewal endpoint hands out. A request gets a key only with the renewal token of a
  licence that is not revoked, of a subscription that is paid and not cancelled. The key is
  then the one in the ledger for this licence: an instance reads it with this token, and it runs out
  no later than what was paid for (with the grace), or with the trial. Apart from the heartbeat and
  this key nothing is written.\<close>

theorem renewal_endpoint_safe:
  fixes w u :: "'z world_scheme"
  assumes "good_deployment E" "ledger_ok E w" "run_state (GetLicense E auth) w = (r, u)"
  shows "ledger_ok E u \<and> subs u = subs w \<and> invs u = invs w \<and> outbox u = outbox w \<and>
    (\<forall>key. r = KeyServed key \<longrightarrow> (\<exists>tok l s m. auth = ''Bearer '' @ tok \<and> find_licence tok w = Some l \<and> l_revoked l = None \<and>
       find_sub (l_sub l) w = Some s \<and> s_status s = SubPaid \<and> s_cancelled s = None \<and>
       find_licence tok u = Some m \<and> l_key m = key \<and> l_orgname m = l_orgname l \<and> key_good (d_crypto E) m \<and>
       (trial_span m \<or> covered (subs u) (invs u) m)))"
proof -
  let ?tok = "trim_prefix auth ''Bearer ''"
  let ?P = "\<lambda>r (u :: 'z world_scheme). subs u = subs w \<and> invs u = invs w \<and> outbox u = outbox w \<and> (\<forall>key. r = KeyServed key \<longrightarrow> (\<exists>l s m.
       find_licence ?tok w = Some l \<and> l_revoked l = None \<and>
       find_sub (l_sub l) w = Some s \<and> s_status s = SubPaid \<and> s_cancelled s = None \<and>
       find_licence ?tok u = Some m \<and> l_key m = key \<and> l_orgname m = l_orgname l \<and> key \<noteq> ''''))"
  have "wp (GetLicense E auth) ?P w"
  proof (rule wp_GetLicense, goal_cases)
    case (3 l s t r)
    then show ?case using find_licence_seen [OF 3(1)] by (auto simp: live_def seen_rest)
  next
    case (4 l s t limit key)
    have "find_licence ?tok ((seen ?tok w)\<lparr>faults := t\<rparr>) = Some (l\<lparr>l_seen := Some (now w)\<rparr>)" using find_licence_seen [OF 4(1)] by simp
    from find_licence_resigned [OF this, of key limit] 4 sign_nonempty [OF assms(1) 4(9)] show ?case
      by (auto simp: live_def resigned_def update_licence_def seen_rest)
  qed simp_all
  note post = wp_run [OF this assms(3)]
  have ok: "ledger_ok E u" using keepsD [OF keeps_GetLicense [OF assms(1)] assms(2), of auth] assms(3) by simp
  have good: "key_good (d_crypto E) m \<and> (trial_span m \<or> covered (subs u) (invs u) m)"
    if "find_licence tok u = Some m" "l_key m \<noteq> ''''" for tok m
    using ok find_licence_token [OF that(1)] that(2) by (auto simp: ledger_ok_def licence_good_def dest!: store_okD(9))
  have bearer: "auth = ''Bearer '' @ ?tok" if "r = KeyServed key" for key
  proof -
    have "?tok \<noteq> auth" using that assms(3) by (auto simp: GetLicense_def Let_def run_simps)
    then have "take (length ''Bearer '') auth = ''Bearer ''" "?tok = drop (length ''Bearer '') auth" by (auto simp: trim_prefix_def has_prefix_def split: if_splits)
    then show ?thesis by (metis append_take_drop_id)
  qed
  show ?thesis
  proof (intro conjI allI impI)
    fix key assume r: "r = KeyServed key"
    with post obtain l s m where "find_licence ?tok w = Some l" "l_revoked l = None"
       "find_sub (l_sub l) w = Some s" "s_status s = SubPaid" "s_cancelled s = None"
       "find_licence ?tok u = Some m" "l_key m = key" "l_orgname m = l_orgname l" "key \<noteq> ''''" by blast
    with good bearer [OF r] show "\<exists>tok l s m. auth = ''Bearer '' @ tok \<and> find_licence tok w = Some l \<and> l_revoked l = None \<and>
       find_sub (l_sub l) w = Some s \<and> s_status s = SubPaid \<and> s_cancelled s = None \<and>
       find_licence tok u = Some m \<and> l_key m = key \<and> l_orgname m = l_orgname l \<and> key_good (d_crypto E) m \<and>
       (trial_span m \<or> covered (subs u) (invs u) m)"
      by (intro exI [of _ ?tok] exI [of _ l] exI [of _ s] exI [of _ m]) simp
  qed (use ok post in simp_all)
qed

text \<open>Without a failure the reply is determined by the ledger.\<close>

lemma ent_of_seen: "find_licence tok w = Some l \<Longrightarrow> ent_of tok (seen tok w) = ent_of tok w"
  by (simp add: ent_of_def find_licence_seen limit_of_seen cong: option.case_cong if_cong)

lemma seen_faults: "faults (seen tok w) = faults w"
  by (simp add: seen_def update_licence_def)

lemma run_serve_key:
  assumes good: "good_deployment E" and f: "faults w = []" and s: "servable tok w = Some (l, interval)" and tok: "tok \<noteq> ''''"
    and e: "ent_of tok w = Inr limit" "limit > now w"
  shows "if Enabled (d_issuer E) \<and> l_until l - now w < RenewBelowDays * secs_per_day \<and> limit > l_until l
    then \<exists>key. key \<noteq> '''' \<and> run_state (serve_key E tok (now w) l interval) (seen tok w) = (KeyServed key, resigned tok key limit (seen tok w))
    else run_state (serve_key E tok (now w) l interval) (seen tok w) = (KeyServed (l_key l), seen tok w)"
proof -
  have l: "find_licence tok w = Some l" using servable_row [OF s] by blast
  have ent: "run_state (EntitlementByToken tok) (seen tok w) = (Inr limit, seen tok w)"
    using run_ent [of "seen tok w" tok] f e by (simp add: ent_of_seen [OF l] seen_faults)
  let ?r = "ForLicence tok (l_orgname l) '''' interval"
  have "rq_token ?r \<noteq> ''''" using tok by (simp add: ForLicence_def)
  then have "\<exists>key. SignUntil (d_crypto E) (d_issuer E) (now w) ?r limit = Inr key" if "Enabled (d_issuer E)"
    using that sign_time [OF good, of "now w" ?r limit] by (metis isl_def sum.exhaust_sel)
  then show ?thesis using ent f e sign_nonempty [OF good, of "now w" ?r limit]
    by (auto simp: serve_key_def run_simps resigned_def seen_faults)
qed

lemma run_GetLicense:
  assumes "faults w = []" "servable tok w = Some (l, interval)" "tok \<noteq> ''''"
  shows "run_state (GetLicense E (''Bearer '' @ tok)) w = run_state (serve_key E tok (now w) l interval) (seen tok w)"
  using assms trim_prefix_append [of "''Bearer ''" tok]
  by (simp add: GetLicense_def Let_def run_simps returning_def seen_def del: trim_prefix_append append_Cons)

lemma key_servable: "key \<noteq> '''' \<Longrightarrow> servable ''tok'' (key_world key) = Some (sample_licence Full key 0, ''month'')"
  by (simp add: servable_def find_licence_def find_sub_def key_world_def sample_defs)

lemma key_facts: "faults (key_world key) = []" "now (key_world key) = 0"
  "find_sub ''s1'' (key_world key) = Some (sample_sub SubPaid None)" "l_until (sample_licence Full key 0) = 0"
  "l_sub (sample_licence Full key 0) = ''s1''"
  by (simp_all add: key_world_def sample_defs find_sub_def sample_world_def)

lemma issuer_on: "Enabled (d_issuer sample_deployment)"
  by (simp add: sample_deployment_def) (simp add: toy_issuer_def Enabled_def)

theorem renewal_endpoint_safe_witness:
  "\<exists>key r u. ledger_ok sample_deployment u \<and> run_state (GetLicense sample_deployment (''Bearer '' @ ''tok'')) (key_world key) = (r, u) \<and>
    invs u = [sample_invoice InvPaid]"
proof -
  obtain key where k: "key \<noteq> ''''" "ledger_ok sample_deployment (key_world key)" using key_ledger by blast
  obtain r u where run: "run_state (GetLicense sample_deployment (''Bearer '' @ ''tok'')) (key_world key) = (r, u)" by fastforce
  from renewal_endpoint_safe [OF sample_good k(2) run] run show ?thesis by (auto simp: key_world_def sample_world_def)
qed

end
