(* ===== verification/Renewal.thy ===== *)
theory Renewal
  imports License_Instance Billing_Keys
begin

text \<open>
  Both ends of the automatic renewal together: an installation with its key and its loop
  (\<^verbatim>\<open>License_Instance\<close>), the billing instance with its ledger (\<^verbatim>\<open>Billing_Keys\<close>), and the HTTP exchange between
  them. The two processes share nothing but that exchange and the clock.
\<close>

section \<open>The exchange\<close>

text \<open>The installation reads at most 4096 bytes of the body \<^verbatim>\<open>{"key":"..."}\<close>; a longer one is
  cut and no longer JSON. A key has no character that JSON escapes.\<close>

definition body_limit :: nat where "body_limit = 4096"

fun answer :: "licence_reply \<Rightarrow> reply" where
  "answer BearerRequired = Reply 401 None"
| "answer LicenceNotFound = Reply 404 None"
| "answer (KeyServed key) = Reply 200 (if length key + 10 \<le> body_limit then Some key else None)"

text \<open>\<^verbatim>\<open>"Bearer "+r.currentToken()\<close>.\<close>

definition header :: "string \<Rightarrow> string" where
  "header tok = ''Bearer '' @ tok"

definition endpoint :: "deployment \<Rightarrow> 'z world_scheme \<Rightarrow> instant \<Rightarrow> string \<Rightarrow> reply" where
  "endpoint E w t tok = answer (fst (run_state (GetLicense E (header tok)) (w\<lparr>now := t\<rparr>)))"

text \<open>A check of the installation while the billing instance is reachable: what the installation is
  afterwards, and the ledger if it called.\<close>

definition joint_check :: "deployment \<Rightarrow> wiring \<Rightarrow> refresher \<Rightarrow> host \<times> 'z world_scheme \<Rightarrow> host \<times> 'z world_scheme" where
  "joint_check E W R = (\<lambda>(h, w).
     let h' = snd (run_state (check (d_crypto E) W R (endpoint E w)) h)
     in (h', if calls h' = calls h then w\<lparr>now := now h\<rparr>
             else snd (run_state (GetLicense E (header (snd (hd (calls h'))))) (w\<lparr>now := now h\<rparr>))))"

section \<open>One day inside the window\<close>

lemma key_good_parse:
  assumes "key_good C m"
  shows "\<exists>lic. parse C u (l_key m) = Inr lic \<and> l_key m \<noteq> '''' \<and> l_token lic = l_rtoken m \<and> l_expires lic = Some (l_until m) \<and>
    l_tier lic = ''pro'' \<and> l_features lic = ProTier \<and> l_expired lic = (l_until m < u)"
  using assms by (auto simp: key_good_def key_for_def)

lemma joint_called:
  assumes "License_Instance.is_due (instance_of h) (now h)" "bearer R h \<noteq> ''''"
  shows "joint_check E W R (h, w) =
    (snd (run_state (check (d_crypto E) W R (endpoint E w)) h), snd (run_state (GetLicense E (header (bearer R h))) (w\<lparr>now := now h\<rparr>)))"
proof -
  obtain h' where h': "run_state (check (d_crypto E) W R (endpoint E w)) h = ((), h')" by (cases "run_state (check (d_crypto E) W R (endpoint E w)) h") auto
  have "wp (check (d_crypto E) W R (endpoint E w)) (\<lambda>_ h'. calls h' = (now h, bearer R h) # calls h) h"
    by (intro wp_check wp_tryRefresh) (use assms in auto)
  from wp_run [OF this h'] show ?thesis by (simp add: joint_check_def h' Let_def)
qed

lemma other_licence:
  "x \<noteq> tok \<Longrightarrow> find_licence x (seen tok w) = find_licence x w" "x \<noteq> tok \<Longrightarrow> find_licence x (resigned tok key u w) = find_licence x w"
proof -
  have "find (\<lambda>l. l_rtoken l = x) (update_where (\<lambda>l. l_rtoken l = tok) f L) = find (\<lambda>l. l_rtoken l = x) L"
    if "x \<noteq> tok" "\<And>l. l_rtoken (f l) = l_rtoken l" for f :: "licence \<Rightarrow> licence" and L
    using that by (induction L) (auto simp: update_where_def)
  then show "x \<noteq> tok \<Longrightarrow> find_licence x (seen tok w) = find_licence x w" "x \<noteq> tok \<Longrightarrow> find_licence x (resigned tok key u w) = find_licence x w"
    by (simp_all add: find_licence_def seen_def resigned_def update_licence_def)
qed

text \<open>The reply of the endpoint, without a failure.\<close>

lemma endpoint_run:
  fixes w :: "'z world_scheme"
  assumes good: "good_deployment E" "ledger_ok E w" "faults w = []" "Enabled (d_issuer E)" "tok \<noteq> ''''"
    and s: "servable tok w = Some (l, interval)" "find_sub (l_sub l) w = Some s" "limit_of s w = Inr limit"
    and run: "run_state (GetLicense E (header tok)) w = (r, v)"
  shows "ledger_ok E v \<and> subs v = subs w \<and> invs v = invs w \<and> (\<forall>x. x \<noteq> tok \<longrightarrow> find_licence x v = find_licence x w) \<and>
    (if limit \<le> now w then r = LicenceNotFound \<and> find_licence tok v = Some (l\<lparr>l_seen := Some (now w)\<rparr>)
     else \<exists>m. r = KeyServed (l_key m) \<and> find_licence tok v = Some m \<and> key_good (d_crypto E) m \<and>
       l_until m = (if l_until l - now w < RenewBelowDays * secs_per_day \<and> limit > l_until l then limit else l_until l))"
proof -
  from servable_row [OF s(1)] s(2) have l: "find_licence tok w = Some l" "live s" "l_key l \<noteq> ''''" by auto
  have e: "ent_of tok w = Inr limit" using l s by (simp add: ent_of_def)
  note serve = run_GetLicense [OF good(3) s(1) good(5), of E, folded header_def, unfolded run]
  have ok: "ledger_ok E v" using keepsD [OF keeps_GetLicense [OF good(1)] good(2), of "header tok"] run by simp
  have km: "key_good (d_crypto E) m" if "find_licence tok v = Some m" "l_key m \<noteq> ''''" for m
    using ok that find_licence_token [OF that(1)] by (auto simp: ledger_ok_def licence_good_def dest!: store_okD(9))
  note seen = find_licence_seen [OF l(1)]
  show ?thesis
  proof (cases "limit \<le> now w")
    case True
    have "run_state (EntitlementByToken tok) (seen tok w) = (Inr limit, seen tok w)"
      using run_ent [of "seen tok w" tok] good(3) e by (simp add: ent_of_seen [OF l(1)] seen_faults)
    then have "(r, v) = (LicenceNotFound, seen tok w)" using True by (simp add: serve serve_key_def run_simps)
    then show ?thesis using True ok seen by (simp add: seen_rest other_licence)
  next
    case False
    then have "limit > now w" by simp
    from run_serve_key [OF good(1,3) s(1) good(5) e this, of, folded serve] good(4) obtain key where
      "if l_until l - now w < RenewBelowDays * secs_per_day \<and> limit > l_until l
       then key \<noteq> '''' \<and> (r, v) = (KeyServed key, resigned tok key limit (seen tok w))
       else (r, v) = (KeyServed (l_key l), seen tok w)" by (auto split: if_splits)
    then obtain m where m: "r = KeyServed (l_key m)" "find_licence tok v = Some m" "l_key m \<noteq> ''''"
      "l_until m = (if l_until l - now w < RenewBelowDays * secs_per_day \<and> limit > l_until l then limit else l_until l)"
      "v = seen tok w \<or> (\<exists>u key. v = resigned tok key u (seen tok w))"
      using that [of "l\<lparr>l_seen := Some (now w), l_key := key, l_until := limit\<rparr>"] that [of "l\<lparr>l_seen := Some (now w)\<rparr>"]
        seen find_licence_resigned [OF seen, of key limit] l(3) by (auto split: if_splits)
    from m(5) have "subs v = subs w \<and> invs v = invs w \<and> (\<forall>x. x \<noteq> tok \<longrightarrow> find_licence x v = find_licence x w)"
      by (auto simp: seen_rest other_licence) (auto simp: resigned_def update_licence_def seen_rest)
    then show ?thesis using False ok m km [OF m(2,3)] by auto
  qed
qed

text \<open>What a check makes of the reply.\<close>

lemma check_keeps:
  assumes "run_state (check C W R server) h = ((), h')" "License_Instance.is_due (instance_of h) (now h)" "bearer R h \<noteq> ''''"
    and "\<And>key l. server (now h) (bearer R h) = Reply 200 (Some key) \<Longrightarrow> parse C (now h) key = Inr l \<Longrightarrow> not_newer (instance_of h) l"
  shows "inst h' = inst h \<and> license_keys h' = license_keys h \<and> renewalFailing h'"
proof -
  have "wp (check C W R server) (\<lambda>_ h'. inst h' = inst h \<and> license_keys h' = license_keys h \<and> renewalFailing h') h"
    by (intro wp_check wp_tryRefresh) (use assms(2-4) in \<open>auto simp: offers_def\<close>)
  from wp_run [OF this assms(1)] show ?thesis by simp
qed

lemma check_installs:
  assumes "run_state (check C W R server) h = ((), h')" "License_Instance.is_due (instance_of h) (now h)" "bearer R h \<noteq> ''''"
    and "server (now h) (bearer R h) = Reply 200 (Some key)" "key \<noteq> ''''" "parse C (now h) key = Inr l" "\<not> not_newer (instance_of h) l"
  shows "inst h' = Some l \<and> \<not> renewalFailing h'"
proof -
  have o: "offers C R server h l key" using assms(4-7) by (simp add: offers_def)
  have "wp (check C W R server) (\<lambda>_ h'. inst h' = Some l \<and> \<not> renewalFailing h') h"
    by (intro wp_check wp_tryRefresh) (use assms(2-6) o in \<open>auto simp: offers_def\<close>)
  from wp_run [OF this assms(1)] show ?thesis by simp
qed

text \<open>C32: the renewal from one end to the other. An installation whose key carries the token of a
  servable licence and is inside its renewal window asks the billing instance. If the subscription's limit is
  over, the installation keeps the key it has, shows the warning, and no key is signed. If the
  customer has paid beyond today, the ledger holds for this licence a key that runs beyond today, and beyond the
  installation's key if the limit does; when that key is newer and fits the reply, the installation
  now runs on exactly this key, with the pro features, unexpired, without a warning, and with the same
  token for the next time. In all cases the ledger stays consistent and nothing but this licence row is written.\<close>

theorem renewal_end_to_end:
  fixes w w' :: "'z world_scheme"
  assumes "good_deployment E" "ledger_ok E w" "faults w = []" "Enabled (d_issuer E)" "now w = now h"
    and "inst h = Some lic" "l_token lic = tok" "tok \<noteq> ''''" "l_expires lic = Some e"
    and "4 * (e - now h) < e - l_issued lic" "e - now h < 30 * 86400"
    and "servable tok w = Some (l, interval)" "find_sub (l_sub l) w = Some s" "limit_of s w = Inr limit" "e \<le> l_until l"
    and "joint_check E W R (h, w) = (h', w')"
  shows "ledger_ok E w' \<and> subs w' = subs w \<and> invs w' = invs w \<and> (\<forall>x. x \<noteq> tok \<longrightarrow> find_licence x w' = find_licence x w) \<and>
    (if limit \<le> now h
     then inst h' = inst h \<and> license_keys h' = license_keys h \<and> renewalFailing h' \<and> find_licence tok w' = Some (l\<lparr>l_seen := Some (now h)\<rparr>)
     else \<exists>m. find_licence tok w' = Some m \<and> key_good (d_crypto E) m \<and> now h < l_until m \<and> (e < limit \<longrightarrow> e < l_until m) \<and>
       (if e < l_until m \<and> length (l_key m) \<le> 4086
        then \<exists>lic'. inst h' = Some lic' \<and> parse (d_crypto E) (now h) (l_key m) = Inr lic' \<and> l_token lic' = tok \<and>
          l_expires lic' = Some (l_until m) \<and> l_features lic' = ProTier \<and> \<not> l_expired lic' \<and> \<not> renewalFailing h'
        else inst h' = inst h \<and> license_keys h' = license_keys h \<and> renewalFailing h'))"
proof -
  have b: "bearer R h = tok" "License_Instance.is_due (instance_of h) (now h)" "instance_of h = lic"
    using assms(6-11) by (simp_all add: bearer_def instance_of_def License_Instance.is_due_def)
  obtain r v where g: "run_state (GetLicense E (header tok)) w = (r, v)" by fastforce
  have w: "w\<lparr>now := now h\<rparr> = w" using assms(5) by simp
  have j: "run_state (check (d_crypto E) W R (endpoint E w)) h = ((), h')" "w' = v"
    using joint_called [of h R E W w] b assms(8,16) g by (auto simp: w prod_eq_iff)
  have ep: "endpoint E w (now h) (bearer R h) = answer r" by (simp add: endpoint_def w g b)
  note keep = check_keeps [OF j(1) b(2)] and inst = check_installs [OF j(1) b(2)]
  have l: "find_licence tok w = Some l" "l_rtoken l = tok" "live s" using servable_row [OF assms(12)] assms(13) find_licence_token by auto
  note post = endpoint_run [OF assms(1-4,8,12-14) g]
  then have frame: "ledger_ok E w' \<and> subs w' = subs w \<and> invs w' = invs w \<and> (\<forall>x. x \<noteq> tok \<longrightarrow> find_licence x w' = find_licence x w)"
    using j(2) by simp
  show ?thesis
  proof (cases "limit \<le> now h")
    case True
    with post have "r = LicenceNotFound" using assms(5) by simp
    then have "inst h' = inst h \<and> license_keys h' = license_keys h \<and> renewalFailing h'"
      by (intro keep) (use ep b assms(8) in simp_all)
    then show ?thesis using post True assms(5) j(2) by simp
  next
    case False
    with post assms(5) obtain m where m: "r = KeyServed (l_key m)" "find_licence tok v = Some m" "key_good (d_crypto E) m"
      "l_until m = (if l_until l - now w < RenewBelowDays * secs_per_day \<and> limit > l_until l then limit else l_until l)" by auto
    have until: "now h < l_until m" "e < limit \<longrightarrow> e < l_until m"
      using m(4) False assms(5,11,15) by (auto simp: RenewBelowDays_def split: if_splits)
    from key_good_parse [OF m(3), of "now h"] obtain lic' where lic': "parse (d_crypto E) (now h) (l_key m) = Inr lic'" "l_key m \<noteq> ''''"
      "l_token lic' = tok" "l_expires lic' = Some (l_until m)" "l_features lic' = ProTier" "\<not> l_expired lic'"
      using until(1) find_licence_token [OF m(2)] by auto
    have "if e < l_until m \<and> length (l_key m) \<le> 4086 then inst h' = Some lic' \<and> \<not> renewalFailing h'
      else inst h' = inst h \<and> license_keys h' = license_keys h \<and> renewalFailing h'"
    proof (cases "e < l_until m \<and> length (l_key m) \<le> 4086")
      case True
      then show ?thesis using inst [of "l_key m" lic'] lic'(1,2,4) ep m(1) b assms(8,9)
        by (simp add: body_limit_def not_newer_def)
    next
      case False
      have "not_newer (instance_of h) l'"
        if "endpoint E w (now h) (bearer R h) = Reply 200 (Some key)" "parse (d_crypto E) (now h) key = Inr l'" for key l'
      proof -
        have "key = l_key m" "length (l_key m) \<le> 4086" using that(1) ep m(1) by (simp_all add: body_limit_def split: if_splits)
        then show ?thesis using that(2) lic'(1,4) False b(3) assms(9) by (simp add: not_newer_def)
      qed
      moreover have "bearer R h \<noteq> ''''" using b(1) assms(8) by simp
      ultimately have "inst h' = inst h \<and> license_keys h' = license_keys h \<and> renewalFailing h'" by (intro keep) blast+
      then show ?thesis using False by simp
    qed
    then have "\<exists>m. find_licence tok w' = Some m \<and> key_good (d_crypto E) m \<and> now h < l_until m \<and> (e < limit \<longrightarrow> e < l_until m) \<and>
       (if e < l_until m \<and> length (l_key m) \<le> 4086
        then \<exists>lic'. inst h' = Some lic' \<and> parse (d_crypto E) (now h) (l_key m) = Inr lic' \<and> l_token lic' = tok \<and>
          l_expires lic' = Some (l_until m) \<and> l_features lic' = ProTier \<and> \<not> l_expired lic' \<and> \<not> renewalFailing h'
        else inst h' = inst h \<and> license_keys h' = license_keys h \<and> renewalFailing h')"
      by (intro exI [of _ m]) (use j(2) m(2,3) until lic' in \<open>simp split: if_splits\<close>)
    with frame False show ?thesis by simp
  qed
qed

text \<open>A key that runs out today, of a customer who has paid for a month more.\<close>

definition old_key :: license where
  "old_key = \<lparr>l_tier = ''pro'', l_features = ProTier, l_org = ''Acme'', l_issued = - 2592000, l_expires = Some 0, l_demo = False,
     l_token = ''tok'', l_expired = False\<rparr>"

definition old_host :: host where "old_host = (sample_host 0 [])\<lparr>inst := Some old_key\<rparr>"

theorem renewal_end_to_end_witness:
  "\<exists>key h' w' m. joint_check sample_deployment wired armed (old_host, key_world key) = (h', w') \<and> ledger_ok sample_deployment w' \<and>
     find_licence ''tok'' w' = Some m \<and> 0 < l_until m \<and>
     (if length (l_key m) \<le> 4086 then (\<exists>lic. inst h' = Some lic \<and> l_expires lic = Some (l_until m) \<and> \<not> l_expired lic) else inst h' = Some old_key)"
proof -
  obtain key where k: "key \<noteq> ''''" "ledger_ok sample_deployment (key_world key)" using key_ledger by blast
  obtain h' w' where run: "joint_check sample_deployment wired armed (old_host, key_world key) = (h', w')" by fastforce
  have h: "inst old_host = Some old_key" "now old_host = 0" "l_token old_key = ''tok''" "''tok'' \<noteq> ''''" "l_expires old_key = Some 0" "l_issued old_key = - 2592000"
    by (simp_all add: old_host_def old_key_def sample_host_def)
  have late: "\<not> midnight 36 \<le> (0 :: int)" by (simp add: midnight_def)
  from renewal_end_to_end [OF sample_good k(2) key_facts(1) issuer_on _ h(1,3,4,5) _ _ key_servable [OF k(1)] _ key_limit(2) _ run] late
  obtain m where "ledger_ok sample_deployment w'" "find_licence ''tok'' w' = Some m" "0 < l_until m"
    "if 0 < l_until m \<and> length (l_key m) \<le> 4086
     then \<exists>lic'. inst h' = Some lic' \<and> parse (d_crypto sample_deployment) (now old_host) (l_key m) = Inr lic' \<and> l_token lic' = ''tok'' \<and>
       l_expires lic' = Some (l_until m) \<and> l_features lic' = ProTier \<and> \<not> l_expired lic' \<and> \<not> renewalFailing h'
     else inst h' = inst old_host \<and> license_keys h' = license_keys old_host \<and> renewalFailing h'"
    unfolding h(2,6) key_facts by auto
  with run h(1) show ?thesis by (intro exI [of _ key] exI [of _ h'] exI [of _ w'] exI [of _ m]) auto
qed

end
