(* ===== verification/Billing_Actions.thy ===== *)
theory Billing_Actions
  imports Billing_Keys
begin

text \<open>
  What the operator does by hand (\<^verbatim>\<open>internal/billing/lexware/actions.go\<close>, \<^verbatim>\<open>free.go\<close>):
  a rebate, a note, a reminder, a key sent again, and a free licence that becomes a paying
  subscription. As in the other theories an answer to the operator is a constructor with its
  values; the mails a customer gets are written out.
\<close>

section \<open>The rebate\<close>

datatype discount_refusal =
    RebateInvalid discount_error
  | RebateNoSub
  | RebateFree
  | RebateCancelled
  | RebateNoPlan
  | RebateNotStored

text \<open>The amount of the next invoice, the net and list amount beside a rebate, and from which invoice
  on it holds.\<close>

datatype discount_scope = RebateRemoved | OnApproval int | OnRenewal int

record discount_reply =
  dr_scope :: discount_scope
  dr_amount :: string
  dr_compare :: "(string \<times> string) option"

definition next_amount :: "client \<Rightarrow> charge \<Rightarrow> string \<Rightarrow> string" where
  "next_amount c ch country = (case InvoiceAmountsFor (cl_small c) (ch_net_cents ch) country False of
     Inl _ \<Rightarrow> fmtEUR (NetEUR ch)
   | Inr a \<Rightarrow> fmtEUR (of_int (ia_gross a) / 100))"

definition SetDiscount :: "deployment \<Rightarrow> string \<Rightarrow> int \<Rightarrow> ('z world_scheme, discount_refusal + discount_reply) state" where
  "SetDiscount E sid percent = (case ValidateDiscount percent of
     Some e \<Rightarrow> State_Monad.return (Inl (RebateInvalid e))
   | None \<Rightarrow> do {
       r \<leftarrow> row (find_sub sid);
       (case r of
          None \<Rightarrow> State_Monad.return (Inl RebateNoSub)
        | Some s \<Rightarrow>
            if s_free s then State_Monad.return (Inl RebateFree)
            else if s_cancelled s \<noteq> None then State_Monad.return (Inl RebateCancelled)
            else (case PlanFor (s_product s) (s_interval s) of
              None \<Rightarrow> State_Monad.return (Inl RebateNoPlan)
            | Some p \<Rightarrow>
                (case Charge p (s_quantity s) percent of
                   Inl e \<Rightarrow> State_Monad.return (Inl (RebateInvalid e))
                 | Inr ch \<Rightarrow> do {
                     ok \<leftarrow> exec (update_sub sid (\<lambda>s. s\<lparr>s_discount := percent\<rparr>));
                     State_Monad.return (if \<not> ok then Inl RebateNotStored
                       else Inr \<lparr>dr_scope = (if percent = 0 then RebateRemoved
                           else if s_status s = Requested then OnApproval percent else OnRenewal percent),
                         dr_amount = next_amount (d_client E) ch (s_country s),
                         dr_compare = (if Discounted ch then Some (fmtEUR (NetEUR ch), fmtEUR (ListEUR ch)) else None)\<rparr>) }))) })"

section \<open>Notes, reminders and keys sent again\<close>

definition SetNotes :: "string \<Rightarrow> string \<Rightarrow> ('z world_scheme, bool) state" where
  "SetNotes sid notes =
     (let notes = (if length notes > 5000 then take 5000 notes else notes)
      in exec (update_sub sid (\<lambda>s. s\<lparr>s_notes := notes\<rparr>)))"

datatype reminder_error = NoOpenInvoice | RemindedToday instant | ReminderNotSent

definition reminder_subject :: "string \<Rightarrow> string" where
  "reminder_subject company = ''Erinnerung: offene Rechnung f'' @ u_uuml @ ''r '' @ company"

definition reminder_text :: "instant \<Rightarrow> string \<Rightarrow> string" where
  "reminder_text created amount =
     ''Hallo,'' @ nl @ nl
     @ ''eine kurze Erinnerung: Die Rechnung vom '' @ fmt_german created @ '' '' @ u_uuml @ ''ber '' @ amount @ '' ist bei uns noch nicht als bezahlt'' @ nl
     @ ''eingegangen. Anbei noch einmal die Rechnung.'' @ nl @ nl
     @ ''Falls die '' @ u_Uuml @ ''berweisung schon unterwegs ist, betrachte diese Mail bitte als gegenstandslos '' @ u_dash @ nl
     @ ''Zahlungen brauchen ein paar Tage, bis sie bei uns ankommen.'' @ nl @ nl
     @ ''Dein Lizenzschl'' @ u_uuml @ ''ssel l'' @ u_auml @ ''uft weiter. Er wird nur nicht verl'' @ u_auml @ ''ngert, solange die Rechnung'' @ nl
     @ ''offen ist.'' @ nl @ nl
     @ ''Fragen? Antworte einfach auf diese Mail.'' @ nl @ nl
     @ ''Viele Gr'' @ u_uuml @ u_szlig @ ''e'' @ nl
     @ ''Stefan'' @ nl
     @ ''Norvik Ops'' @ nl"

text \<open>The open invoice with its subscription.\<close>

definition open_row :: "string \<Rightarrow> 'z world_scheme \<Rightarrow> (subscription \<times> invoice) option" where
  "open_row ref w = (case find_invoice ref w of
     None \<Rightarrow> None
   | Some i \<Rightarrow> if i_status i \<noteq> InvOpen then None
       else (case find_sub (i_sub i) w of None \<Rightarrow> None | Some s \<Rightarrow> Some (s, i)))"

definition SendReminder :: "deployment \<Rightarrow> string \<Rightarrow> ('z world_scheme, reminder_error option) state" where
  "SendReminder E ref = do {
     r \<leftarrow> row (open_row ref);
     t \<leftarrow> gets now;
     (case r of
        None \<Rightarrow> State_Monad.return (Some NoOpenInvoice)
      | Some (s, i) \<Rightarrow>
          if \<exists>x. i_reminded i = Some x \<and> t - x < 24 * 3600
          then State_Monad.return (Some (RemindedToday (the (i_reminded i))))
          else do {
            pdf \<leftarrow> InvoicePDF (d_client E) ref;
            sent \<leftarrow> Send (d_issuer E) (s_email s) (reminder_subject (s_company s))
              (reminder_text (i_created i) (fmtEUR (of_int (i_net i) / 100))) (pdf_or_nil pdf) ''Rechnung-Vakt.pdf'';
            (if \<not> sent then State_Monad.return (Some ReminderNotSent)
             else do {
               _ \<leftarrow> exec (update_invoice ref (\<lambda>i. i\<lparr>i_reminded := Some t\<rparr>));
               State_Monad.return None }) }) }"

datatype resend_error = NoSuchKey | ResendNotSent

definition resend_text :: "string \<Rightarrow> string \<Rightarrow> instant \<Rightarrow> string" where
  "resend_text org key until =
     ''Hallo,'' @ nl @ nl
     @ ''hier ist der Lizenzschl'' @ u_uuml @ ''ssel f'' @ u_uuml @ ''r '' @ org @ '' noch einmal '' @ u_dash @ '' es ist derselbe wie beim ersten Mal,'' @ nl
     @ ''es wurde nichts neu ausgestellt.'' @ nl @ nl
     @ ''  VAKT_LICENSE_KEY='' @ key @ nl @ nl
     @ ''G'' @ u_uuml @ ''ltig bis '' @ fmt_german until @ ''.'' @ nl @ nl
     @ ''So aktivierst du ihn:'' @ nl
     @ ''  1. In deiner Vakt-Instanz auf \"Einstellungen\" '' @ u_arrow @ '' \"Lizenz\"'' @ nl
     @ ''  2. Schl'' @ u_uuml @ ''ssel einf'' @ u_uuml @ ''gen, speichern '' @ u_dash @ '' fertig.'' @ nl @ nl
     @ ''Viele Gr'' @ u_uuml @ u_szlig @ ''e'' @ nl
     @ ''Stefan'' @ nl
     @ ''Norvik Ops'' @ nl"

definition key_row :: "string \<Rightarrow> 'z world_scheme \<Rightarrow> (licence \<times> subscription) option" where
  "key_row token w = (case find_licence token w of
     None \<Rightarrow> None
   | Some l \<Rightarrow> if l_key l = '''' then None
       else (case find_sub (l_sub l) w of None \<Rightarrow> None | Some s \<Rightarrow> Some (l, s)))"

definition ResendKey :: "deployment \<Rightarrow> string \<Rightarrow> string \<Rightarrow> ('z world_scheme, resend_error option) state" where
  "ResendKey E token sendTo = do {
     r \<leftarrow> row (key_row token);
     (case r of
        None \<Rightarrow> State_Monad.return (Some NoSuchKey)
      | Some (l, s) \<Rightarrow> do {
          let to = (if sendTo = '''' then s_email s else sendTo);
          sent \<leftarrow> Send (d_issuer E) to (''Dein Vakt-Lizenzschl'' @ u_uuml @ ''ssel'')
            (resend_text (l_orgname l) (l_key l) (l_until l)) '''' '''';
          State_Monad.return (if sent then None else Some ResendNotSent) }) }"

section \<open>From free to paying\<close>

record ConvertInput =
  cv_contact :: string
  cv_vat_id :: string
  cv_street :: string
  cv_zip :: string
  cv_city :: string
  cv_country :: string
  cv_discount :: int
  cv_now :: bool

datatype convert_error =
    ConvertNotConfigured
  | ConvertDiscount discount_error
  | ConvertNoSub
  | ConvertPaying
  | ConvertCancelled
  | ConvertNotIssued
  | ConvertNoAddress
  | ConvertNoPlan
  | ConvertNoContact
  | ConvertNotStored string
  | ConvertNotInvoiced string renew_result instant

datatype convert_reply = ConvertedLater string instant | ConvertedNow string instant

text \<open>\<open>renewOne\<close> returned an error.\<close>

fun renew_failed :: "renew_result \<Rightarrow> bool" where
  "renew_failed (RenewInvoiced ref sent) = False"
| "renew_failed FreeExtended = False"
| "renew_failed r = True"

definition coalesce_nonempty :: "string \<Rightarrow> string \<Rightarrow> string" where
  "coalesce_nonempty new old = (if new = '''' then old else new)"

definition converted :: "ConvertInput \<Rightarrow> string \<Rightarrow> string \<Rightarrow> instant \<Rightarrow> subscription \<Rightarrow> subscription" where
  "converted i country contactID due s = s\<lparr>s_free := False, s_contact := Some contactID, s_discount := cv_discount i,
     s_contact_name := coalesce_nonempty (cv_contact i) (s_contact_name s),
     s_vat_id := coalesce_nonempty (cv_vat_id i) (s_vat_id s),
     s_street := cv_street i, s_zip := cv_zip i, s_city := cv_city i, s_country := country, s_next := Some due\<rparr>"

text \<open>The subscription handed to \<open>renewOne\<close>, without country and VAT number.\<close>

definition due_now :: "subscription \<Rightarrow> ConvertInput \<Rightarrow> string \<Rightarrow> instant \<Rightarrow> dueSubscription" where
  "due_now s i contactID t = \<lparr>du_id = s_id s, du_company = s_company s, du_email = s_email s, du_product = s_product s,
     du_interval = s_interval s, du_quantity = s_quantity s, du_discount = cv_discount i, du_free = False,
     du_contact = contactID, du_end = t, du_country = '''', du_vat_id = ''''\<rparr>"

definition convert_booked :: "deployment \<Rightarrow> subscription \<Rightarrow> ConvertInput \<Rightarrow> plan \<Rightarrow> string \<Rightarrow> int
    \<Rightarrow> ('z world_scheme, convert_error + convert_reply) state" where
  "convert_booked E s i p contactID fin =
     (case Charge p (s_quantity s) (cv_discount i) of
        Inl e \<Rightarrow> State_Monad.return (Inl (ConvertDiscount e))
      | Inr ch \<Rightarrow>
          if \<not> cv_now i then State_Monad.return (Inr (ConvertedLater (fmtEUR (NetEUR ch)) (midnight fin)))
          else do {
            t \<leftarrow> gets now;
            x \<leftarrow> renewOne E (due_now s i contactID t);
            State_Monad.return (if renew_failed x then Inl (ConvertNotInvoiced contactID x (midnight fin))
              else Inr (ConvertedNow (fmtEUR (NetEUR ch)) (midnight fin))) })"

definition ConvertToPaid :: "deployment \<Rightarrow> string \<Rightarrow> ConvertInput \<Rightarrow> ('z world_scheme, convert_error + convert_reply) state" where
  "ConvertToPaid E sid i =
     (if \<not> client_enabled (d_client E) then State_Monad.return (Inl ConvertNotConfigured)
      else (case ValidateDiscount (cv_discount i) of
        Some e \<Rightarrow> State_Monad.return (Inl (ConvertDiscount e))
      | None \<Rightarrow> do {
          r \<leftarrow> row (\<lambda>w. map_option (\<lambda>s. (s, paid_end sid w)) (find_sub sid w));
          (case r of
             None \<Rightarrow> State_Monad.return (Inl ConvertNoSub)
           | Some (s, end) \<Rightarrow>
               if \<not> s_free s then State_Monad.return (Inl ConvertPaying)
               else if s_cancelled s \<noteq> None then State_Monad.return (Inl ConvertCancelled)
               else (case end of
                 None \<Rightarrow> State_Monad.return (Inl ConvertNotIssued)
               | Some fin \<Rightarrow>
                   if s_status s \<noteq> SubPaid then State_Monad.return (Inl ConvertNotIssued)
                   else if cv_street i = '''' \<or> cv_zip i = '''' \<or> cv_city i = '''' then State_Monad.return (Inl ConvertNoAddress)
                   else
                     (let country = (if cv_country i = '''' then ''DE'' else cv_country i) in
                      case PlanFor (s_product s) (s_interval s) of
                        None \<Rightarrow> State_Monad.return (Inl ConvertNoPlan)
                      | Some p \<Rightarrow> do {
                          c \<leftarrow> CreateContact (d_client E) \<lparr>ci_company = s_company s, ci_vat_id = cv_vat_id i,
                            ci_contact = cv_contact i, ci_email = s_email s, ci_street = cv_street i, ci_zip = cv_zip i,
                            ci_city = cv_city i, ci_country = country\<rparr>;
                          (case c of
                             None \<Rightarrow> State_Monad.return (Inl ConvertNoContact)
                           | Some contactID \<Rightarrow> do {
                               ok \<leftarrow> exec (update_sub sid (converted i country contactID (NextInvoiceAt p (midnight fin))));
                               (if \<not> ok then State_Monad.return (Inl (ConvertNotStored contactID))
                                else convert_booked E s i p contactID fin) }) }))) }))"

section \<open>Walking them\<close>

lemma keeps_SetDiscount: "keeps (ledger_ok E) (SetDiscount D sid percent)"
proof (cases "ValidateDiscount percent")
  case None
  then have d: "0 \<le> percent" "percent \<le> 90" by (simp_all add: ValidateDiscount_None)
  show ?thesis
  proof (rule keepsI)
    fix w assume ok: "ledger_ok E w"
    have "ledger_ok E (update_sub sid (\<lambda>s. s\<lparr>s_discount := percent\<rparr>) w)"
      by (rule ledger_ok_sub_field [OF ok]) (simp add: same_sub_def d)
    then show "wp (SetDiscount D sid percent) (\<lambda>_. ledger_ok E) w" unfolding SetDiscount_def None option.case
      by (intro wp_intros) (use ok in \<open>simp_all add: update_sub_def ledger_ok_def\<close>)
  qed
qed (simp add: SetDiscount_def keeps_return)

lemma keeps_SetNotes: "keeps (ledger_ok E) (SetNotes sid notes)"
proof (rule keepsI)
  fix w assume ok: "ledger_ok E w"
  have "ledger_ok E (update_sub sid (\<lambda>s. s\<lparr>s_notes := n\<rparr>) w)" for n
    by (rule ledger_ok_sub_field [OF ok]) (simp add: same_sub_def)
  then show "wp (SetNotes sid notes) (\<lambda>_. ledger_ok E) w" unfolding SetNotes_def Let_def
    by (intro wp_intros) (use ok in \<open>simp_all add: update_sub_def ledger_ok_def\<close>)
qed

lemma keeps_SendReminder: "keeps (ledger_ok E) (SendReminder D ref)"
proof (rule keepsI)
  fix w assume ok: "ledger_ok E w"
  have "ledger_ok E (update_invoice ref (\<lambda>i. i\<lparr>i_reminded := t\<rparr>) w)" for t
    by (rule ledger_ok_update_invoice [OF ok])
      (use ok in \<open>auto simp: same_invoice_def ledger_ok_def invoice_good_def dest!: store_okD(8)\<close>)
  then show "wp (SendReminder D ref) (\<lambda>_. ledger_ok E) w" unfolding SendReminder_def
    by (intro wp_intros wp_Send) (use ok in \<open>simp_all add: update_invoice_def ledger_ok_def\<close>)
qed

lemma keeps_ResendKey: "keeps (ledger_ok E) (ResendKey D token to)"
proof (rule keepsI)
  fix w assume ok: "ledger_ok E w"
  then show "wp (ResendKey D token to) (\<lambda>_. ledger_ok E) w" unfolding ResendKey_def Let_def
    by (intro wp_intros wp_Send) simp_all
qed

text \<open>Of the subscription a renewal changes only the next date; success means an invoice.\<close>

lemma renew_shape:
  "wp (renewOne E d) (\<lambda>x u. (\<not> renew_failed x \<longrightarrow> length (invs u) = Suc (length (invs w))) \<and>
     (subs u = subs w \<or> (\<exists>n. subs u = update_where (\<lambda>s. s_id s = du_id d) (\<lambda>s. s\<lparr>s_next := n\<rparr>) (subs w))) \<and>
     (invs u = invs w \<or> (\<exists>j. i_sub j = du_id d \<and> invs u = invs w @ [j]))) w"
  unfolding renewOne_def renewFree_def renew_invoiced_def case_prod_beta Let_def
  by (intro wp_intros wp_Send wp_CreateInvoice)
    (auto simp: update_sub_def outside_tables wp_return free_invoice_def invoice_row_def)

lemma wp_ConvertToPaid:
  fixes w :: "'z world_scheme"
  assumes refuse: "\<And>e u. tab w u \<Longrightarrow> \<forall>x y z. e \<noteq> ConvertNotInvoiced x y z \<Longrightarrow> Q (Inl e) u"
    and booked: "\<And>s p fin contact country u. find_sub sid w = Some s \<Longrightarrow> live s \<Longrightarrow> s_free s \<Longrightarrow> paid_end sid w = Some fin \<Longrightarrow>
      PlanFor (s_product s) (s_interval s) = Some p \<Longrightarrow> ValidateDiscount (cv_discount i) = None \<Longrightarrow>
      tab (update_sub sid (converted i country contact (NextInvoiceAt p (midnight fin))) w) u \<Longrightarrow>
      wp (convert_booked E s i p contact fin) Q u"
  shows "wp (ConvertToPaid E sid i) Q w"
proof -
  have idle: "Q (Inl e) w" "Q (Inl e) (w\<lparr>faults := t\<rparr>)" if "\<forall>x y z. e \<noteq> ConvertNotInvoiced x y z" for e t
    using refuse [OF _ that] by simp_all
  have tab: "tab w u" "tab (update_sub sid f w) (update_sub sid f (u\<lparr>faults := t'\<rparr>))"
    if "outside (w\<lparr>faults := t\<rparr>) u" "lx_invoices u = lx_invoices w" for u f t t'
    using outside_tables [OF that(1)] that(2) by (simp_all add: tab_def update_sub_def)
  show ?thesis unfolding ConvertToPaid_def Let_def
    by (intro wp_intros wp_CreateContact) (auto simp: idle tab(1) live_def intro!: refuse booked tab(2))
qed

lemma find_sub_update:
  assumes "find_sub sid w = Some s" "\<And>s. s_id (f s) = s_id s"
  shows "find_sub sid (update_sub sid f w) = Some (f s)"
  using find_updated [of s_id sid "subs w" s f] assms by (simp add: find_sub_def update_sub_def)

lemma converted_simps [simp]:
  "s_id (converted i c k n s) = s_id s" "s_status (converted i c k n s) = s_status s"
  "s_cancelled (converted i c k n s) = s_cancelled s" "s_product (converted i c k n s) = s_product s"
  "s_interval (converted i c k n s) = s_interval s" "s_company (converted i c k n s) = s_company s"
  "s_quantity (converted i c k n s) = s_quantity s" "s_free (converted i c k n s) = False"
  "s_contact (converted i c k n s) = Some k" "s_next (converted i c k n s) = Some n"
  "s_discount (converted i c k n s) = cv_discount i" "s_portal_hash (converted i c k n s) = s_portal_hash s"
  "same_sub s (converted i c k n s)"
  by (simp_all add: converted_def same_sub_def)

lemma ledger_ok_converted:
  assumes ok: "ledger_ok E w" and s: "find_sub sid w = Some s" "live s" "s_free s" and d: "ValidateDiscount (cv_discount i) = None"
  shows "ledger_ok E (update_sub sid (converted i c k n) w)"
proof (rule ledger_ok_update_sub [OF ok])
  fix x assume x: "x \<in> set (subs w)" "s_id x = sid"
  have "x = s"
    using distinct_key [OF _ x(1), of s_id s] find_sub_id [OF s(1)] ok x(2) by (auto simp: ledger_ok_def store_okD)
  moreover have "row_good s" "cycle_good (invs w) s" using ok x(1) \<open>x = s\<close> by (simp_all add: ledger_ok_def store_okD)
  ultimately show "same_sub x (converted i c k n x) \<and> row_good (converted i c k n x) \<and>
      cycle_good (invs w) (converted i c k n x) \<and> (s_status (converted i c k n x) \<noteq> SubPaid \<longrightarrow> s_status x \<noteq> SubPaid)"
    using s(2,3) d by (simp add: row_good_def cycle_good_def live_def ValidateDiscount_None)
qed

lemma no_open_free: "ledger_ok E w \<Longrightarrow> find_sub sid w = Some s \<Longrightarrow> s_free s \<Longrightarrow> \<not> has_open sid w"
  using find_sub_id [of sid w s]
  by (auto simp: ledger_ok_def has_open_def invoices_of_def list_ex_iff cycle_good_def dest!: store_okD(6))

lemma paid_end_open:
  "invs u = invs w @ new \<Longrightarrow> \<forall>j \<in> set new. i_status j = InvOpen \<Longrightarrow> paid_end sid u = paid_end sid w"
  by (simp add: paid_end_def invoices_of_def filter_empty_conv)

text \<open>After the conversion is stored. \<open>in_place w sid s s' u\<close>: the subscription of before, as it is now.\<close>

definition in_place :: "'z world_scheme \<Rightarrow> string \<Rightarrow> subscription \<Rightarrow> subscription \<Rightarrow> 'z world_scheme \<Rightarrow> bool" where
  "in_place w sid s s' u \<longleftrightarrow> find_sub sid u = Some s' \<and> \<not> s_free s' \<and> live s' \<and> same_sub s s' \<and>
     s_portal_hash s' = s_portal_hash s \<and> limit_of s' u = limit_of s w"

definition paper_open :: "instant \<Rightarrow> subscription \<Rightarrow> plan \<Rightarrow> int \<Rightarrow> (string \<times> invoiceRequest) list \<Rightarrow> invoice \<Rightarrow> bool" where
  "paper_open t s p percent ks j \<longleftrightarrow> i_sub j = s_id s \<and> i_status j = InvOpen \<and> i_start j = day_of t \<and>
     (\<exists>ch q. Charge p (s_quantity s) percent = Inr ch \<and> i_net j = ch_net_cents ch \<and>
        (i_ref j, q) \<in> set ks \<and> 100 * paper_net q = of_int (i_net j))"

lemma in_placeI:
  assumes s: "find_sub sid w = Some s" "live s" and f: "find_sub sid v = Some (converted i c k n s)"
    and u: "subs u = subs v \<or> (\<exists>m. subs u = update_where (\<lambda>s. s_id s = sid) (\<lambda>s. s\<lparr>s_next := m\<rparr>) (subs v))"
    and e: "paid_end sid u = paid_end sid w"
  shows "\<exists>s'. in_place w sid s s' u \<and> (subs u = subs v \<longrightarrow> s_next s' = Some n)"
proof -
  have id: "s_id s = sid" using find_sub_id [OF s(1)] by simp
  have in': "in_place w sid s s' u"
    if "find_sub sid u = Some s'" "s' = converted i c k n s \<or> (\<exists>m. s' = (converted i c k n s)\<lparr>s_next := m\<rparr>)" for s'
    using that s(2) e id by (auto simp: in_place_def live_def limit_of_def same_sub_def cong: option.case_cong)
  show ?thesis
  proof (cases "subs u = subs v")
    case True
    then have "find_sub sid u = Some (converted i c k n s)" using f by (simp add: find_sub_def)
    with in' show ?thesis by (intro exI [of _ "converted i c k n s"]) simp
  next
    case False
    with u obtain m where "subs u = subs (update_sub sid (\<lambda>s. s\<lparr>s_next := m\<rparr>) v)" by (auto simp: update_sub_def)
    then have "find_sub sid u = Some ((converted i c k n s)\<lparr>s_next := m\<rparr>)"
      using find_sub_update [OF f, of "\<lambda>s. s\<lparr>s_next := m\<rparr>"] by (simp add: find_sub_def)
    with in' False show ?thesis by blast
  qed
qed

lemma renew_now:
  fixes v u :: "'z world_scheme"
  assumes s: "find_sub sid w = Some s" "PlanFor (s_product s) (s_interval s) = Some p"
    and sw: "sweep [due_now s i contact t] v u"
  shows "lics u = lics v \<and> (\<forall>x. x \<noteq> sid \<longrightarrow> find_sub x u = find_sub x v) \<and>
    (\<exists>ks new. lx_invoices u = lx_invoices v @ ks \<and> invs u = invs v @ new \<and> length ks \<le> 1 \<and> length new \<le> 1 \<and>
      (\<forall>j \<in> set new. paper_open t s p (cv_discount i) ks j))"
proof -
  let ?d = "due_now s i contact t"
  have d: "du_id ?d = sid" "du_free ?d = False" "s_id s = sid" using find_sub_id [OF s(1)] by (simp_all add: due_now_def)
  from sw obtain ks new where n: "lx_invoices u = lx_invoices v @ ks" "invs u = invs v @ new" "length ks \<le> 1"
    "distinct (map i_sub new)" "\<And>j. j \<in> set new \<Longrightarrow> renewal_of ?d j ks" unfolding sweep_def by (auto simp: d)
  have p: "paper_open t s p (cv_discount i) ks j" if "j \<in> set new" for j
    using n(5) [OF that] s(2) d by (auto simp: renewal_of_def paper_open_def due_now_def Period_def)
  have "length new \<le> 1"
  proof -
    have "set (map i_sub new) \<subseteq> {s_id s}" using p by (auto simp: paper_open_def)
    then have "card (set (map i_sub new)) \<le> 1" using card_mono [of "{s_id s}"] by simp
    then show ?thesis using distinct_card [OF n(4)] by simp
  qed
  with n p sw show ?thesis by (auto simp: sweep_def d)
qed

lemma wp_convert_booked:
  fixes w v :: "'z world_scheme"
  assumes ok: "ledger_ok E w" and s: "find_sub sid w = Some s" "live s" "s_free s" "PlanFor (s_product s) (s_interval s) = Some p"
    and d: "ValidateDiscount (cv_discount i) = None" and v: "tab (update_sub sid (converted i country contact n) w) v"
  shows "wp (convert_booked E s i p contact fin) (\<lambda>r u. ledger_ok E u \<and> lics u = lics w \<and>
    (\<forall>x. x \<noteq> sid \<longrightarrow> find_sub x u = find_sub x w) \<and> (\<exists>s'. in_place w sid s s' u \<and>
      (if \<not> cv_now i then invs u = invs w \<and> lx_invoices u = lx_invoices w \<and> s_next s' = Some n
       else \<exists>ks new. lx_invoices u = lx_invoices w @ ks \<and> invs u = invs w @ new \<and> length ks \<le> 1 \<and> length new \<le> 1 \<and>
         ((\<exists>a e. r = Inr (ConvertedNow a e)) \<longrightarrow> new \<noteq> []) \<and> (\<forall>j \<in> set new. paper_open (now w) s p (cv_discount i) ks j)))) v"
    (is "wp _ ?Q v")
proof -
  let ?g = "converted i country contact n"
  note t = tabD [OF v, simplified update_sub_def, simplified]
  have okv: "ledger_ok E v"
    using ledger_ok_converted [OF ok s(1-3) d, of country contact n] ledger_ok_tab [OF v] by simp
  have fv: "find_sub sid v = Some (?g s)"
    using find_sub_update [OF s(1), of ?g] find_sub_tab [OF v] by simp
  have fx: "find_sub x v = find_sub x w" if "x \<noteq> sid" for x
    using find_sub_other [of ?g x sid "subs w"] that t(1) by (simp add: find_sub_def)
  have id: "s_id s = sid" using find_sub_id [OF s(1)] by simp
  obtain ch where ch: "Charge p (s_quantity s) (cv_discount i) = Inr ch"
    using d by (simp add: Charge_def Let_def)
  show ?thesis
  proof (cases "cv_now i")
    case False
    have "\<exists>s'. in_place w sid s s' v \<and> (subs v = subs v \<longrightarrow> s_next s' = Some n)"
      by (rule in_placeI [OF s(1,2) fv]) (simp_all add: paid_end_def invoices_of_def t)
    then show ?thesis using False ch t fx okv by (simp add: convert_booked_def wp_return)
  next
    case True
    let ?d = "due_now s i contact (now v)"
    have "has_open sid v = has_open sid w" by (simp add: has_open_def invoices_of_def t)
    then have "renewable ?d v" using fv s(2) no_open_free [OF ok s(1,3)] id
      by (simp add: renewable_def due_now_def live_def)
    note both = wp_conj [OF wp_renewOne [OF okv this] renew_shape [of E ?d v]]
    have fin: "?Q (if renew_failed x then Inl (ConvertNotInvoiced contact x (midnight fin))
        else Inr (ConvertedNow (fmtEUR (NetEUR ch)) (midnight fin))) u"
      if u: "ledger_ok E u" "sweep [?d] v u" "\<not> renew_failed x \<longrightarrow> length (invs u) = Suc (length (invs v))"
        "subs u = subs v \<or> (\<exists>n. subs u = update_where (\<lambda>s. s_id s = du_id ?d) (\<lambda>s. s\<lparr>s_next := n\<rparr>) (subs v))"
      for x and u :: "'z world_scheme"
    proof -
      from renew_now [OF s(1,4) u(2)] obtain ks new where n: "lics u = lics w" "\<forall>x. x \<noteq> sid \<longrightarrow> find_sub x u = find_sub x w"
        "lx_invoices u = lx_invoices w @ ks" "invs u = invs w @ new" "length ks \<le> 1" "length new \<le> 1"
        "\<forall>j \<in> set new. paper_open (now w) s p (cv_discount i) ks j" using t fx by auto
      have "paid_end sid u = paid_end sid w" by (rule paid_end_open [OF n(4)]) (use n(7) in \<open>simp add: paper_open_def\<close>)
      with in_placeI [OF s(1,2) fv] u(4) id obtain s' where "in_place w sid s s' u" by (auto simp: due_now_def)
      moreover have "\<not> renew_failed x \<longrightarrow> new \<noteq> []" using u(3) n(4) t by auto
      ultimately show ?thesis using n u(1) True by auto
    qed
    have "wp (renewOne E ?d) (\<lambda>x. ?Q (if renew_failed x then Inl (ConvertNotInvoiced contact x (midnight fin))
        else Inr (ConvertedNow (fmtEUR (NetEUR ch)) (midnight fin)))) v"
      by (rule wp_mono [OF both], rule fin) (elim conjE, assumption)+
    then show ?thesis
      by (simp only: convert_booked_def ch sum.case True not_True_eq_False if_False wp_bind wp_gets wp_return_fun)
  qed
qed

text \<open>C33: a free licence becomes a paying subscription in place. Whatever the conversion reports, no
  licence, key or renewal token is touched, nobody else's subscription changes, and the ledger stays
  consistent. If it reports an error before the subscription is stored, no table has changed
  and no invoice exists. Otherwise the same subscription is now a paying one of the same plan, seats and portal
  link, and its entitlement is what was given before. Without \<^verbatim>\<open>InvoiceNow\<close> no invoice is raised and
  the next one is due at the end of the period given; with it at most one is raised, for the
  price of the plan, on paper for the same amount, for a period that starts today; it exists if success is
  reported.\<close>

theorem convert_safe:
  fixes w u :: "'z world_scheme"
  assumes "ledger_ok E w" "run_state (ConvertToPaid E sid i) w = (r, u)"
  shows "ledger_ok E u \<and> lics u = lics w \<and> (\<forall>x. x \<noteq> sid \<longrightarrow> find_sub x u = find_sub x w) \<and>
    ((\<exists>e. r = Inl e \<and> subs u = subs w \<and> invs u = invs w \<and> lx_invoices u = lx_invoices w) \<or>
     (\<exists>s s' fin p. find_sub sid w = Some s \<and> live s \<and> s_free s \<and> paid_end sid w = Some fin \<and>
        PlanFor (s_product s) (s_interval s) = Some p \<and>
        find_sub sid u = Some s' \<and> \<not> s_free s' \<and> live s' \<and> same_sub s s' \<and> s_portal_hash s' = s_portal_hash s \<and>
        limit_of s' u = limit_of s w \<and>
        (if \<not> cv_now i
         then invs u = invs w \<and> lx_invoices u = lx_invoices w \<and> s_next s' = Some (NextInvoiceAt p (midnight fin))
         else \<exists>ks new. lx_invoices u = lx_invoices w @ ks \<and> invs u = invs w @ new \<and> length ks \<le> 1 \<and> length new \<le> 1 \<and>
           ((\<exists>a e. r = Inr (ConvertedNow a e)) \<longrightarrow> new \<noteq> []) \<and>
           (\<forall>j \<in> set new. i_sub j = sid \<and> i_status j = InvOpen \<and> i_start j = day_of (now w) \<and>
              (\<exists>ch q. Charge p (s_quantity s) (cv_discount i) = Inr ch \<and> i_net j = ch_net_cents ch \<and>
                 (i_ref j, q) \<in> set ks \<and> 100 * paper_net q = of_int (i_net j))))))"
    (is "?Q r u")
proof -
  have "wp (ConvertToPaid E sid i) ?Q w"
  proof (rule wp_ConvertToPaid)
    show "?Q (Inl e) u" if "tab w u" for e u
      using that assms(1) ledger_ok_tab [OF that] tabD [OF that] by (simp add: find_sub_def)
    fix s p fin contact country and v :: "'z world_scheme"
    assume s: "find_sub sid w = Some s" "live s" "s_free s" "paid_end sid w = Some fin" "PlanFor (s_product s) (s_interval s) = Some p"
      "ValidateDiscount (cv_discount i) = None"
      and v: "tab (update_sub sid (converted i country contact (NextInvoiceAt p (midnight fin))) w) v"
    have id: "s_id s = sid" using find_sub_id [OF s(1)] by simp
    show "wp (convert_booked E s i p contact fin) ?Q v"
      by (rule wp_mono [OF wp_convert_booked [OF assms(1) s(1-3,5,6) v, where fin = fin]], unfold in_place_def paper_open_def id)
        (use s in blast)
  qed
  from wp_run [OF this assms(2)] show ?thesis .
qed

section \<open>An example\<close>

definition free_sub :: subscription where
  "free_sub = (sample_sub SubPaid None)\<lparr>s_free := True, s_contact := None\<rparr>"

definition convert_world :: world where
  "convert_world = sample_world 0 [free_sub] [(sample_invoice InvPaid)\<lparr>i_net := 0, i_gross := 0\<rparr>] []"

definition convert_input :: ConvertInput where
  "convert_input = \<lparr>cv_contact = ''Ada'', cv_vat_id = '''', cv_street = ''Weg 1'', cv_zip = ''10115'', cv_city = ''Berlin'',
     cv_country = '''', cv_discount = 0, cv_now = True\<rparr>"

lemma convert_ledger: "ledger_ok E convert_world"
  by (simp add: convert_world_def free_sub_def ledger_eval)

lemma convert_run: "\<exists>a u. run_state (ConvertToPaid sample_deployment ''s1'' convert_input) convert_world = (Inr (ConvertedNow a (midnight 31)), u)"
proof -
  let ?E = sample_deployment and ?w = convert_world
  let ?d = "due_now free_sub convert_input ''RE7'' 0"
  let ?ch = "\<lparr>ch_quantity = 2, ch_percent = 0, ch_list_cents = 59800, ch_discount_cents = 0, ch_net_cents = 59800\<rparr>"
  let ?a = "\<lparr>ia_net = 59800, ia_tax = 0, ia_gross = 59800, ia_type = ''vatfree'', ia_rate = 0\<rparr>"
  have w: "faults ?w = []" "fresh ?w = 7" "now ?w = 0" "lx_name ?w k = ''RE'' @ show_nat k" "find_sub ''s1'' ?w = Some free_sub"
    "paid_end ''s1'' ?w = Some 31" "subs ?w = [free_sub]" "map i_ref (invs ?w) = [''RE1'']" for k
    by (simp_all add: convert_world_def sample_defs free_sub_def find_sub_def paid_end_def invoices_of_def)
  have s: "s_free free_sub" "s_cancelled free_sub = None" "s_status free_sub = SubPaid" "s_quantity free_sub = 2" "s_id free_sub = ''s1''"
    "PlanFor (s_product free_sub) (s_interval free_sub) = Some pro_month"
    by (simp_all add: free_sub_def sample_sub_def plans_simps)
  have i: "ValidateDiscount (cv_discount convert_input) = None" "cv_street convert_input \<noteq> ''''" "cv_zip convert_input \<noteq> ''''"
    "cv_city convert_input \<noteq> ''''" "cv_now convert_input" "cv_discount convert_input = 0"
    by (simp_all add: convert_input_def ValidateDiscount_None)
  have p: "PlanFor (du_product ?d) (du_interval ?d) = Some pro_month" by (simp add: plans_simps sample_sub_def due_now_def free_sub_def)
  have c: "Charge pro_month 2 0 = Inr ?ch" by code_simp
  have a: "InvoiceAmountsFor True 59800 '''' False = Inr ?a" by code_simp
  have d: "cl_small (d_client ?E) = True" "client_enabled (d_client ?E)" "du_quantity ?d = 2" "du_discount ?d = 0"
    "du_country ?d = ''''" "\<not> du_free ?d" "du_id ?d = ''s1''"
    by (simp_all add: sample_deployment_def client_enabled_def due_now_def free_sub_def sample_sub_def convert_input_def)
  have "\<not> isl (taxTreatmentFor \<lparr>tc_country = '''', tc_vat_verified = False, tc_small_business = True\<rparr>)" by code_simp
  then obtain tx where tx: "taxTreatmentFor \<lparr>tc_country = '''', tc_vat_verified = False, tc_small_business = True\<rparr> = Inr tx"
    by (cases "taxTreatmentFor \<lparr>tc_country = '''', tc_vat_verified = False, tc_small_business = True\<rparr>") simp_all
  obtain x y where per: "Period pro_month (du_end ?d) = (x, y)" by fastforce
  have n: "show_nat 7 = ''7''" "show_nat 8 = ''8''" by code_simp+
  have renew: "\<exists>sent u. run_state (renewOne ?E ?d) v = (RenewInvoiced ''RE8'' sent, u)"
    if v: "faults v = []" "fresh v = 8" "lx_name v 8 = ''RE8''" "map i_ref (invs v) = [''RE1'']" "''s1'' \<in> set (map s_id (subs v))" for v :: world
  proof -
    have iok: "invoice_ok (invoice_row ''s1'' ''RE8'' x y ?ch ?a t) (v\<lparr>fresh := k, lx_invoices := l\<rparr>)" for t k l
      using v by (simp add: invoice_ok_def invoice_row_def)
    show ?thesis using v d p c a tx per iok
      by (simp add: renewOne_def CreateInvoice_def run_simps run_do_create renew_invoiced_def InvoicePDF_def run_do_get Send_def update_sub_def)
        blast
  qed
  let ?c = "\<lparr>ci_company = s_company free_sub, ci_vat_id = cv_vat_id convert_input, ci_contact = cv_contact convert_input,
    ci_email = s_email free_sub, ci_street = cv_street convert_input, ci_zip = cv_zip convert_input,
    ci_city = cv_city convert_input, ci_country = ''DE''\<rparr>"
  obtain v where v: "run_state (CreateContact (d_client ?E) ?c) ?w = (Some ''RE7'', v)" "faults v = []" "fresh v = 8"
    "lx_name v = lx_name ?w" "invs v = invs ?w" "subs v = subs ?w" "now v = 0"
    using d(2) w n by (simp add: CreateContact_def run_do_create)
  let ?v = "update_sub ''s1'' (converted convert_input ''DE'' ''RE7'' (NextInvoiceAt pro_month (midnight 31))) v"
  have "s_id ` set (subs ?v) = {''s1''}" using v(6) w(7) s(5) by (simp add: update_sub_def update_where_def)
  then obtain sent u where u: "run_state (renewOne ?E ?d) ?v = (RenewInvoiced ''RE8'' sent, u)"
    using renew [of ?v] v w n(2) by (auto simp: update_sub_def)
  have "run_state (convert_booked ?E free_sub convert_input pro_month ''RE7'' 31) ?v = (Inr (ConvertedNow (fmtEUR (NetEUR ?ch)) (midnight 31)), u)"
    using u v(7) c i s by (simp add: convert_booked_def run_simps update_sub_def)
  moreover have "run_state (ConvertToPaid ?E ''s1'' convert_input) ?w =
      run_state (convert_booked ?E free_sub convert_input pro_month ''RE7'' 31) ?v"
    using w i s d(2) v(1,2) by (simp add: ConvertToPaid_def run_simps convert_input_def Let_def)
  ultimately show ?thesis by auto
qed

theorem convert_safe_witness:
  "\<exists>a u s' j. run_state (ConvertToPaid sample_deployment ''s1'' convert_input) convert_world = (Inr (ConvertedNow a (midnight 31)), u) \<and>
    find_sub ''s1'' u = Some s' \<and> \<not> s_free s' \<and> ledger_ok sample_deployment u \<and>
    invs u = invs convert_world @ [j] \<and> i_status j = InvOpen"
proof -
  obtain a u where r: "run_state (ConvertToPaid sample_deployment ''s1'' convert_input) convert_world = (Inr (ConvertedNow a (midnight 31)), u)"
    using convert_run by blast
  have "cv_now convert_input" by (simp add: convert_input_def)
  with convert_safe [OF convert_ledger r] obtain s' ks new where "ledger_ok sample_deployment u"
    "find_sub ''s1'' u = Some s'" "\<not> s_free s'" "invs u = invs convert_world @ new" "length new \<le> 1" "new \<noteq> []"
    "\<forall>j \<in> set new. i_status j = InvOpen" by auto
  moreover from this obtain j where "new = [j]" by (cases new) auto
  ultimately show ?thesis using r by auto
qed

text \<open>With regular taxation the immediate invoice is never raised: the row handed to \<open>renewOne\<close> has no
  country, and a sale without a country has no tax treatment.\<close>

lemma no_country: "InvoiceAmountsFor False net '''' v = Inl NoCountry"
  by (simp add: InvoiceAmountsFor_def taxTreatmentFor_def trim_space_def to_upper_def)

lemma convert_now_regular_fails:
  assumes "\<not> cl_small (d_client E)" "run_state (ConvertToPaid E sid i) w = (r, u)"
  shows "r \<noteq> Inr (ConvertedNow a e)"
proof -
  have "wp (ConvertToPaid E sid i) (\<lambda>r u. r \<noteq> Inr (ConvertedNow a e)) w"
  proof (rule wp_ConvertToPaid)
    fix s p fin contact country and v :: "'a world_scheme"
    have fail: "wp (renewOne E (due_now s i contact t)) (\<lambda>x u. renew_failed x) v" for t
      using assms(1) by (auto simp: renewOne_def due_now_def no_country wp_return intro!: wp_optionI wp_sumI)
    show "wp (convert_booked E s i p contact fin) (\<lambda>r u. r \<noteq> Inr (ConvertedNow a e)) v"
      unfolding convert_booked_def by (intro wp_intros) (simp_all, rule wp_mono [OF fail], simp add: wp_return)
  qed simp
  from wp_run [OF this assms(2)] show ?thesis .
qed

end
