(* ===== verification/Billing_Reconcile.thy ===== *)
theory Billing_Reconcile
  imports Billing_Actions
begin

text \<open>
  The comparison with the bookkeeping service (\<^verbatim>\<open>internal/billing/lexware/reconcile.go\<close>) and the
  figures it feeds (\<^verbatim>\<open>metrics.go\<close>). The explanation of a drift is a constructor.
\<close>

section \<open>Drift\<close>

datatype drift_kind =
    OnlyHere                   \<comment> \<open>\<^verbatim>\<open>nur-in-vakt\<close>\<close>
  | VoidedWithKey              \<comment> \<open>\<^verbatim>\<open>storniert-mit-key\<close>\<close>
  | VoidedThere inv_status     \<comment> \<open>\<^verbatim>\<open>storniert\<close>, and what it was here\<close>
  | OnlyThere                  \<comment> \<open>\<^verbatim>\<open>nur-in-lexware\<close>\<close>

record Drift =
  dt_kind :: drift_kind
  dt_ref :: string
  dt_number :: string
  dt_company :: string
  dt_amount :: string
  dt_severe :: bool

definition eurCents :: "int \<Rightarrow> string" where
  "eurCents c = fmtEUR (of_int c / 100)"

text \<open>A later voucher of the same id takes the place of an earlier one.\<close>

definition by_id :: "Voucher list \<Rightarrow> string \<rightharpoonup> Voucher" where
  "by_id vs = map_of (rev (map (\<lambda>v. (vo_id v, v)) vs))"

text \<open>A row of the query: an invoice of a paying customer with the number of its licences that still
  count, and of other paid invoices that reach into its period.\<close>

record drift_row =
  rw_ref :: string
  rw_status :: inv_status
  rw_cents :: int
  rw_company :: string
  rw_unrevoked :: nat
  rw_other :: nat

definition unrevoked :: "string \<Rightarrow> 'z world_scheme \<Rightarrow> nat" where
  "unrevoked sid w = count_where (\<lambda>l. l_sub l = sid \<and> l_key l \<noteq> '''' \<and> l_revoked l = None \<and> l_until l > now w) (lics w)"

definition other_paid :: "invoice \<Rightarrow> 'z world_scheme \<Rightarrow> nat" where
  "other_paid i w = count_where (\<lambda>j. i_sub j = i_sub i \<and> i_ref j \<noteq> i_ref i \<and> i_status j = InvPaid \<and> i_end j \<ge> i_start i) (invs w)"

definition drift_row_of :: "'z world_scheme \<Rightarrow> invoice \<Rightarrow> drift_row list" where
  "drift_row_of w i = (case find_sub (i_sub i) w of
     None \<Rightarrow> []
   | Some s \<Rightarrow> if s_free s then []
       else [\<lparr>rw_ref = i_ref i, rw_status = i_status i, rw_cents = i_net i, rw_company = s_company s,
         rw_unrevoked = unrevoked (i_sub i) w, rw_other = other_paid i w\<rparr>])"

definition drift_rows :: "'z world_scheme \<Rightarrow> drift_row list" where
  "drift_rows w = concat (map (drift_row_of w) (invs w))"

text \<open>What the loop makes of a row.\<close>

definition row_drift :: "(string \<rightharpoonup> Voucher) \<Rightarrow> drift_row \<Rightarrow> Drift list" where
  "row_drift known r = (case known (rw_ref r) of
     None \<Rightarrow> [\<lparr>dt_kind = OnlyHere, dt_ref = rw_ref r, dt_number = '''', dt_company = rw_company r,
       dt_amount = eurCents (rw_cents r), dt_severe = True\<rparr>]
   | Some v \<Rightarrow>
       if \<not> Voided v then []
       else if rw_unrevoked r > 0 \<and> rw_other r = 0
       then [\<lparr>dt_kind = VoidedWithKey, dt_ref = rw_ref r, dt_number = vo_number v, dt_company = rw_company r,
         dt_amount = eurCents (rw_cents r), dt_severe = True\<rparr>]
       else if rw_status r \<noteq> InvVoided
       then [\<lparr>dt_kind = VoidedThere (rw_status r), dt_ref = rw_ref r, dt_number = vo_number v, dt_company = rw_company r,
         dt_amount = eurCents (rw_cents r), dt_severe = False\<rparr>]
       else [])"

definition row_void :: "(string \<rightharpoonup> Voucher) \<Rightarrow> drift_row \<Rightarrow> bool" where
  "row_void known r \<longleftrightarrow> (\<exists>v. known (rw_ref r) = Some v \<and> Voided v) \<and> rw_status r \<noteq> InvVoided"

text \<open>Vouchers the ledger does not know.\<close>

definition unknown_drift :: "string set \<Rightarrow> Voucher \<Rightarrow> Drift list" where
  "unknown_drift here v = (if vo_id v \<in> here \<or> Voided v then []
     else [\<lparr>dt_kind = OnlyThere, dt_ref = vo_id v, dt_number = vo_number v, dt_company = vo_contact v,
       dt_amount = fmtEUR (vo_total v), dt_severe = False\<rparr>])"

definition void_invoice :: "string \<Rightarrow> ('z world_scheme, unit) state" where
  "void_invoice ref = do { _ \<leftarrow> exec (update_invoice ref (\<lambda>i. i\<lparr>i_status := InvVoided\<rparr>)); skip }"

definition Reconcile :: "deployment \<Rightarrow> ('z world_scheme, Drift list option) state" where
  "Reconcile E = do {
     v \<leftarrow> Invoices (d_client E);
     (case v of
        None \<Rightarrow> State_Monad.return None
      | Some vouchers \<Rightarrow> do {
          let known = by_id vouchers;
          r \<leftarrow> db drift_rows;
          (case r of
             None \<Rightarrow> State_Monad.return None
           | Some all \<Rightarrow> do {
               rows \<leftarrow> received all;
               for_each void_invoice (map rw_ref (filter (row_void known) rows));
               State_Monad.return (Some (concat (map (row_drift known) rows)
                 @ concat (map (unknown_drift (rw_ref ` set rows)) vouchers))) }) }) }"

section \<open>Figures\<close>

record Metrics =
  mt_severe :: int
  mt_open :: int
  mt_late :: int
  mt_active :: int
  mt_mrr :: int
  mt_live :: int
  mt_last :: instant     \<comment> \<open>0: never\<close>
  mt_error :: int
  mt_cors :: int

definition recordCORSRejected :: "Metrics \<Rightarrow> Metrics" where
  "recordCORSRejected m = m\<lparr>mt_cors := mt_cors m + 1\<rparr>"

record counts =
  ct_open :: int
  ct_late :: int
  ct_subs :: int
  ct_lics :: int

definition counts_of :: "'z world_scheme \<Rightarrow> counts" where
  "counts_of w = \<lparr>
     ct_open = int (count_where (\<lambda>i. i_status i = InvOpen) (invs w)),
     ct_late = int (count_where (\<lambda>i. i_status i = InvOpen \<and> i_created i < now w - 14 * secs_per_day) (invs w)),
     ct_subs = int (count_where live (subs w)),
     ct_lics = int (count_where (\<lambda>l. l_revoked l = None \<and> l_until l > now w \<and> l_key l \<noteq> '''') (lics w))\<rparr>"

text \<open>What a subscription brings in a month.\<close>

definition monthly :: "subscription \<Rightarrow> int" where
  "monthly s = (case PlanFor (s_product s) (s_interval s) of
     None \<Rightarrow> 0
   | Some p \<Rightarrow>
       (case Charge p (s_quantity s) (s_discount s) of
          Inl _ \<Rightarrow> 0
        | Inr ch \<Rightarrow> if s_interval s = ''year'' then ch_net_cents ch sdiv 12 else ch_net_cents ch))"

definition RefreshMetrics :: "nat \<Rightarrow> bool \<Rightarrow> Metrics \<Rightarrow> ('z world_scheme, Metrics) state" where
  "RefreshMetrics severe failed m = do {
     let m = m\<lparr>mt_severe := int severe\<rparr>;
     (if failed then State_Monad.return (m\<lparr>mt_error := 1\<rparr>)
      else do {
        t \<leftarrow> gets now;
        let m = m\<lparr>mt_error := 0, mt_last := t\<rparr>;
        c \<leftarrow> db counts_of;
        (case c of
           None \<Rightarrow> State_Monad.return m
         | Some c \<Rightarrow> do {
             let m = m\<lparr>mt_open := ct_open c, mt_late := ct_late c, mt_active := ct_subs c, mt_live := ct_lics c\<rparr>;
             r \<leftarrow> db (\<lambda>w. filter (\<lambda>s. live s \<and> \<not> s_free s) (subs w));
             (case r of
                None \<Rightarrow> State_Monad.return m
              | Some all \<Rightarrow> do {
                  rows \<leftarrow> received all;
                  State_Monad.return (m\<lparr>mt_mrr := fold (\<lambda>s mrr. int64 (mrr + monthly s)) rows 0\<rparr>) }) }) }) }"

text \<open>One round of \<^verbatim>\<open>ReconcileLoop\<close>.\<close>

definition reconcile_round :: "deployment \<Rightarrow> Metrics \<Rightarrow> ('z world_scheme, Metrics) state" where
  "reconcile_round E m = do {
     r \<leftarrow> Reconcile E;
     (case r of
        None \<Rightarrow> RefreshMetrics 0 True m
      | Some drifts \<Rightarrow> RefreshMetrics (count_where dt_severe drifts) False m) }"

text \<open>The age in the exposition.\<close>

definition reconcile_age :: "instant \<Rightarrow> Metrics \<Rightarrow> int" where
  "reconcile_age t m = (if mt_last m > 0 then t - mt_last m else 0)"

section \<open>What a comparison writes\<close>

text \<open>The only column written is the status of an invoice.\<close>

lemma keeps_void_invoice: "keeps (ledger_ok E) (void_invoice ref)"
proof (rule keepsI)
  fix w assume ok: "ledger_ok E w"
  have "ledger_ok E (update_invoice ref (\<lambda>i. i\<lparr>i_status := InvVoided\<rparr>) w)"
    by (rule ledger_ok_update_invoice [OF ok]) (simp add: same_invoice_def)
  then show "wp (void_invoice ref) (\<lambda>_. ledger_ok E) w" unfolding void_invoice_def
    by (intro wp_intros) (use ok in \<open>simp_all add: update_invoice_def ledger_ok_def\<close>)
qed

lemma wp_invoice_pages: "(\<And>r t. Q r (w\<lparr>faults := t\<rparr>)) \<Longrightarrow> wp (invoice_pages c n k out) Q w"
proof (induction n arbitrary: k out w)
  case 0
  have "Q (Some out) w" using 0 [of _ "faults w"] by simp
  then show ?case by (simp add: wp_return)
next
  case (Suc n)
  have "wp (invoice_pages c n k' out') Q (w\<lparr>faults := t\<rparr>)" for k' out' t
    by (rule Suc.IH) (use Suc.prems in simp)
  moreover have "Q r w" for r using Suc.prems [of r "faults w"] by simp
  ultimately show ?case unfolding invoice_pages.simps wp_bind Let_def
    by (intro wp_do_get) (auto simp: wp_return Suc.prems split: call_result.splits)
qed

lemma keeps_reading: "keeps (ledger_ok E) (db f)" "keeps (ledger_ok E) (received xs)" "keeps (ledger_ok E) (Invoices c)"
  by (rule keepsI, rule wp_db, simp_all, rule keepsI, rule wp_received, simp,
      rule keepsI, unfold Invoices_def, rule wp_invoice_pages, simp)

lemma keeps_Reconcile: "keeps (ledger_ok E) (Reconcile D)"
  unfolding Reconcile_def Let_def
  by (intro keeps_bind keeps_option keeps_return keeps_for_each keeps_void_invoice keeps_reading)

lemma keeps_RefreshMetrics: "keeps (ledger_ok E) (RefreshMetrics severe failed m)"
  unfolding RefreshMetrics_def Let_def
  by (intro keeps_if keeps_bind keeps_option keeps_return keeps_gets keeps_reading)

lemma keeps_reconcile_round: "keeps (ledger_ok E) (reconcile_round D m)"
  unfolding reconcile_round_def
  by (intro keeps_bind keeps_option keeps_Reconcile keeps_RefreshMetrics)

text \<open>Without a failure.\<close>

definition void_all :: "string set \<Rightarrow> invoice list \<Rightarrow> invoice list" where
  "void_all S I = map (\<lambda>i. if i_ref i \<in> S then i\<lparr>i_status := InvVoided\<rparr> else i) I"

definition report :: "Voucher list \<Rightarrow> 'z world_scheme \<Rightarrow> Drift list" where
  "report vs w = concat (map (row_drift (by_id vs)) (drift_rows w))
     @ concat (map (unknown_drift (rw_ref ` set (drift_rows w))) vs)"

definition to_void :: "Voucher list \<Rightarrow> 'z world_scheme \<Rightarrow> string set" where
  "to_void vs w = rw_ref ` {r \<in> set (drift_rows w). row_void (by_id vs) r}"

lemma run_void_all:
  "faults w = [] \<Longrightarrow> run_state (for_each void_invoice refs) w = ((), w\<lparr>invs := void_all (set refs) (invs w)\<rparr>)"
proof (induction refs arbitrary: w)
  case Nil
  then show ?case by (simp add: run_simps void_all_def)
next
  case (Cons ref refs)
  have "void_all (set refs) (update_where (\<lambda>i. i_ref i = ref) (\<lambda>i. i\<lparr>i_status := InvVoided\<rparr>) I) = void_all (set (ref # refs)) I" for I
    by (auto simp: void_all_def update_where_def)
  with Cons show ?case by (simp add: run_simps void_invoice_def update_invoice_def)
qed

lemma run_Reconcile:
  assumes "faults w = []" "run_state (Invoices (d_client E)) w = (Some vs, w)"
  shows "run_state (Reconcile E) w = (Some (report vs w), w\<lparr>invs := void_all (to_void vs w) (invs w)\<rparr>)"
proof -
  have "to_void vs w = set (map rw_ref (filter (row_void (by_id vs)) (drift_rows w)))" by (simp add: to_void_def)
  with assms show ?thesis by (simp add: Reconcile_def run_simps run_void_all report_def Let_def)
qed

lemma invoice_pages_same:
  "faults w = [] \<Longrightarrow> faults u = [] \<Longrightarrow> lx_pages u = lx_pages w \<Longrightarrow>
   run_state (invoice_pages c n k out) u = (fst (run_state (invoice_pages c n k out) w), u)"
proof (induction n arbitrary: k out)
  case (Suc n)
  then show ?case
    by (cases "client_enabled c") (simp_all add: do_get_def run_simps Let_def split: call_result.splits)
qed (simp add: run_simps)

lemma in_drift_row:
  "r \<in> set (drift_row_of w i) \<longleftrightarrow> (\<exists>s. find_sub (i_sub i) w = Some s \<and> \<not> s_free s \<and>
     r = \<lparr>rw_ref = i_ref i, rw_status = i_status i, rw_cents = i_net i, rw_company = s_company s,
       rw_unrevoked = unrevoked (i_sub i) w, rw_other = other_paid i w\<rparr>)"
  by (cases "find_sub (i_sub i) w") (simp_all add: drift_row_of_def)

lemma in_drift_rows: "r \<in> set (drift_rows w) \<longleftrightarrow> (\<exists>i \<in> set (invs w). r \<in> set (drift_row_of w i))"
  by (auto simp: drift_rows_def)

text \<open>A row of the query after the statuses were brought in line: only the status moves, and there is no
  more cover than before.\<close>

lemma other_paid_void:
  "other_paid (i\<lparr>i_status := s\<rparr>) (w\<lparr>invs := void_all S (invs w)\<rparr>) \<le> other_paid i w"
proof -
  have "length (filter p (void_all S I)) \<le> length (filter q I)"
    if "\<And>i. i \<in> set I \<Longrightarrow> p i \<Longrightarrow> q i" "\<And>i. \<not> p (i\<lparr>i_status := InvVoided\<rparr>)" for p q I
    using that by (induction I) (auto simp: void_all_def)
  then show ?thesis by (simp add: other_paid_def count_where_def)
qed

lemma drift_row_void:
  assumes "r \<in> set (drift_rows w)"
  shows "\<exists>r' \<in> set (drift_rows (w\<lparr>invs := void_all S (invs w)\<rparr>)). rw_ref r' = rw_ref r \<and> rw_cents r' = rw_cents r \<and>
    rw_company r' = rw_company r \<and> rw_unrevoked r' = rw_unrevoked r \<and> rw_other r' \<le> rw_other r \<and>
    rw_status r' = (if rw_ref r \<in> S then InvVoided else rw_status r)"
proof -
  let ?u = "w\<lparr>invs := void_all S (invs w)\<rparr>"
  from assms obtain i where i: "i \<in> set (invs w)" "r \<in> set (drift_row_of w i)" by (auto simp: in_drift_rows)
  let ?j = "if i_ref i \<in> S then i\<lparr>i_status := InvVoided\<rparr> else i"
  have j: "?j \<in> set (invs ?u)" using i(1) by (simp add: void_all_def)
  have "other_paid ?j ?u \<le> other_paid i w"
    using other_paid_void [where i = i and s = "i_status ?j" and w = w and S = S] by (cases "i_ref i \<in> S") simp_all
  moreover obtain s where s: "find_sub (i_sub i) w = Some s" "\<not> s_free s"
    "r = \<lparr>rw_ref = i_ref i, rw_status = i_status i, rw_cents = i_net i, rw_company = s_company s,
      rw_unrevoked = unrevoked (i_sub i) w, rw_other = other_paid i w\<rparr>"
    using i(2) by (auto simp: in_drift_row)
  let ?r = "\<lparr>rw_ref = i_ref i, rw_status = i_status ?j, rw_cents = i_net i, rw_company = s_company s,
    rw_unrevoked = unrevoked (i_sub i) w, rw_other = other_paid ?j ?u\<rparr>"
  have "?r \<in> set (drift_row_of ?u ?j)"
    using s(1,2) by (cases "i_ref i \<in> S") (simp_all add: in_drift_row find_sub_def unrevoked_def)
  then have "?r \<in> set (drift_rows ?u)" using j unfolding in_drift_rows by blast
  ultimately show ?thesis using s(3) by (intro bexI [of _ ?r]) simp_all
qed

lemma drift_row_back:
  assumes "r \<in> set (drift_rows (w\<lparr>invs := void_all S (invs w)\<rparr>))"
  shows "\<exists>r' \<in> set (drift_rows w). rw_ref r' = rw_ref r \<and> rw_status r = (if rw_ref r \<in> S then InvVoided else rw_status r')"
proof -
  let ?u = "w\<lparr>invs := void_all S (invs w)\<rparr>"
  from assms obtain i where i: "i \<in> set (invs w)"
    "r \<in> set (drift_row_of ?u (if i_ref i \<in> S then i\<lparr>i_status := InvVoided\<rparr> else i))"
    by (auto simp: in_drift_rows void_all_def)
  then obtain s where "find_sub (i_sub i) w = Some s" "\<not> s_free s" "rw_ref r = i_ref i"
    "rw_status r = (if i_ref i \<in> S then InvVoided else i_status i)"
    by (cases "i_ref i \<in> S") (auto simp: in_drift_row find_sub_def)
  then show ?thesis using i(1) unfolding in_drift_rows in_drift_row
    by (intro bexI [of _ "\<lparr>rw_ref = i_ref i, rw_status = i_status i, rw_cents = i_net i, rw_company = s_company s,
       rw_unrevoked = unrevoked (i_sub i) w, rw_other = other_paid i w\<rparr>"]) (auto simp: in_drift_rows in_drift_row)
qed

lemma in_to_void:
  "ref \<in> to_void vs w \<longleftrightarrow> (\<exists>i \<in> set (invs w). \<exists>s v. i_ref i = ref \<and> find_sub (i_sub i) w = Some s \<and> \<not> s_free s \<and>
     by_id vs ref = Some v \<and> Voided v \<and> i_status i \<noteq> InvVoided)"
  by (fastforce simp: to_void_def in_drift_rows in_drift_row row_void_def image_iff)

lemma nothing_left: "to_void vs (w\<lparr>invs := void_all (to_void vs w) (invs w)\<rparr>) = {}"
proof -
  have "\<not> row_void (by_id vs) r" if r: "r \<in> set (drift_rows (w\<lparr>invs := void_all (to_void vs w) (invs w)\<rparr>))" for r
  proof
    assume v: "row_void (by_id vs) r"
    from drift_row_back [OF r] obtain r' where r': "r' \<in> set (drift_rows w)" "rw_ref r' = rw_ref r"
      "rw_status r = (if rw_ref r \<in> to_void vs w then InvVoided else rw_status r')" by blast
    from v have s: "rw_status r \<noteq> InvVoided" "\<exists>v. by_id vs (rw_ref r) = Some v \<and> Voided v" by (simp_all add: row_void_def)
    with r'(3) have n: "rw_ref r \<notin> to_void vs w" "rw_status r' \<noteq> InvVoided" by (metis, metis)
    with s(2) r'(2) have "row_void (by_id vs) r'" unfolding row_void_def by simp
    with r'(1) have "rw_ref r' \<in> to_void vs w" unfolding to_void_def by blast
    with n(1) r'(2) show False by simp
  qed
  then show ?thesis unfolding to_void_def [of vs "w\<lparr>invs := void_all (to_void vs w) (invs w)\<rparr>"] by blast
qed

lemma severe_stays:
  assumes "d \<in> set (report vs w)" "dt_severe d"
  shows "d \<in> set (report vs (w\<lparr>invs := void_all S (invs w)\<rparr>))"
proof -
  from assms obtain r where r: "r \<in> set (drift_rows w)" "d \<in> set (row_drift (by_id vs) r)"
    by (auto simp: report_def unknown_drift_def split: if_splits)
  from drift_row_void [OF r(1), of S] obtain r' where r': "r' \<in> set (drift_rows (w\<lparr>invs := void_all S (invs w)\<rparr>))"
    "rw_ref r' = rw_ref r" "rw_cents r' = rw_cents r" "rw_company r' = rw_company r" "rw_unrevoked r' = rw_unrevoked r"
    "rw_other r' \<le> rw_other r" by blast
  with r(2) assms(2) have "d \<in> set (row_drift (by_id vs) r')"
    by (auto simp: row_drift_def split: option.splits if_splits)
  with r'(1) show ?thesis unfolding report_def set_append set_concat set_map by blast
qed

text \<open>C34: a warning does not delete itself. When the service answers and nothing fails, a comparison
  writes nothing but the status \<^verbatim>\<open>voided\<close>, and that exactly to the invoices of paying customers
  that the service lists as voided. A second comparison finds nothing left to write, and every drift that
  was severe is reported again: what makes it severe is a state, not the transition that the first
  run has made.\<close>

theorem warnings_stay:
  fixes w :: "'z world_scheme"
  assumes "faults w = []" "run_state (Invoices (d_client E)) w = (Some vs, w)"
  shows "\<exists>ds u ds'. run_state (Reconcile E) w = (Some ds, u) \<and> run_state (Reconcile E) u = (Some ds', u) \<and>
    {d \<in> set ds. dt_severe d} \<subseteq> set ds' \<and> u = w\<lparr>invs := invs u\<rparr> \<and>
    list_all2 (\<lambda>i j. j = i \<or> i_status i \<noteq> InvVoided \<and> j = i\<lparr>i_status := InvVoided\<rparr> \<and>
      (\<exists>v. by_id vs (i_ref i) = Some v \<and> Voided v)) (invs w) (invs u) \<and>
    (\<forall>i \<in> set (invs u). \<forall>s v. find_sub (i_sub i) u = Some s \<and> \<not> s_free s \<and> by_id vs (i_ref i) = Some v \<and> Voided v \<longrightarrow>
      i_status i = InvVoided)"
proof -
  let ?u = "w\<lparr>invs := void_all (to_void vs w) (invs w)\<rparr>"
  have u: "run_state (Invoices (d_client E)) ?u = (Some vs, ?u)"
    using invoice_pages_same [of w ?u "d_client E" 20 0 "[]"] assms by (simp add: Invoices_def)
  have "run_state (Reconcile E) ?u = (Some (report vs ?u), ?u)"
    using run_Reconcile [OF _ u] assms(1) by (simp add: nothing_left) (simp add: void_all_def)
  moreover have "list_all2 (\<lambda>i j. j = i \<or> i_status i \<noteq> InvVoided \<and> j = i\<lparr>i_status := InvVoided\<rparr> \<and>
      (\<exists>v. by_id vs (i_ref i) = Some v \<and> Voided v)) (invs w) (invs ?u)"
    by (auto simp: void_all_def list.rel_map list.rel_refl_strong in_to_void intro!: list.rel_refl_strong)
  moreover have "i_status i = InvVoided"
    if i: "i \<in> set (invs ?u)" "find_sub (i_sub i) ?u = Some s" "\<not> s_free s" "by_id vs (i_ref i) = Some v" "Voided v" for i s v
  proof (rule ccontr)
    assume "i_status i \<noteq> InvVoided"
    then have "i_ref i \<in> to_void vs ?u" unfolding in_to_void using i by blast
    with nothing_left [of vs w] show False by simp
  qed
  ultimately show ?thesis using run_Reconcile [OF assms] severe_stays [of _ vs w "to_void vs w"]
    by (intro exI [of _ "report vs w"] exI [of _ ?u] exI [of _ "report vs ?u"]) auto
qed

definition storno :: Voucher where
  "storno = \<lparr>vo_id = ''RE1'', vo_number = ''RE0004'', vo_status = ''voided'', vo_total = 598, vo_contact = ''Acme''\<rparr>"

definition storno_world :: world where
  "storno_world = (sample_world 0 [sample_sub SubPaid None] [sample_invoice InvPaid] [sample_licence Full ''key'' 100])
     \<lparr>lx_pages := (\<lambda>_. Replied 200 (Some \<lparr>vl_content = [storno], vl_last = True\<rparr>))\<rparr>"

lemma storno_pages: "faults storno_world = []" "run_state (Invoices (d_client sample_deployment)) storno_world = (Some [storno], storno_world)"
proof -
  show f: "faults storno_world = []" by (simp add: storno_world_def sample_world_def)
  have "client_enabled (d_client sample_deployment)" by (simp add: sample_deployment_def client_enabled_def)
  from Invoices_one_page [OF f this, of "\<lparr>vl_content = [storno], vl_last = True\<rparr>"]
  show "run_state (Invoices (d_client sample_deployment)) storno_world = (Some [storno], storno_world)"
    by (simp add: storno_world_def sample_world_def)
qed

theorem warnings_stay_witness:
  "\<exists>ds u ds' d. run_state (Reconcile sample_deployment) storno_world = (Some ds, u) \<and>
    run_state (Reconcile sample_deployment) u = (Some ds', u) \<and> map i_status (invs u) = [InvVoided] \<and>
    d \<in> set ds \<and> d \<in> set ds' \<and> dt_kind d = VoidedWithKey"
proof -
  let ?w = storno_world
  have w: "subs ?w = [sample_sub SubPaid None]" "invs ?w = [sample_invoice InvPaid]" "lics ?w = [sample_licence Full ''key'' 100]" "now ?w = 0"
    by (simp_all add: storno_world_def sample_world_def)
  have v: "by_id [storno] ''RE1'' = Some storno" "Voided storno" by (simp_all add: by_id_def storno_def Voided_def)
  let ?r = "\<lparr>rw_ref = ''RE1'', rw_status = InvPaid, rw_cents = 59800, rw_company = ''Acme'', rw_unrevoked = 1, rw_other = 0\<rparr>"
  have "drift_rows ?w = [?r]"
    using w by (simp add: drift_rows_def drift_row_of_def find_sub_def unrevoked_def other_paid_def count_where_def sample_defs)
  then have "\<exists>d \<in> set (report [storno] ?w). dt_severe d \<and> dt_kind d = VoidedWithKey"
    using v by (simp add: report_def row_drift_def)
  moreover from warnings_stay [OF storno_pages] obtain ds u ds' where run: "run_state (Reconcile sample_deployment) ?w = (Some ds, u)"
    "run_state (Reconcile sample_deployment) u = (Some ds', u)" "{d \<in> set ds. dt_severe d} \<subseteq> set ds'"
    and u: "u = ?w\<lparr>invs := invs u\<rparr>" "list_all2 (\<lambda>i j. j = i \<or> i_status i \<noteq> InvVoided \<and> j = i\<lparr>i_status := InvVoided\<rparr> \<and>
      (\<exists>v. by_id [storno] (i_ref i) = Some v \<and> Voided v)) (invs ?w) (invs u)"
    and all: "\<forall>i \<in> set (invs u). \<forall>s v. find_sub (i_sub i) u = Some s \<and> \<not> s_free s \<and> by_id [storno] (i_ref i) = Some v \<and> Voided v \<longrightarrow>
      i_status i = InvVoided"
    by blast
  from u(2) w obtain j where j: "invs u = [j]" "j = sample_invoice InvPaid \<or> j = (sample_invoice InvPaid)\<lparr>i_status := InvVoided\<rparr>"
    by (auto simp: list_all2_Cons1)
  have "subs u = subs ?w" using run(1) run_Reconcile [OF storno_pages] by auto
  then have "find_sub ''s1'' u = Some (sample_sub SubPaid None)" using w(1) by (simp add: find_sub_def sample_defs)
  with all j v have "i_status j = InvVoided" by (auto simp: sample_defs)
  ultimately show ?thesis using run_Reconcile [OF storno_pages] run j by auto
qed

end
