(* ===== verification/Billing_Machine.thy ===== *)
theory Billing_Machine
  imports Billing_Reconcile
begin

text \<open>
  The billing instance as one machine. A step is one complete handler, one round of a background
  sweep, or something outside: time passes, the answers of the services change, the
  next statements fail. Two requests do not interleave inside a handler.
\<close>

section \<open>Steps\<close>

datatype call =
    CallQuote "quoteRequestInput option"
  | CallCreate NewSubscription
  | CallApprove string string
  | CallApproveHere string
  | CallWebhook "(string \<times> string) option"
  | CallPoll
  | CallRenewals
  | CallExpiring
  | CallGetLicense string
  | CallShow string
  | CallSeat string string string
  | CallSeatHere string string string string
  | CallRevoke string
  | CallPortalLink string string
  | CallCancel string
  | CallDiscount string int
  | CallNotes string string
  | CallReminder string
  | CallResend string string
  | CallConvert string ConvertInput
  | CallReconcile Metrics

definition quietly :: "('s, 'a) state \<Rightarrow> ('s, unit) state" where
  "quietly m = do { _ \<leftarrow> m; State_Monad.return () }"

fun perform :: "deployment \<Rightarrow> call \<Rightarrow> ('z world_scheme, unit) state" where
  "perform E (CallQuote i) = quietly (RequestQuote E i)"
| "perform E (CallCreate n) = quietly (CreateSubscription E n)"
| "perform E (CallApprove sid token) = quietly (Approve E sid token)"
| "perform E (CallApproveHere sid) = quietly (ApproveRequest E sid)"
| "perform E (CallWebhook ev) = quietly (Webhook E ev)"
| "perform E CallPoll = quietly (pollOnce E)"
| "perform E CallRenewals = quietly (renewOnce E)"
| "perform E CallExpiring = quietly (mailExpiringOnce E)"
| "perform E (CallGetLicense auth) = quietly (GetLicense E auth)"
| "perform E (CallShow token) = quietly (Show E token)"
| "perform E (CallSeat token org mail) = quietly (IssueSeat E token org mail)"
| "perform E (CallSeatHere sid org mail who) = quietly (Issue_seat E sid org mail who)"
| "perform E (CallRevoke token) = quietly (Revoke token)"
| "perform E (CallPortalLink sid base) = quietly (NewPortalToken E sid base)"
| "perform E (CallCancel sid) = quietly (Cancel sid)"
| "perform E (CallDiscount sid percent) = quietly (SetDiscount E sid percent)"
| "perform E (CallNotes sid notes) = quietly (SetNotes sid notes)"
| "perform E (CallReminder ref) = quietly (SendReminder E ref)"
| "perform E (CallResend token to) = quietly (ResendKey E token to)"
| "perform E (CallConvert sid i) = quietly (ConvertToPaid E sid i)"
| "perform E (CallReconcile m) = quietly (reconcile_round E m)"

text \<open>What happens outside: the tables and the mails sent stay.\<close>

definition elsewhere :: "'z world_scheme \<Rightarrow> 'z world_scheme \<Rightarrow> bool" where
  "elsewhere w u \<longleftrightarrow> now w \<le> now u \<and> subs u = subs w \<and> invs u = invs w \<and> lics u = lics w \<and> vats u = vats w \<and>
     outbox u = outbox w \<and> fresh w \<le> fresh u"

inductive vendor_step :: "deployment \<Rightarrow> 'z world_scheme \<Rightarrow> 'z world_scheme \<Rightarrow> bool" for E where
  call: "run_state (perform E c) w = ((), u) \<Longrightarrow> vendor_step E w u"
| outside: "elsewhere w u \<Longrightarrow> vendor_step E w u"

inductive_cases vendor_stepE: "vendor_step E w u"

definition vendor_start :: "'z world_scheme \<Rightarrow> bool" where
  "vendor_start w \<longleftrightarrow> subs w = [] \<and> invs w = [] \<and> lics w = []"

section \<open>The ledger stays consistent\<close>

lemma keeps_quietly [simp]: "keeps I (quietly m) = keeps I m"
  by (auto simp: quietly_def keeps_def hoare_def wp_bind wp_return_fun)

lemma keeps_reads: "reads m \<Longrightarrow> keeps (ledger_ok E) m"
  by (rule keepsI) (rule wp_reads, simp_all)

lemma keeps_settled: "good_deployment E \<Longrightarrow> keeps (ledger_ok E) (Webhook E ev)" "good_deployment E \<Longrightarrow> keeps (ledger_ok E) (pollOnce E)"
  unfolding Webhook_def pollOnce_def
  by (intro keeps_option keeps_prod keeps_if keeps_return keeps_bind keeps_gets keeps_skip keeps_for_each keeps_settle keeps_reading; assumption)+

lemma world_fields: "subs (w\<lparr>subs := S\<rparr>) = S" "invs (w\<lparr>subs := S\<rparr>) = invs w" "lics (w\<lparr>subs := S\<rparr>) = lics w"
  "subs (w\<lparr>faults := t\<rparr>) = subs w" "invs (w\<lparr>faults := t\<rparr>) = invs w" "lics (w\<lparr>faults := t\<rparr>) = lics w" "now (w\<lparr>faults := t\<rparr>) = now w"
  by simp_all

lemma keeps_Cancel: "keeps (ledger_ok E) (Cancel sid)"
proof (rule keepsI)
  fix w assume ok: "ledger_ok E w"
  have "ledger_ok E (update_sub sid (\<lambda>s. if s_cancelled s = None then s\<lparr>s_cancelled := Some t, s_next := None\<rparr> else s) w)" for t
    by (rule ledger_ok_sub_field [OF ok]) (simp add: same_sub_def)
  then show "wp (Cancel sid) (\<lambda>_. ledger_ok E) w" unfolding Cancel_def update_where_conj
    by (intro wp_intros wp_exec_count) (use ok in \<open>simp_all only: update_sub_def ledger_ok_def world_fields\<close>)
qed

lemma keeps_ConvertToPaid: "keeps (ledger_ok E) (ConvertToPaid E sid i)"
proof (rule keepsI, rule wp_ConvertToPaid, goal_cases)
  case (1 w e u)
  then show ?case by (simp add: ledger_ok_tab)
next
  case (2 w s p fin contact country u)
  show ?case by (rule wp_mono [OF wp_convert_booked [OF 2(1,2,3,4,6,7,8)]]) simp
qed

lemma keeps_Show: "keeps (ledger_ok E) (Show D token)"
  unfolding Show_def view_def by (intro keeps_reads reads_rules)

lemma perform_keeps: "good_deployment E \<Longrightarrow> keeps (ledger_ok E) (perform E c)"
  by (cases c) (simp_all add: keeps_RequestQuote keeps_CreateSubscription keeps_Approve keeps_ApproveRequest keeps_settled
      keeps_renewOnce keeps_mailExpiringOnce keeps_GetLicense keeps_IssueSeat keeps_Issue_seat keeps_Revoke
      keeps_NewPortalToken keeps_Cancel keeps_SetDiscount keeps_SetNotes keeps_SendReminder keeps_ResendKey
      keeps_ConvertToPaid keeps_reconcile_round keeps_Show)

lemma vendor_step_ok: "good_deployment E \<Longrightarrow> ledger_ok E w \<Longrightarrow> vendor_step E w u \<Longrightarrow> ledger_ok E u"
proof (erule vendor_stepE, goal_cases)
  case (1 c)
  then show ?case using keepsD [OF perform_keeps [OF 1(1)] 1(2), of c] by simp
qed (simp add: elsewhere_def ledger_ok_def)

interpretation vendor: machine vendor_start "vendor_step E" "\<lambda>w. good_deployment E \<longrightarrow> ledger_ok E w" for E
  by unfold_locales (simp add: vendor_start_def ledger_ok_def store_ok_def one_open_def, blast intro: vendor_step_ok)

text \<open>C35: whatever the billing instance is asked, in whatever order, and whatever fails on the way, its
  ledger says the truth. In every state it can get into, a stored key is one an instance accepts, with the renewal
  token, the organisation and the expiry of its row; it belongs to a subscription, and it runs out no later than
  the end of a period that was paid for (or given away) plus the grace of the plan, or it is a trial
  key of at most 45 days. No subscription has more organisations than seats, none has two
  open invoices, invoice numbers and renewal tokens are unique, and gross is net plus tax on every invoice.\<close>

theorem ledger_truthful:
  assumes "good_deployment E" "vendor_start w0" "(vendor_step E)\<^sup>*\<^sup>* w0 w"
  shows "(\<forall>l \<in> set (lics w). l_key l \<noteq> '''' \<longrightarrow> key_good (d_crypto E) l \<and>
      (l_kind l = Trial \<and> l_until l \<le> l_created l + 45 * secs_per_day \<or>
       (\<exists>s \<in> set (subs w). \<exists>i \<in> set (invs w). \<exists>p. s_id s = l_sub l \<and> i_sub i = l_sub l \<and> i_paid i \<noteq> None \<and>
          PlanFor (s_product s) (s_interval s) = Some p \<and> l_until l < midnight (i_end i + pl_grace_days p + 1)))) \<and>
    (\<forall>s \<in> set (subs w). int (card (orgs_of (lics w) (s_id s))) \<le> s_quantity s) \<and>
    (\<forall>i \<in> set (invs w). \<forall>j \<in> set (invs w). i_status i = InvOpen \<and> i_status j = InvOpen \<and> i_sub i = i_sub j \<longrightarrow> i_ref i = i_ref j) \<and>
    distinct (map i_ref (invs w)) \<and> distinct (map l_rtoken (lics w)) \<and> (\<forall>i \<in> set (invs w). i_gross i = i_net i + i_tax i)"
proof -
  have ok: "store_ok (d_crypto E) (subs w) (invs w) (lics w)"
    using vendor.reachable_inv [OF assms(2,3)] assms(1) by (simp add: ledger_ok_def)
  have keys: "\<forall>l \<in> set (lics w). l_key l \<noteq> '''' \<longrightarrow> key_good (d_crypto E) l \<and> (trial_span l \<or> covered (subs w) (invs w) l)"
    using store_okD(9) [OF ok] by (simp add: licence_good_def)
  have seats: "\<forall>s \<in> set (subs w). int (card (orgs_of (lics w) (s_id s))) \<le> s_quantity s"
    using store_okD(7) [OF ok] by (simp add: seats_good_def)
  have gross: "\<forall>i \<in> set (invs w). i_gross i = i_net i + i_tax i"
    using store_okD(8) [OF ok] by (simp add: invoice_good_def)
  show ?thesis
    by (intro conjI keys [unfolded trial_span_def covered_def] seats gross store_okD(2,3) [OF ok]
        store_okD(4) [OF ok, unfolded one_open_def])
qed

end
