(* ===== verification/Billing_Lifecycle.thy ===== *)
theory Billing_Lifecycle
  imports Billing_Machine
begin

text \<open>
  What no step of the billing instance takes back. The abstract life of a subscription is
  requested, approved, paid, and it may be cancelled at any point; an invoice is open, paid, voided. The
  handlers refine it: every step of the machine takes each row forward or leaves it.
\<close>

section \<open>The abstract lifecycle\<close>

fun rank :: "sub_status \<Rightarrow> nat" where
  "rank Requested = 0" | "rank Rejected = 0" | "rank Approved = 1" | "rank SubPaid = 2"

fun inv_rank :: "inv_status \<Rightarrow> nat" where
  "inv_rank InvOpen = 0" | "inv_rank InvPaid = 1" | "inv_rank InvVoided = 2"

text \<open>A subscription goes on: what was ordered stays, the status only rises, a cancellation is final, and a
  paying customer does not become a free one.\<close>

definition advances :: "subscription \<Rightarrow> subscription \<Rightarrow> bool" where
  "advances s t \<longleftrightarrow> same_sub s t \<and> s_created t = s_created s \<and> s_approval_hash t = s_approval_hash s \<and>
     rank (s_status s) \<le> rank (s_status t) \<and> (s_cancelled s \<noteq> None \<longrightarrow> s_cancelled t = s_cancelled s) \<and>
     (s_paid s \<noteq> None \<longrightarrow> s_paid t \<noteq> None) \<and> (\<not> s_free s \<longrightarrow> \<not> s_free t)"

text \<open>An invoice goes on: its amounts and its period are fixed.\<close>

definition booked_on :: "invoice \<Rightarrow> invoice \<Rightarrow> bool" where
  "booked_on i j \<longleftrightarrow> i_sub j = i_sub i \<and> i_ref j = i_ref i \<and> i_start j = i_start i \<and> i_end j = i_end i \<and>
     i_net j = i_net i \<and> i_list j = i_list i \<and> i_discount j = i_discount i \<and> i_created j = i_created i \<and>
     i_gross j = i_gross i \<and> i_tax j = i_tax i \<and> i_rate j = i_rate i \<and> i_type j = i_type i \<and>
     inv_rank (i_status i) \<le> inv_rank (i_status j) \<and> (i_paid i \<noteq> None \<longrightarrow> i_paid j \<noteq> None)"

definition ended :: "subscription \<Rightarrow> bool" where
  "ended s \<longleftrightarrow> s_status s = SubPaid \<and> s_cancelled s \<noteq> None"

definition refs_of :: "string \<Rightarrow> 'z world_scheme \<Rightarrow> string set" where
  "refs_of sid w = i_ref ` {i \<in> set (invs w). i_sub i = sid}"

text \<open>Rows go on, and an ended subscription gets no further invoice.\<close>

definition onward :: "'z world_scheme \<Rightarrow> 'z world_scheme \<Rightarrow> bool" where
  "onward w u \<longleftrightarrow> (\<forall>sid s. find_sub sid w = Some s \<longrightarrow> (\<exists>t. find_sub sid u = Some t \<and> advances s t)) \<and>
     (\<forall>ref i. find_invoice ref w = Some i \<longrightarrow> (\<exists>j. find_invoice ref u = Some j \<and> booked_on i j)) \<and>
     (\<forall>sid s. find_sub sid w = Some s \<and> ended s \<longrightarrow> refs_of sid u \<subseteq> refs_of sid w)"

lemma advances_refl [simp]: "advances s s"
  by (simp add: advances_def same_sub_def)

lemma advances_trans: "advances s t \<Longrightarrow> advances t r \<Longrightarrow> advances s r"
  by (auto simp: advances_def same_sub_def)

lemma advances_ended: "advances s t \<Longrightarrow> ended s \<Longrightarrow> ended t"
  by (cases "s_status t") (auto simp: advances_def ended_def)

lemma booked_on_refl [simp]: "booked_on i i"
  by (simp add: booked_on_def)

lemma booked_on_trans: "booked_on i j \<Longrightarrow> booked_on j k \<Longrightarrow> booked_on i k"
  by (auto simp: booked_on_def intro: order_trans)

lemma find_left: "find p xs = Some x \<Longrightarrow> find p (xs @ ys) = Some x"
  by (induction xs) (auto split: if_splits)

lemma onward_same: "subs u = subs w \<Longrightarrow> invs u = invs w \<Longrightarrow> onward w u"
  by (auto simp: onward_def find_sub_def find_invoice_def refs_of_def)

lemma onward_trans:
  assumes "onward w v" "onward v u"
  shows "onward w u"
proof -
  have "\<exists>t. find_sub sid u = Some t \<and> advances s t" if "find_sub sid w = Some s" for sid s
    using assms that unfolding onward_def by (meson advances_trans)
  moreover have "\<exists>j. find_invoice ref u = Some j \<and> booked_on i j" if "find_invoice ref w = Some i" for ref i
    using assms that unfolding onward_def by (meson booked_on_trans)
  moreover have "refs_of sid u \<subseteq> refs_of sid w" if "find_sub sid w = Some s" "ended s" for sid s
    using assms that unfolding onward_def by (meson advances_ended subset_trans)
  ultimately show ?thesis unfolding onward_def by blast
qed

text \<open>A subscription moves on, and invoices are added to it unless it has ended.\<close>

lemma onwardI:
  assumes f: "\<And>s. s_id (f s) = s_id s" "\<And>s. find_sub sid w = Some s \<Longrightarrow> advances s (f s)"
    and u: "subs u = update_where (\<lambda>s. s_id s = sid) f (subs w)" "invs u = invs w @ new"
    and new: "\<And>j. j \<in> set new \<Longrightarrow> i_sub j = sid" "new \<noteq> [] \<Longrightarrow> \<exists>s. find_sub sid w = Some s \<and> \<not> ended s"
  shows "onward w u"
proof -
  have sub: "find_sub x u = map_option (\<lambda>s. if s_id s = sid then f s else s) (find_sub x w)" for x
    unfolding find_sub_def u(1) by (rule find_update_same) (simp add: f(1))
  have "\<exists>t. find_sub x u = Some t \<and> advances s t" if "find_sub x w = Some s" for x s
    using that sub [of x] f(2) find_sub_id [OF that] by (cases "x = sid") auto
  moreover have "find_invoice ref u = Some i" if "find_invoice ref w = Some i" for ref i
    using that by (simp add: find_invoice_def u(2) find_left)
  moreover have "refs_of x u \<subseteq> refs_of x w" if "find_sub x w = Some s" "ended s" for x s
  proof (cases "x = sid \<and> new \<noteq> []")
    case False
    then have "i_sub j \<noteq> x" if "j \<in> set new" for j using new(1) [OF that] that by auto
    then show ?thesis by (auto simp: refs_of_def u(2))
  qed (use new(2) that in auto)
  ultimately show ?thesis unfolding onward_def by (metis booked_on_refl)
qed

section \<open>Handlers that only take rows forward\<close>

abbreviation goes_on :: "('z world_scheme, 'a) state \<Rightarrow> bool" where
  "goes_on m \<equiv> \<forall>w0. keeps (onward w0) m"

lemma goes_onI:
  assumes "\<And>w. wp m (\<lambda>_ u. onward w u) w"
  shows "keeps (onward w0) m"
proof (rule keepsI)
  fix w assume "onward w0 w"
  then show "wp m (\<lambda>_. onward w0) w" by (intro wp_mono [OF assms]) (rule onward_trans)
qed

lemma goes_onD: "keeps (onward w) m \<Longrightarrow> wp m (\<lambda>_ u. onward w u) w"
  by (simp add: keeps_def hoare_def onward_same)

lemma onward_tab: "tab w u \<Longrightarrow> onward w u"
  by (rule onward_same) (simp_all add: tab_def)

lemma onward_faults [simp]: "onward w (u\<lparr>faults := t\<rparr>) = onward w u"
  by (simp add: onward_def find_sub_def find_invoice_def refs_of_def)

lemma keeps_on_same:
  assumes "\<And>w. wp m (\<lambda>_ u. subs u = subs w \<and> invs u = invs w) w"
  shows "keeps (onward w0) m"
  by (rule goes_onI) (rule wp_mono [OF assms], simp add: onward_same)

lemma keeps_on_sub:
  assumes "\<And>s. s_id (f s) = s_id s \<and> advances s (f s)"
  shows "keeps (onward w0) (exec (update_sub sid f))"
proof (rule goes_onI)
  fix w
  have "onward w (update_sub sid f w)"
    by (rule onwardI [where sid = sid and f = f and new = "[]"]) (use assms in \<open>simp_all add: update_sub_def\<close>)
  then show "wp (exec (update_sub sid f)) (\<lambda>_ u. onward w u) w"
    by (intro wp_exec) (simp_all add: onward_same update_sub_def onward_def find_sub_def find_invoice_def refs_of_def)
qed

lemma invs_field: "invs (w\<lparr>invs := I\<rparr>) = I"
  by simp

lemma invoice_updates:
  assumes r: "\<And>i. i_ref (f i) = i_ref i \<and> i_sub (f i) = i_sub i"
  shows "find_invoice x (update_invoice ref f w) = map_option (\<lambda>i. if i_ref i = ref then f i else i) (find_invoice x w)"
    and "refs_of x (update_invoice ref f w) = refs_of x w"
proof -
  show "find_invoice x (update_invoice ref f w) = map_option (\<lambda>i. if i_ref i = ref then f i else i) (find_invoice x w)"
    unfolding find_invoice_def update_invoice_def by (simp add: find_update_same r)
  let ?g = "\<lambda>i. if i_ref i = ref then f i else i"
  have "{i \<in> ?g ` set (invs w). i_sub i = x} = ?g ` {i \<in> set (invs w). i_sub (?g i) = x}" by auto
  moreover have "i_sub (?g i) = i_sub i" "i_ref (?g i) = i_ref i" for i using r by simp_all
  ultimately show "refs_of x (update_invoice ref f w) = refs_of x w"
    by (simp only: refs_of_def update_invoice_def set_update_where invs_field image_image)
qed

lemma keeps_on_invoice:
  assumes "\<And>i. booked_on i (f i)"
  shows "keeps (onward w0) (exec (update_invoice ref f))"
proof (rule goes_onI)
  fix w
  have r: "i_ref (f i) = i_ref i \<and> i_sub (f i) = i_sub i" for i using assms [of i] by (simp add: booked_on_def)
  have "onward w (update_invoice ref f w)" using assms
    by (auto simp: onward_def find_sub_def update_invoice_def [of _ _ w] invoice_updates [OF r, unfolded update_invoice_def])
  then show "wp (exec (update_invoice ref f)) (\<lambda>_ u. onward w u) w"
    by (intro wp_exec) (simp_all add: onward_same update_invoice_def onward_def find_sub_def find_invoice_def refs_of_def)
qed

lemma on_quiet:
  "keeps (onward w0) (db f)" "keeps (onward w0) (row g)" "keeps (onward w0) (received xs)"
  "keeps (onward w0) (PaymentStatus c ref)" "keeps (onward w0) (InvoicePDF c ref)" "keeps (onward w0) (CreateContact c ci)"
  "keeps (onward w0) (CreateInvoice c ii)" "keeps (onward w0) (Invoices c)"
  "keeps (onward w0) (IssueUntil C i q e pdf name)" "keeps (onward w0) (Send i to subject body pdf name)"
  "keeps (onward w0) (insert_licence E sid org e k note)" "keeps (onward w0) (exec (update_licence tok h))"
  "keeps (onward w0) (rand_hex E)" "keeps (onward w0) (notifySeller E sid tok form)"
  by (rule keeps_on_same; (unfold Invoices_def)?; (rule wp_db wp_row wp_received wp_PaymentStatus wp_InvoicePDF wp_CreateContact
      wp_CreateInvoice wp_invoice_pages wp_IssueUntil wp_Send wp_insert_licence wp_exec wp_rand_hex wp_notifySeller);
      simp add: outside_tables update_licence_def)+

lemma on_reads: "reads m \<Longrightarrow> keeps (onward w0) m"
  by (rule keeps_on_same) (rule wp_reads, simp_all)

lemma on_claim: "keeps (onward w0) (returning (open_invoice ref) (update_invoice ref (paid_now t)))"
proof (rule goes_onI, rule wp_returning)
  fix w u :: "'a world_scheme" and x tape
  assume "open_invoice ref (w\<lparr>faults := tape\<rparr>) = Some x"
  then obtain i where i: "find_invoice ref w = Some i" "i_status i = InvOpen"
    by (auto simp: open_invoice_def find_invoice_def split: option.splits if_splits)
  have p: "i_ref (paid_now t j) = i_ref j \<and> i_sub (paid_now t j) = i_sub j" for j by (simp add: paid_now_def)
  have "j = i" if "find_invoice x w = Some j" "i_ref j = ref" for x j
    using that i(1) find_invoice_ref [OF that(1)] by simp
  then have "onward w (update_invoice ref (paid_now t) w)" using i
    by (auto simp: onward_def find_sub_def update_invoice_def [of _ _ w] invoice_updates [OF p, unfolded update_invoice_def]
        booked_on_def paid_now_def)
  then show "onward w (update_invoice ref (paid_now t) (w\<lparr>faults := tape\<rparr>))"
    by (simp add: update_invoice_def onward_def find_sub_def find_invoice_def refs_of_def)
qed (simp add: onward_same)

lemma on_update_sub:
  "(\<And>s. s_id (f s) = s_id s \<and> advances s (f s)) \<Longrightarrow> onward w (w\<lparr>subs := update_where (\<lambda>s. s_id s = sid) f (subs w)\<rparr>)"
  by (rule onwardI [where sid = sid and f = f and new = "[]"]) simp_all

lemma on_new_sub:
  assumes "sub_ok s w"
  shows "onward w (w\<lparr>subs := subs w @ [s]\<rparr>)"
  by (auto simp: onward_def find_sub_def find_invoice_def refs_of_def find_left)

lemma on_Cancel: "keeps (onward w0) (Cancel sid)"
proof (rule goes_onI)
  fix w
  have "onward w (w\<lparr>subs := update_where (\<lambda>s. s_id s = sid) (\<lambda>s. if s_cancelled s = None then s\<lparr>s_cancelled := Some t, s_next := None\<rparr> else s) (subs w)\<rparr>)" for t
    by (rule on_update_sub) (simp add: advances_def same_sub_def)
  then show "wp (Cancel sid) (\<lambda>_. onward w) w" unfolding Cancel_def update_where_conj
    by (intro wp_intros wp_exec_count) (simp_all add: onward_same onward_def find_sub_def find_invoice_def refs_of_def)
qed

lemma on_Revoke: "keeps (onward w0) (Revoke token)"
  unfolding Revoke_def by (rule keeps_on_same) (intro wp_intros wp_exec_count; simp)

lemma on_insert_request: "keeps (onward w0) (insert_request E mk)"
  by (rule goes_onI, rule insert_request_wp) (simp_all add: onward_same, simp add: onward_def find_sub_def find_invoice_def refs_of_def find_left)

lemma on_collect: "(\<And>x. keeps I (f x)) \<Longrightarrow> keeps I (collect f xs)"
  by (induction xs) (simp_all add: keeps_return keeps_bind)

lemma on_call: "keeps I m \<Longrightarrow> keeps I n \<Longrightarrow> (\<And>b. keeps I (f b)) \<Longrightarrow>
   keeps I (case v of CallFailed \<Rightarrow> m | NotApplicable \<Rightarrow> n | Body b \<Rightarrow> f b)"
  by (cases v) simp_all

lemma settled_advances:
  "s_id (settled_sub p key fin t s) = s_id s \<and> advances s (settled_sub p key fin t s)"
  "s_id (s\<lparr>s_portal_hash := h\<rparr>) = s_id s \<and> advances s (s\<lparr>s_portal_hash := h\<rparr>)"
  "s_id (s\<lparr>s_discount := d\<rparr>) = s_id s \<and> advances s (s\<lparr>s_discount := d\<rparr>)"
  "s_id (s\<lparr>s_notes := n\<rparr>) = s_id s \<and> advances s (s\<lparr>s_notes := n\<rparr>)"
  by (cases "s_status s"; simp add: settled_sub_def advances_def same_sub_def split: option.splits)
    (simp_all add: advances_def same_sub_def)

lemma void_booked: "booked_on i (i\<lparr>i_status := InvVoided\<rparr>)" "booked_on i (i\<lparr>i_reminded := t\<rparr>)"
  by (cases "i_status i"; simp add: booked_on_def)+

lemmas on_rules = keeps_bind keeps_return keeps_skip keeps_gets keeps_if keeps_option keeps_sum keeps_prod keeps_for_each
  on_collect on_call on_quiet on_claim on_insert_request keeps_on_sub settled_advances keeps_on_invoice void_booked

lemma on_handlers:
  "keeps (onward w0) (RequestQuote E req)" "keeps (onward w0) (CreateSubscription E n)" "keeps (onward w0) (NewPortalToken E sid base)"
  "keeps (onward w0) (SetDiscount E sid d)" "keeps (onward w0) (SetNotes sid notes)"
  "keeps (onward w0) (SendReminder E ref)" "keeps (onward w0) (ResendKey E tok to)"
  unfolding RequestQuote_def CreateSubscription_def NewPortalToken_def SetDiscount_def SetNotes_def SendReminder_def ResendKey_def Let_def
  by (intro on_rules)+

lemma on_settle: "keeps (onward w0) (settle E ref)"
  unfolding settle_def settle_key_def send_portal_link_def Let_def
  by (intro on_rules on_handlers)

lemma reads_Entitlement: "reads (Entitlement sid)" "reads (EntitlementByToken tok)"
  unfolding EntitlementByToken_def Entitlement_def by (intro reads_rules)+

lemma on_sweeps: "keeps (onward w0) (Webhook E ev)" "keeps (onward w0) (pollOnce E)" "keeps (onward w0) (mailExpiringOnce E)"
  "keeps (onward w0) (reconcile_round E m)"
  unfolding Webhook_def pollOnce_def mailExpiringOnce_def mail_key_def reconcile_round_def Reconcile_def RefreshMetrics_def void_invoice_def Let_def
  by (intro on_rules on_settle on_reads reads_Entitlement)+

lemma on_reply: "keeps (onward w0) (returning (servable tok) (update_licence tok f))" "keeps (onward w0) (exec (\<lambda>w. w\<lparr>lics := h w\<rparr>))"
  by (rule keeps_on_same, rule wp_returning; simp add: update_licence_def) (rule keeps_on_same, rule wp_exec; simp)

lemmas on_known = on_reads [OF reads_Entitlement(1)] on_reads [OF reads_Entitlement(2)] on_reads [OF reads_State_seats]
  on_reads [OF reads_resolve]

lemma on_seats: "keeps (onward w0) (Issue_seat E sid org mail who)"
  unfolding Issue_seat_def Let_def by (intro on_rules on_reply on_known)

lemma on_endpoints: "keeps (onward w0) (GetLicense E auth)" "keeps (onward w0) (IssueSeat E token org mail)"
  unfolding GetLicense_def serve_key_def IssueSeat_def Let_def by (intro on_rules on_reply on_seats on_known)+

lemma on_Show: "keeps (onward w0) (Show E token)"
  by (rule on_reads) (unfold Show_def view_def, intro reads_rules)

section \<open>Handlers that raise invoices\<close>

lemma onward_booked:
  assumes "find_sub sid w = Some s" "\<not> ended s" "advances s (f s)" "\<And>s. s_id (f s) = s_id s"
    and "subs u = update_where (\<lambda>s. s_id s = sid) f (subs w)" "invs u = invs w @ [j]" "i_sub j = sid"
  shows "onward w u"
  by (rule onwardI [where sid = sid and f = f and new = "[j]"]) (use assms in auto)

lemma on_ApproveRequest: "good_deployment E \<Longrightarrow> keeps (onward w0) (ApproveRequest E sid)"
proof (rule goes_onI, rule wp_ApproveRequest, goal_cases)
  case (4 w s p u r l ch)
  then show ?case using find_sub_id [OF 4(2)]
    by (intro onward_trans [OF onward_booked [where sid = sid and s = s and f = "freed p (l_key l) (now w)" and u = "booked_free s p ch l w"] onward_tab])
      (auto simp: booked_free_def ended_def advances_def free_invoice_def freed_def same_sub_def)
next
  case (7 w s p ch a ver u v c ref l key ok m)
  note t = asked_tables [OF 7(5)]
  show ?case using find_sub_id [OF 7(2)] 7
    by (intro onward_trans [OF onward_booked [where sid = sid and s = s and f = "approved c ref key (now w)" and u = "booked s p c ref ch a key l v"] onward_tab])
      (auto simp: booked_def ended_def advances_def invoice_row_def approved_def same_sub_def t)
qed (auto intro!: onward_same simp: tab_def asked_tables)

lemma onward_next:
  assumes "find_sub sid w = Some s" "\<not> ended s"
    and "subs u = subs w \<or> (\<exists>n. subs u = update_where (\<lambda>s. s_id s = sid) (\<lambda>s. s\<lparr>s_next := n\<rparr>) (subs w))"
    and "invs u = invs w \<or> (\<exists>j. i_sub j = sid \<and> invs u = invs w @ [j])"
  shows "onward w u"
proof -
  from assms(4) obtain new where n: "invs u = invs w @ new" "\<And>j. j \<in> set new \<Longrightarrow> i_sub j = sid" by fastforce
  have "update_where p (\<lambda>s. s) S = S" for p and S :: "subscription list" by (simp add: update_where_def map_idI)
  with assms(3) obtain f where f: "subs u = update_where (\<lambda>s. s_id s = sid) f (subs w)" "\<And>s. s_id (f s) = s_id s \<and> advances s (f s)"
  proof (elim disjE exE, goal_cases)
    case 1
    then show ?case by (intro 1(1) [of "\<lambda>s. s"]) simp_all
  next
    case (2 n)
    then show ?case by (intro 2(1) [of "\<lambda>s. s\<lparr>s_next := n\<rparr>"]) (simp_all add: advances_def same_sub_def)
  qed
  show ?thesis by (rule onwardI [where sid = sid and f = f and new = new]) (use f n assms(1,2) in auto)
qed

lemma on_renewOne:
  assumes "find_sub (du_id d) w = Some s" "\<not> ended s"
  shows "wp (renewOne E d) (\<lambda>_ u. onward w u) w"
  by (rule wp_mono [OF renew_shape], elim conjE, rule onward_next [OF assms])

lemma on_renew_all:
  assumes "ledger_ok E w" "\<And>d. d \<in> set ds \<Longrightarrow> renewable d w \<and> (\<exists>s. find_sub (du_id d) w = Some s \<and> \<not> ended s)" "distinct (map du_id ds)"
  shows "wp (collect (\<lambda>d. do { x \<leftarrow> renewOne E d; State_Monad.return (du_id d, x) }) ds) (\<lambda>_ u. onward w u) w"
  using assms
proof (induction ds arbitrary: w)
  case Nil
  then show ?case by (simp add: wp_return onward_same)
next
  case (Cons d ds)
  from Cons.prems(2) [of d] obtain s where s: "renewable d w" "find_sub (du_id d) w = Some s" "\<not> ended s" by auto
  have one: "wp (renewOne E d) (\<lambda>_ v. (ledger_ok E v \<and> sweep [d] w v) \<and> onward w v) w"
    by (intro wp_conj wp_renewOne on_renewOne [OF s(2,3)] Cons.prems(1) s(1))
  have more: "wp (collect (\<lambda>d. do { x \<leftarrow> renewOne E d; State_Monad.return (du_id d, x) }) ds) (\<lambda>_ u. onward w u) v"
    if v: "ledger_ok E v" "sweep [d] w v" "onward w v" for v
  proof -
    have "renewable e v \<and> (\<exists>s. find_sub (du_id e) v = Some s \<and> \<not> ended s)" if e: "e \<in> set ds" for e
    proof -
      have "du_id e \<noteq> du_id d" using Cons.prems(3) e by (auto simp: image_iff)
      then show ?thesis using Cons.prems(2) [of e] renewable_sweep [OF _ v(2), of e] e v(2) by (simp add: sweep_def)
    qed
    then show ?thesis using Cons.prems(3) by (intro wp_mono [OF Cons.IH [OF v(1)]]) (auto intro: onward_trans [OF v(3)])
  qed
  show ?case by (auto simp: wp_bind wp_return_fun intro!: wp_mono [OF one] wp_mono [OF more])
qed

lemma on_renewOnce:
  assumes "ledger_ok E w"
  shows "wp (renewOnce E) (\<lambda>_ u. onward w u) w"
proof -
  have "distinct (map du_id (due_rows w))"
    unfolding due_rows_def by (rule distinct_due_rows) (use assms in \<open>simp add: ledger_ok_def store_okD\<close>)
  moreover have "renewable d (w\<lparr>faults := t\<rparr>) \<and> (\<exists>s. find_sub (du_id d) (w\<lparr>faults := t\<rparr>) = Some s \<and> \<not> ended s)"
    if d: "d \<in> set (due_rows w)" for d t
  proof -
    from d obtain s e where s: "s \<in> set (subs w)" "is_due w s" "d = due_of s (midnight e)" by (auto simp: set_due_rows)
    have "find_sub (s_id s) w = Some s"
      using assms s(1) unfolding find_sub_def ledger_ok_def by (intro find_key) (simp_all add: store_okD)
    moreover have "\<not> ended s" "du_id d = s_id s" using s(2,3) by (simp_all add: is_due_def ended_def due_of_def)
    ultimately show ?thesis using due_renewable [of E "w\<lparr>faults := t\<rparr>" s] assms s by simp
  qed
  ultimately have all: "wp (collect (\<lambda>d. do { x \<leftarrow> renewOne E d; State_Monad.return (du_id d, x) }) (due_rows w))
      (\<lambda>_ u. onward (w\<lparr>faults := t\<rparr>) u) (w\<lparr>faults := t\<rparr>)" for t
    using assms by (intro on_renew_all) simp_all
  have on: "onward (w\<lparr>faults := t\<rparr>) u = onward w u" for t u by (simp add: onward_def find_sub_def find_invoice_def refs_of_def)
  show ?thesis unfolding renewOnce_def
    by (intro wp_consts wp_intros)
      (use assms in \<open>auto simp: wp_return_fun on onward_same simp del: map_map simp flip: due_rows_def intro!: wp_mono [OF all]\<close>)
qed

lemma on_ConvertToPaid:
  fixes w :: "'z world_scheme"
  assumes "ledger_ok E w"
  shows "wp (ConvertToPaid E sid i) (\<lambda>_ u. onward w u) w"
proof (rule wp_ConvertToPaid)
  fix s p fin contact country and v :: "'z world_scheme"
  assume s: "find_sub sid w = Some s" "live s" "s_free s"
    and v: "tab (update_sub sid (converted i country contact (NextInvoiceAt p (midnight fin))) w) v"
  let ?g = "converted i country contact (NextInvoiceAt p (midnight fin))"
  have g: "s_id (?g x) = s_id x" "s_free x \<Longrightarrow> advances x (?g x)" for x by (simp_all add: converted_def advances_def same_sub_def)
  have "onward w (update_sub sid ?g w)"
    by (rule onwardI [where sid = sid and f = ?g and new = "[]"]) (use g s in \<open>simp_all add: update_sub_def\<close>)
  then have wv: "onward w v" using onward_tab [OF v] by (rule onward_trans)
  have f: "find_sub sid v = Some (?g s)" using find_sub_update [OF s(1), of ?g] find_sub_tab [OF v] g by simp
  have id: "s_id s = sid" using find_sub_id [OF s(1)] by simp
  have "wp (renewOne E (due_now s i contact (now v))) (\<lambda>_ u. onward v u) v"
    by (rule on_renewOne [where s = "?g s"]) (use f s(2) id in \<open>simp_all add: due_now_def ended_def live_def\<close>)
  then have r: "wp (renewOne E (due_now s i contact (now v))) (\<lambda>_. onward w) v"
    by (rule wp_mono) (rule onward_trans [OF wv])
  then show "wp (convert_booked E s i p contact fin) (\<lambda>_ u. onward w u) v"
    unfolding convert_booked_def by (intro wp_consts wp_intros) (simp_all add: wv wp_return_fun)
qed (rule onward_tab)

lemma on_Approve: "good_deployment E \<Longrightarrow> keeps (onward w0) (Approve E sid token)"
  unfolding Approve_def by (intro on_rules on_ApproveRequest)

lemma perform_onward:
  assumes "good_deployment E" "ledger_ok E w"
  shows "wp (perform E c) (\<lambda>_ u. onward w u) w"
proof (cases "c = CallRenewals \<or> (\<exists>sid i. c = CallConvert sid i)")
  case True
  then show ?thesis using on_renewOnce [OF assms(2)] on_ConvertToPaid [OF assms(2)]
    by (auto simp: quietly_def wp_bind wp_return_fun)
next
  case False
  then have "keeps (onward w) (perform E c)" using assms(1)
    by (cases c) (simp_all add: on_handlers on_sweeps on_endpoints on_Show on_seats on_Revoke on_Cancel on_Approve on_ApproveRequest)
  then show ?thesis by (rule goes_onD)
qed

lemma vendor_onward: "good_deployment E \<Longrightarrow> ledger_ok E w \<Longrightarrow> vendor_step E w u \<Longrightarrow> onward w u"
proof (erule vendor_stepE, goal_cases)
  case (1 c)
  then show ?case using wp_run [OF perform_onward [OF 1(1,2)], of c] by simp
qed (simp add: elsewhere_def onward_same)

section \<open>The machine refines the abstract lifecycle\<close>

text \<open>Phases of a subscription. \<^verbatim>\<open>rejected\<close> is a value of the column no handler writes; it counts as not
  yet accepted.\<close>

datatype phase = Asked | Billed | Paying

inductive life_step :: "phase \<times> bool \<Rightarrow> phase \<times> bool \<Rightarrow> bool" where
  bill: "life_step (Asked, c) (Billed, c)"
| give: "life_step (Asked, c) (Paying, c)"
| pay: "life_step (Billed, c) (Paying, c)"
| cancel: "life_step (p, False) (p, True)"

fun phase_of :: "sub_status \<Rightarrow> phase" where
  "phase_of Requested = Asked" | "phase_of Rejected = Asked" | "phase_of Approved = Billed" | "phase_of SubPaid = Paying"

definition life :: "subscription \<Rightarrow> phase \<times> bool" where
  "life s = (phase_of (s_status s), s_cancelled s \<noteq> None)"

lemma life_phase: "rank a \<le> rank b \<Longrightarrow> life_step\<^sup>*\<^sup>* (phase_of a, c) (phase_of b, c)"
  by (cases a; cases b) (auto intro: life_step.intros)

lemma advances_life:
  assumes "advances s t"
  shows "life_step\<^sup>*\<^sup>* (life s) (life t)"
proof -
  have p: "life_step\<^sup>*\<^sup>* (life s) (phase_of (s_status t), s_cancelled s \<noteq> None)"
    unfolding life_def by (rule life_phase) (use assms in \<open>simp add: advances_def\<close>)
  show ?thesis
  proof (cases "s_cancelled s = None \<and> s_cancelled t \<noteq> None")
    case True
    then have "life_step (phase_of (s_status t), s_cancelled s \<noteq> None) (life t)"
      using life_step.cancel by (simp add: life_def)
    with p show ?thesis by (rule rtranclp.rtrancl_into_rtrancl)
  next
    case False
    then have "(s_cancelled s \<noteq> None) = (s_cancelled t \<noteq> None)" using assms by (auto simp: advances_def)
    with p show ?thesis by (simp add: life_def)
  qed
qed

text \<open>C36: the billing instance refines the life of a subscription. Between any two states of the machine, the
  earlier one reachable, every subscription has gone only along abstract transitions: asked,
  billed, paying (or asked, paying for a free licence), and cancelled at most once and for good; its
  company, plan, interval and number of seats are what was ordered. Every invoice is still there with its amounts and
  period, and went at most from open to paid to voided. A paying subscription that is cancelled gets no
  further invoice.\<close>

theorem lifecycle_refined:
  fixes w u :: "'z world_scheme"
  assumes "good_deployment E" "vendor_start w0" "(vendor_step E)\<^sup>*\<^sup>* w0 w" "(vendor_step E)\<^sup>*\<^sup>* w u"
  shows "(\<forall>sid s. find_sub sid w = Some s \<longrightarrow> (\<exists>t. find_sub sid u = Some t \<and> same_sub s t \<and> life_step\<^sup>*\<^sup>* (life s) (life t) \<and>
      (s_cancelled s \<noteq> None \<longrightarrow> s_cancelled t = s_cancelled s))) \<and>
    (\<forall>ref i. find_invoice ref w = Some i \<longrightarrow> (\<exists>j. find_invoice ref u = Some j \<and> i_sub j = i_sub i \<and> i_start j = i_start i \<and>
      i_end j = i_end i \<and> i_net j = i_net i \<and> i_tax j = i_tax i \<and> i_gross j = i_gross i \<and>
      inv_rank (i_status i) \<le> inv_rank (i_status j))) \<and>
    (\<forall>sid s j. find_sub sid w = Some s \<and> life s = (Paying, True) \<and> j \<in> set (invs u) \<and> i_sub j = sid \<longrightarrow>
      i_ref j \<in> i_ref ` {i \<in> set (invs w). i_sub i = sid})"
proof -
  have on: "onward w u"
  proof (rule vendor.steps_mono [OF assms(4)])
    show "good_deployment E \<longrightarrow> ledger_ok E w" using vendor.reachable_inv [OF assms(2,3)] .
    show "onward x x" for x :: "'z world_scheme" by (rule onward_same) simp_all
    show "onward x y" if "good_deployment E \<longrightarrow> ledger_ok E x" "vendor_step E x y" for x y :: "'z world_scheme"
      using vendor_onward assms(1) that by blast
  qed (rule onward_trans)
  have "\<exists>t. find_sub sid u = Some t \<and> same_sub s t \<and> life_step\<^sup>*\<^sup>* (life s) (life t) \<and>
      (s_cancelled s \<noteq> None \<longrightarrow> s_cancelled t = s_cancelled s)" if "find_sub sid w = Some s" for sid s
  proof -
    from on that obtain t where t: "find_sub sid u = Some t" "advances s t" unfolding onward_def by blast
    then show ?thesis using advances_life [OF t(2)] by (auto simp: advances_def)
  qed
  moreover have "\<exists>j. find_invoice ref u = Some j \<and> i_sub j = i_sub i \<and> i_start j = i_start i \<and> i_end j = i_end i \<and>
      i_net j = i_net i \<and> i_tax j = i_tax i \<and> i_gross j = i_gross i \<and> inv_rank (i_status i) \<le> inv_rank (i_status j)"
    if "find_invoice ref w = Some i" for ref i
  proof -
    from on that obtain j where "find_invoice ref u = Some j" "booked_on i j" unfolding onward_def by blast
    then show ?thesis by (auto simp: booked_on_def)
  qed
  moreover have "i_ref j \<in> i_ref ` {i \<in> set (invs w). i_sub i = sid}"
    if "find_sub sid w = Some s" "life s = (Paying, True)" "j \<in> set (invs u)" "i_sub j = sid" for sid s j
  proof -
    have "ended s" using that(2) by (cases "s_status s") (simp_all add: life_def ended_def)
    then have "refs_of sid u \<subseteq> refs_of sid w" using on that(1) unfolding onward_def by blast
    then show ?thesis using that(3,4) by (auto simp: refs_of_def)
  qed
  ultimately show ?thesis by blast
qed

section \<open>A free customer, from the order to the cancellation\<close>

definition gift :: NewSubscription where
  "gift = \<lparr>ns_contact = \<lparr>qi_company = ''Acme'', qi_contact = '''', qi_email = ''a@acme'', qi_vat_id = '''', qi_street = '''', qi_zip = '''',
     qi_city = '''', qi_country = '''', qi_note = '''', qi_product = ''pro'', qi_quantity = 1, qi_interval = ''month'', qi_website = ''''\<rparr>,
     ns_discount = 0, ns_free = True, ns_notes = ''''\<rparr>"

definition gift_row :: subscription where
  "gift_row = request_row ''u8'' ((ns_contact gift)\<lparr>qi_note := ''von Hand im Panel angelegt'', qi_country := ''DE''\<rparr>) ''pro'' 1 ''month'' '''' 0 True
     (d_hash sample_deployment (d_random sample_deployment 7)) 0"

definition gift_start :: world where "gift_start = sample_world 0 [] [] []"
definition gift_asked :: world where "gift_asked = gift_start\<lparr>fresh := 9, subs := [gift_row]\<rparr>"

lemma gift_create: "run_state (CreateSubscription sample_deployment gift) gift_start = (Inr ''u8'', gift_asked)"
proof -
  have n: "show_nat 8 = ''8''" by code_simp
  have t: "trim_space ''Acme'' = ''Acme''" "trim_space ''a@acme'' = ''a@acme''" by code_simp+
  have p: "PlanFor ''pro'' ''month'' \<noteq> None" "ValidateDiscount 0 = None" by (simp_all add: plans_simps ValidateDiscount_None)
  show ?thesis using p t n
    by (simp add: CreateSubscription_def gift_def gift_row_def gift_start_def gift_asked_def rand_hex_def insert_request_def run_simps
        sample_world_def sample_deployment_def request_row_def sub_ok_def Let_def)
qed

lemma gift_facts:
  "find_sub ''u8'' gift_asked = Some gift_row" "s_status gift_row = Requested" "s_free gift_row" "s_company gift_row = ''Acme''"
  "s_email gift_row = ''a@acme''" "s_product gift_row = ''pro''" "s_interval gift_row = ''month''" "s_quantity gift_row = 1"
  "s_id gift_row = ''u8''" "s_cancelled gift_row = None" "faults gift_asked = []" "fresh gift_asked = 9" "now gift_asked = 0"
  "subs gift_asked = [gift_row]" "invs gift_asked = []" "lics gift_asked = []"
  by (simp_all add: gift_asked_def gift_start_def sample_world_def find_sub_def gift_row_def request_row_def gift_def)

text \<open>The order is approved by hand: the key is signed, the period counts as paid.\<close>

lemma run_Send:
  assumes "faults w = []"
  shows "\<exists>b mails. run_state (Send i a s c d e) w = (b, (w :: 'z world_scheme)\<lparr>outbox := mails\<rparr>)"
proof (cases "bad_line (sm_from (is_smtp i)) \<or> bad_line a")
  case True
  then show ?thesis by (intro exI [of _ False] exI [of _ "outbox w"]) (simp add: Send_def run_simps)
next
  case False
  then show ?thesis using assms
    by (intro exI [of _ True] exI [of _ "outbox w @ [(a, message (is_smtp i) a s c d e)]"]) (simp add: Send_def run_simps)
qed

lemma gift_booked: 
  assumes w: "subs w = [gift_row]" "invs w = []" "lics w = [l]" "l_rtoken l = tok" "faults w = []" "key \<noteq> ''''"
    shows "\<exists>u. run_state (book_free E ''u8'' pro_month 1 tok key) w = (True, u) \<and> map s_status (subs u) = [SubPaid] \<and>
    map l_key (lics u) = [key] \<and> map s_id (subs u) = [''u8''] \<and> map s_cancelled (subs u) = [None] \<and> faults u = []"
proof -
  have "ValidateDiscount 0 = None" by (simp add: ValidateDiscount_None)
  then obtain ch where ch: "Charge pro_month 1 0 = Inr ch" by (simp add: Charge_def Let_def)
  obtain x y where per: "Period pro_month (now w) = (x, y)" by fastforce
  show ?thesis using w
    by (simp add: book_free_def per ch transaction_def insert_invoice_def run_simps update_sub_def update_licence_def update_where_def
      gift_facts invoice_ok_def free_invoice_def)
qed

lemma gift_approve: "\<exists>key r u. key \<noteq> '''' \<and> run_state (ApproveRequest sample_deployment ''u8'') gift_asked = (r, u) \<and>
    map s_status (subs u) = [SubPaid] \<and> map l_key (lics u) = [key] \<and> map s_id (subs u) = [''u8''] \<and> map s_cancelled (subs u) = [None] \<and>
    faults u = []"
proof -
  let ?E = sample_deployment
  obtain x y where per: "Period pro_month 0 = (x, y)" by fastforce
  let ?e = "add_date y 0 0 (pl_grace_days pro_month)"
  have tok: "d_uuid ?E 9 = ''u9''" "d_uuid ?E 9 \<noteq> ''''" using show_nat_ne by (simp_all add: sample_deployment_def) code_simp
  let ?r = "ForLicence ''u9'' ''Acme'' ''a@acme'' ''month''"
  let ?w = "gift_asked\<lparr>fresh := 10, lics := [new_licence ''u8'' ''Acme'' ?e Full (''Freilizenz '' @ u_dash @ '' keine Rechnung'') ''u9'' 0]\<rparr>"
  have "rq_token ?r \<noteq> ''''" by (simp add: ForLicence_def)
  with sign_time [OF sample_good, of 0 ?r ?e] issuer_on obtain key where
    key: "SignUntil (d_crypto ?E) (d_issuer ?E) 0 ?r ?e = Inr key" by (metis isl_def sum.exhaust_sel)
  have p: "PlanFor ''pro'' ''month'' = Some pro_month" by (simp add: plans_simps)
  have ne: "key \<noteq> ''''" by (rule sign_nonempty [OF sample_good key])
  then obtain v where v: "run_state (book_free ?E ''u8'' pro_month 1 ''u9'' key) ?w = (True, v)" "map s_status (subs v) = [SubPaid]"
    "map l_key (lics v) = [key]" "map s_id (subs v) = [''u8'']" "map s_cancelled (subs v) = [None]" "faults v = []"
    using gift_booked [of ?w _ "''u9''" key ?E] by (auto simp: gift_facts new_licence_def)
  have sent: "subs x = subs v \<and> lics x = lics v \<and> faults x = []" if "run_state (Send i a s c d e) v = (b, x)" for i a s c d e b x
    using run_Send [OF v(6), of i a s c d e] that v(6) by auto
  show ?thesis using ne v
    by (intro exI [of _ key]) (simp add: ApproveRequest_def approveFree_def run_simps gift_facts issuer_on p tok key per Let_def licence_ok_def sent
      split: prod.split)
qed

lemma gift_cancel:
  assumes "map s_id (subs w) = [''u8'']" "map s_cancelled (subs w) = [None]" "faults w = []"
  shows "\<exists>r u. run_state (Cancel ''u8'') w = (r, u) \<and> map s_id (subs u) = [''u8''] \<and> map s_status (subs u) = map s_status (subs w) \<and>
    map s_cancelled (subs u) = [Some (now w)]"
proof -
  from assms(1) obtain s where "subs w = [s]" by auto
  then show ?thesis using assms by (simp add: Cancel_def exec_count_def run_simps update_where_def)
qed

lemma gift_path:
  obtains key u v where "(vendor_step sample_deployment)\<^sup>*\<^sup>* gift_start gift_asked" "(vendor_step sample_deployment)\<^sup>*\<^sup>* gift_asked u"
    "(vendor_step sample_deployment)\<^sup>*\<^sup>* gift_asked v" "map l_key (lics u) = [key]" "key \<noteq> ''''"
    "map s_id (subs v) = [''u8'']" "map life (subs v) = [(Paying, True)]"
proof -
  have call: "vendor_step sample_deployment x y" if "run_state (perform sample_deployment c) x = ((), y)" for c and x y :: world
    using that by (rule vendor_step.call)
  have 1: "vendor_step sample_deployment gift_start gift_asked"
    by (rule call [of "CallCreate gift"]) (simp add: quietly_def run_simps gift_create)
  obtain key r u where u: "key \<noteq> ''''" "run_state (ApproveRequest sample_deployment ''u8'') gift_asked = (r, u)"
    "map s_status (subs u) = [SubPaid]" "map l_key (lics u) = [key]" "map s_id (subs u) = [''u8'']" "map s_cancelled (subs u) = [None]"
    "faults u = []" using gift_approve by auto
  have 2: "vendor_step sample_deployment gift_asked u"
    by (rule call [of "CallApproveHere ''u8''"]) (simp add: quietly_def run_simps u(2))
  obtain q v where v: "run_state (Cancel ''u8'') u = (q, v)" "map s_id (subs v) = [''u8'']" "map s_status (subs v) = [SubPaid]"
    "map s_cancelled (subs v) = [Some (now u)]" using gift_cancel [OF u(5,6,7)] u(3) by auto
  have 3: "vendor_step sample_deployment u v"
    by (rule call [of "CallCancel ''u8''"]) (simp add: quietly_def run_simps v(1))
  from v(2-4) have life: "map life (subs v) = [(Paying, True)]" by (auto simp: life_def)
  from 2 3 have far: "(vendor_step sample_deployment)\<^sup>*\<^sup>* gift_asked v" by simp
  have "(vendor_step sample_deployment)\<^sup>*\<^sup>* gift_start gift_asked" "(vendor_step sample_deployment)\<^sup>*\<^sup>* gift_asked u"
    using 1 2 by simp_all
  then show ?thesis by (rule that [OF _ _ far u(4) u(1) v(2) life])
qed

lemma gift_origin: "vendor_start gift_start"
  by (simp add: vendor_start_def gift_start_def sample_world_def)

text \<open>After the approval there is one licence, with a key, and it is a good one.\<close>

theorem ledger_truthful_witness:
  "\<exists>u l. (vendor_step sample_deployment)\<^sup>*\<^sup>* gift_start u \<and> lics u = [l] \<and> l_key l \<noteq> '''' \<and> key_good (d_crypto sample_deployment) l"
proof -
  obtain key u v where p: "(vendor_step sample_deployment)\<^sup>*\<^sup>* gift_start gift_asked"
    "(vendor_step sample_deployment)\<^sup>*\<^sup>* gift_asked u" and k: "map l_key (lics u) = [key]" "key \<noteq> ''''" by (rule gift_path)
  have u: "(vendor_step sample_deployment)\<^sup>*\<^sup>* gift_start u" using p by (rule rtranclp_trans)
  from k obtain l where l: "lics u = [l]" "l_key l \<noteq> ''''" by auto
  then have "l \<in> set (lics u)" by simp
  then have "key_good (d_crypto sample_deployment) l" using ledger_truthful [OF sample_good gift_origin u] l(2) by blast
  then show ?thesis using u l by blast
qed

text \<open>From the order to the cancellation: asked, paying, cancelled.\<close>

theorem lifecycle_refined_witness:
  "\<exists>v t. (vendor_step sample_deployment)\<^sup>*\<^sup>* gift_asked v \<and> find_sub ''u8'' v = Some t \<and> life t = (Paying, True) \<and>
     same_sub gift_row t \<and> life_step\<^sup>*\<^sup>* (Asked, False) (Paying, True)"
proof -
  obtain key u v where v: "(vendor_step sample_deployment)\<^sup>*\<^sup>* gift_start gift_asked" "(vendor_step sample_deployment)\<^sup>*\<^sup>* gift_asked v"
    "map s_id (subs v) = [''u8'']" "map life (subs v) = [(Paying, True)]" by (rule gift_path)
  then have life: "life t = (Paying, True)" if "find_sub ''u8'' v = Some t" for t using that by (auto simp: find_sub_def split: if_splits)
  from lifecycle_refined [OF sample_good gift_origin v(1,2)] gift_facts(1) obtain t where
    t: "find_sub ''u8'' v = Some t" "same_sub gift_row t" "life_step\<^sup>*\<^sup>* (life gift_row) (life t)" by blast
  have "life gift_row = (Asked, False)" by (simp add: life_def gift_facts)
  with t life [OF t(1)] v(2) show ?thesis by auto
qed

end
