(* ===== verification/Go_Text.thy ===== *)
theory Go_Text
  imports Prelude
begin

text \<open>
  UTF-8 as Go decodes it (\<^verbatim>\<open>unicode/utf8\<close>), the string part of \<^verbatim>\<open>encoding/json\<close>, and what makes
  such encodings readable: prefix codes.
\<close>

section \<open>Prefix codes\<close>

text \<open>An encoding of symbols whose code words are told apart by reading on, and never begin with one
  of the characters that end a text.\<close>

locale prefix_code =
  fixes enc :: "'a \<Rightarrow> string"
    and ok :: "'a \<Rightarrow> bool"
    and ends :: "char set"
  assumes apart: "ok a \<Longrightarrow> ok b \<Longrightarrow> enc a @ x = enc b @ y \<Longrightarrow> a = b \<and> x = y"
    and begins: "ok a \<Longrightarrow> \<exists>c s. enc a = c # s \<and> c \<notin> ends"
begin

lemma up_to_end:
  assumes "list_all ok as" "list_all ok bs" "s \<in> ends" "t \<in> ends"
    and "concat (map enc as) @ s # x = concat (map enc bs) @ t # y"
  shows "as = bs \<and> s = t \<and> x = y"
  using assms
proof (induction as arbitrary: bs)
  case Nil
  then show ?case using begins by (cases bs) fastforce+
next
  case (Cons a as)
  show ?case
  proof (cases bs)
    case Nil
    then show ?thesis using Cons.prems begins [of a] by auto
  next
    case (Cons b cs)
    with Cons.prems have e: "enc a @ (concat (map enc as) @ s # x) = enc b @ (concat (map enc cs) @ t # y)" "ok a" "ok b" by simp_all
    from apart [OF e(2,3,1)] Cons.IH [of cs] Cons.prems Cons show ?thesis by simp
  qed
qed

lemma whole:
  "list_all ok as \<Longrightarrow> list_all ok bs \<Longrightarrow> concat (map enc as) = concat (map enc bs) \<Longrightarrow> as = bs"
proof (induction as arbitrary: bs)
  case Nil
  then show ?case using begins by (cases bs) fastforce+
next
  case (Cons a as)
  show ?case
  proof (cases bs)
    case Nil
    then show ?thesis using Cons.prems begins [of a] by auto
  next
    case (Cons b cs)
    with Cons.prems have e: "enc a @ concat (map enc as) = enc b @ concat (map enc cs)" "ok a" "ok b" by simp_all
    from apart [OF e(2,3,1)] Cons.IH [of cs] Cons.prems Cons show ?thesis by simp
  qed
qed

end

section \<open>Hexadecimal\<close>

definition byte :: "char \<Rightarrow> nat" where
  "byte c = of_char c"

definition hex_digit :: "nat \<Rightarrow> char" where
  "hex_digit n = char_of (if n < 10 then 48 + n else 87 + n)"

definition hex_byte :: "char \<Rightarrow> string" where
  "hex_byte c = [hex_digit (byte c div 16), hex_digit (byte c mod 16)]"

definition hex :: "string \<Rightarrow> string" where
  "hex s = concat (map hex_byte s)"

lemma byte_less [simp]: "byte c < 256"
  by (simp add: byte_def)

lemma byte_inj: "byte a = byte b \<longleftrightarrow> a = b"
  by (simp add: byte_def)

lemma hex_digit_inj: "m < 16 \<Longrightarrow> n < 16 \<Longrightarrow> hex_digit m = hex_digit n \<longleftrightarrow> m = n"
  by (auto simp: hex_digit_def char_of_eq_iff take_bit_eq_mod split: if_splits)

lemma hex_byte_inj: "hex_byte a = hex_byte b \<longleftrightarrow> a = b"
proof
  assume "hex_byte a = hex_byte b"
  then have "byte a div 16 = byte b div 16" "byte a mod 16 = byte b mod 16"
    using byte_less [of a] byte_less [of b] by (simp_all add: hex_byte_def hex_digit_inj)
  then have "byte a = byte b" by (metis div_mult_mod_eq)
  then show "a = b" by (simp add: byte_inj)
qed simp

interpretation hexcode: prefix_code hex_byte "\<lambda>_. True" "{}"
  by unfold_locales (auto simp: hex_byte_def hex_byte_inj [unfolded hex_byte_def, simplified])

lemma hex_byte_append [simp]: "hex_byte a @ x = hex_byte b @ y \<longleftrightarrow> a = b \<and> x = y"
  using hexcode.apart by auto

lemma hex_inj: "hex s = hex t \<longleftrightarrow> s = t"
  unfolding hex_def using hexcode.whole [of s t] by (auto simp: list_all_def)

section \<open>UTF-8\<close>

text \<open>\<^verbatim>\<open>utf8.DecodeRune\<close>: the length of the character a text begins with, 0 where it does not
  begin with one. The second byte decides about overlong forms and surrogates.\<close>

definition cont :: "char \<Rightarrow> bool" where
  "cont c \<longleftrightarrow> 128 \<le> byte c \<and> byte c \<le> 191"

definition second_ok :: "char \<Rightarrow> char \<Rightarrow> bool" where
  "second_ok a b \<longleftrightarrow> cont b \<and> (byte a = 224 \<longrightarrow> 160 \<le> byte b) \<and> (byte a = 237 \<longrightarrow> byte b \<le> 159) \<and>
     (byte a = 240 \<longrightarrow> 144 \<le> byte b) \<and> (byte a = 244 \<longrightarrow> byte b \<le> 143)"

fun rune_len :: "string \<Rightarrow> nat" where
  "rune_len [] = 0"
| "rune_len (a # s) =
     (if byte a < 128 then 1
      else if 194 \<le> byte a \<and> byte a \<le> 223 then (case s of b # _ \<Rightarrow> if cont b then 2 else 0 | _ \<Rightarrow> 0)
      else if 224 \<le> byte a \<and> byte a \<le> 239
      then (case s of b # c # _ \<Rightarrow> if second_ok a b \<and> cont c then 3 else 0 | _ \<Rightarrow> 0)
      else if 240 \<le> byte a \<and> byte a \<le> 244
      then (case s of b # c # d # _ \<Rightarrow> if second_ok a b \<and> cont c \<and> cont d then 4 else 0 | _ \<Rightarrow> 0)
      else 0)"

text \<open>A text read from the left: characters, and bytes that are no part of one.\<close>

datatype rune = Rune string | BadByte char

fun rune_bytes :: "rune \<Rightarrow> string" where
  "rune_bytes (Rune r) = r"
| "rune_bytes (BadByte c) = [c]"

function runes :: "string \<Rightarrow> rune list" where
  "runes [] = []"
| "runes (a # s) = (case rune_len (a # s) of
     0 \<Rightarrow> BadByte a # runes s
   | Suc n \<Rightarrow> Rune (a # take n s) # runes (drop n s))"
  by pat_completeness auto
termination by (relation "measure length") auto

fun good_rune :: "rune \<Rightarrow> bool" where
  "good_rune (Rune r) \<longleftrightarrow> r \<noteq> [] \<and> rune_len r = length r"
| "good_rune (BadByte c) \<longleftrightarrow> False"

definition utf8_valid :: "string \<Rightarrow> bool" where
  "utf8_valid s \<longleftrightarrow> list_all good_rune (runes s)"

text \<open>Bytes that are no character become U+FFFD.\<close>

fun fix_rune :: "rune \<Rightarrow> rune" where
  "fix_rune (Rune r) = Rune r"
| "fix_rune (BadByte c) = Rune [CHR 0xEF, CHR 0xBF, CHR 0xBD]"

definition to_valid :: "string \<Rightarrow> string" where
  "to_valid s = concat (map (rune_bytes \<circ> fix_rune) (runes s))"

lemma rune_len_le: "rune_len s \<le> length s"
  by (cases s) (auto split: list.split)

text \<open>The length of a character depends on its own bytes only.\<close>

lemma rune_len_take: "0 < rune_len s \<Longrightarrow> rune_len (take (rune_len s) s @ t) = rune_len s"
  by (cases s) (auto split: list.splits if_splits)

declare rune_len.simps(2) [simp del]

lemma runes_bytes: "concat (map rune_bytes (runes s)) = s"
  by (induction s rule: runes.induct) (auto split: nat.split)

lemma runes_inj: "runes s = runes t \<Longrightarrow> s = t"
  by (metis runes_bytes)

lemma runes_Cons: "0 < rune_len s \<Longrightarrow> runes s = Rune (take (rune_len s) s) # runes (drop (rune_len s) s)"
  by (cases s) (auto simp: gr0_conv_Suc)

lemma good_prefix:
  assumes "good_rune (Rune r)"
  shows "rune_len (r @ t) = length r"
  using rune_len_take [of r t] assms by simp

lemma runes_append:
  assumes "good_rune (Rune r)"
  shows "runes (r @ t) = Rune r # runes t"
  using assms good_prefix [OF assms, of t] by (simp add: runes_Cons)

lemma runes_shape: "x \<in> set (runes s) \<Longrightarrow> good_rune x \<or> (\<exists>c. x = BadByte c)"
proof (induction s rule: runes.induct)
  case (2 a s)
  show ?case
  proof (cases "rune_len (a # s)")
    case 0
    with 2 show ?thesis by auto
  next
    case (Suc n)
    have "rune_len (take (rune_len (a # s)) (a # s)) = Suc n" using rune_len_take [of "a # s" "[]"] Suc by simp
    then have "good_rune (Rune (a # take n s))" using rune_len_le [of "a # s"] Suc by simp
    with 2 Suc show ?thesis by (auto simp del: good_rune.simps)
  qed
qed simp

lemma runes_concat:
  "list_all good_rune rs \<Longrightarrow> runes (concat (map rune_bytes rs)) = rs"
proof (induction rs)
  case (Cons r rs)
  then show ?case by (cases r) (simp_all add: runes_append del: good_rune.simps(1))
qed simp

lemma good_replacement [simp]: "good_rune (Rune [CHR 0xEF, CHR 0xBF, CHR 0xBD])"
  by (simp add: rune_len.simps(2) byte_def cont_def second_ok_def)

lemma good_fix: "list_all good_rune (map fix_rune (runes s))"
proof -
  have "good_rune (fix_rune x)" if "x \<in> set (runes s)" for x
    using runes_shape [OF that] by (cases x) (auto simp del: good_rune.simps(1))
  then show ?thesis by (simp add: list_all_iff)
qed

lemma runes_to_valid: "runes (to_valid s) = map fix_rune (runes s)"
  using runes_concat [OF good_fix] by (simp add: to_valid_def)

lemma utf8_to_valid: "utf8_valid (to_valid s)"
  unfolding utf8_valid_def runes_to_valid by (rule good_fix)

lemma to_valid_id: "utf8_valid s \<Longrightarrow> to_valid s = s"
proof -
  assume "utf8_valid s"
  then have "map fix_rune (runes s) = runes s"
    by (intro map_idI) (metis good_rune.elims(1) fix_rune.simps(1) list_all_iff utf8_valid_def)
  then show ?thesis by (metis runes_to_valid runes_inj)
qed

text \<open>PostgreSQL stores text that is UTF-8 and has no zero byte.\<close>

definition text_ok :: "string \<Rightarrow> bool" where
  "text_ok s \<longleftrightarrow> utf8_valid s \<and> CHR 0x00 \<notin> set s"

section \<open>JSON strings\<close>

text \<open>\<^verbatim>\<open>json.Marshal\<close> of a string, with its escaping of HTML characters, of the two line separators
  JavaScript does not allow, and of what is not UTF-8.\<close>

definition backslash :: char where "backslash = CHR 0x5C"
definition quote :: char where "quote = CHR 0x22"

definition esc_ascii :: "char \<Rightarrow> string" where
  "esc_ascii c =
     (if c = quote \<or> c = backslash then [backslash, c]
      else if byte c = 8 then [backslash, CHR ''b'']
      else if byte c = 12 then [backslash, CHR ''f'']
      else if byte c = 10 then [backslash, CHR ''n'']
      else if byte c = 13 then [backslash, CHR ''r'']
      else if byte c = 9 then [backslash, CHR ''t'']
      else if byte c < 32 \<or> c = CHR ''<'' \<or> c = CHR ''>'' \<or> c = CHR ''&''
      then [backslash, CHR ''u'', CHR ''0'', CHR ''0''] @ hex_byte c
      else [c])"

fun esc_rune :: "rune \<Rightarrow> string" where
  "esc_rune (BadByte c) = backslash # ''ufffd''"
| "esc_rune (Rune r) = (case r of
     [c] \<Rightarrow> esc_ascii c
   | _ \<Rightarrow> if r = [CHR 0xE2, CHR 0x80, CHR 0xA8] then backslash # ''u2028''
         else if r = [CHR 0xE2, CHR 0x80, CHR 0xA9] then backslash # ''u2029''
         else r)"

definition json_string :: "string \<Rightarrow> string" where
  "json_string s = quote # concat (map esc_rune (runes s)) @ [quote]"

lemma esc_ascii_apart: "esc_ascii c @ x = esc_ascii d @ y \<Longrightarrow> c = d \<and> x = y"
proof -
  assume "esc_ascii c @ x = esc_ascii d @ y"
  moreover have "byte c = n \<Longrightarrow> byte d = n \<Longrightarrow> c = d" for n by (simp add: byte_inj [symmetric])
  ultimately show "c = d \<and> x = y"
    by (simp add: esc_ascii_def quote_def backslash_def split: if_splits) auto
qed

lemma esc_ascii_head:
  assumes "byte c < 128"
  obtains h s where "esc_ascii c = h # s" "byte h < 128" "h \<noteq> quote"
    "h = backslash \<Longrightarrow> \<exists>k t. s = k # t \<and> (k = CHR ''u'' \<longrightarrow> (\<exists>v. t = CHR ''0'' # CHR ''0'' # v))"
proof -
  have "\<exists>h s. esc_ascii c = h # s \<and> byte h < 128 \<and> h \<noteq> quote \<and>
    (h = backslash \<longrightarrow> (\<exists>k t. s = k # t \<and> (k = CHR ''u'' \<longrightarrow> (\<exists>v. t = CHR ''0'' # CHR ''0'' # v))))"
    using assms by (auto simp: esc_ascii_def quote_def backslash_def byte_def)
  then show ?thesis using that by blast
qed

lemma good_rune_cases:
  assumes "good_rune r"
  obtains c where "r = Rune [c]" "byte c < 128" | a s where "r = Rune (a # s)" "194 \<le> byte a" "s \<noteq> []" "rune_len (a # s) = Suc (length s)"
proof (cases r)
  case (Rune x)
  then obtain a s where x: "x = a # s" "rune_len (a # s) = Suc (length s)" using assms by (cases x) auto
  show ?thesis
  proof (cases "byte a < 128")
    case True
    then show ?thesis using that(1) Rune x by (simp add: rune_len.simps)
  next
    case False
    then have "194 \<le> byte a" "s \<noteq> []" using x(2) by (auto simp: rune_len.simps split: if_splits list.splits)
    then show ?thesis using that(2) Rune x by simp
  qed
qed (use assms in simp)

text \<open>A longer character is written as it is, but for the two separators.\<close>

definition separators :: "string set" where
  "separators = {[CHR 0xE2, CHR 0x80, CHR 0xA8], [CHR 0xE2, CHR 0x80, CHR 0xA9]}"

lemma esc_long:
  assumes "s \<noteq> []"
  shows "esc_rune (Rune (a # s)) = (if a # s \<in> separators then backslash # ''u202'' @ [if a # s = [CHR 0xE2, CHR 0x80, CHR 0xA8] then CHR ''8'' else CHR ''9''] else a # s)"
  using assms by (cases s) (auto simp: separators_def)

lemma esc_single: "esc_rune (Rune [c]) = esc_ascii c"
  by simp

interpretation json: prefix_code esc_rune good_rune "{quote}"
proof
  fix a b x y
  assume g: "good_rune a" "good_rune b" and e: "esc_rune a @ x = esc_rune b @ y"
  have short: "esc_ascii c @ u \<noteq> esc_rune (Rune (d # s)) @ v" if "byte c < 128" "194 \<le> byte d" "s \<noteq> []" for c d s u v
    using that(1) by (rule esc_ascii_head) (use that in \<open>auto simp: esc_long simp del: esc_rune.simps\<close>)
  have long: "d # s = d' # s' \<and> u = v" if "esc_rune (Rune (d # s)) @ u = esc_rune (Rune (d' # s')) @ v" "194 \<le> byte d" "194 \<le> byte d'"
    "s \<noteq> []" "s' \<noteq> []" "rune_len (d # s) = Suc (length s)" "rune_len (d' # s') = Suc (length s')" for d s d' s' u v
  proof -
    have g: "good_rune (Rune (d # s))" "good_rune (Rune (d' # s'))" using that(6,7) by simp_all
    have "194 \<le> byte backslash \<Longrightarrow> False" by (simp add: backslash_def byte_def)
    with that(1-5) have "(d # s \<in> separators) = (d' # s' \<in> separators)" by (auto simp: esc_long simp del: esc_rune.simps split: if_splits)
    then show ?thesis using that(1,4,5) good_prefix [OF g(1), of u] good_prefix [OF g(2), of v]
      by (auto simp: esc_long separators_def simp del: esc_rune.simps split: if_splits)
  qed
  show "a = b \<and> x = y"
    using g(1)
  proof (cases rule: good_rune_cases)
    case (1 c)
    note c = this
    show ?thesis using g(2)
    proof (cases rule: good_rune_cases)
      case (1 c')
      then show ?thesis using esc_ascii_apart [of c x c' y] e c by (simp only: esc_single)
    next
      case (2 d s)
      then show ?thesis using short [OF c(2) 2(2,3), of x y] e c by (simp only: esc_single)
    qed
  next
    case (2 d s)
    note d = this
    show ?thesis using g(2)
    proof (cases rule: good_rune_cases)
      case (1 c)
      then show ?thesis using short [OF 1(2) d(2,3)] e d by (simp only: esc_single) metis
    next
      case (2 d' s')
      then show ?thesis using long [of d s x d' s' y] e d by simp
    qed
  qed
next
  fix a assume "good_rune a"
  then show "\<exists>c s. esc_rune a = c # s \<and> c \<notin> {quote}"
  proof (cases rule: good_rune_cases)
    case (1 c)
    then show ?thesis by (elim esc_ascii_head [of c]) simp
  next
    case (2 d s)
    have "byte quote < 194" "backslash \<noteq> quote" by (simp_all add: quote_def backslash_def byte_def)
    with 2 show ?thesis by (auto simp: esc_long simp del: esc_rune.simps)
  qed
qed

lemma json_string_inj:
  assumes "utf8_valid s" "utf8_valid t" "json_string s @ x = json_string t @ y"
  shows "s = t \<and> x = y"
  using json.up_to_end [of "runes s" "runes t" quote quote x y] assms runes_inj
  by (simp add: utf8_valid_def json_string_def)

text \<open>Invalid bytes are escaped by the first writing and are a character at the second.\<close>

lemma json_string_repaired: "json_string (to_valid s) = json_string s \<Longrightarrow> utf8_valid s"
proof -
  assume "json_string (to_valid s) = json_string s"
  then have "concat (map esc_rune (map fix_rune (runes s))) = concat (map esc_rune (runes s))"
    by (simp add: json_string_def runes_to_valid)
  moreover have "list_all good_rune rs"
    if "concat (map esc_rune (map fix_rune rs)) = concat (map esc_rune rs)" "\<And>r. r \<in> set rs \<Longrightarrow> good_rune r \<or> (\<exists>c. r = BadByte c)" for rs
    using that
  proof (induction rs)
    case (Cons r rs)
    have "good_rune r"
    proof (rule ccontr)
      assume "\<not> good_rune r"
      then obtain c where "r = BadByte c" using Cons.prems(2) [of r] by auto
      then show False using Cons.prems(1) by (simp add: backslash_def)
    qed
    then show ?case using Cons by (cases r) auto
  qed simp
  ultimately show ?thesis using runes_shape unfolding utf8_valid_def by blast
qed

end
