(* ===== verification/Audit_Chain.thy ===== *)
theory Audit_Chain
  imports Go_Text Effects "HOL-Library.Multiset" "HOL-Library.List_Lexorder" "HOL-Library.Char_ord" "HOL-Library.Product_Lexorder"
begin

text \<open>
  The hash over an audit entry (\<^verbatim>\<open>internal/shared/audit/chain.go\<close>): the canonical text of a row and the
  hash of its predecessor. SHA-256 is a parameter. A Go map is an association list, in the order in
  which a \<^verbatim>\<open>range\<close> happens to visit it. Times are in microseconds.
\<close>

section \<open>The canonical text\<close>

record ChainInput =
  ci_id :: string
  ci_org :: string
  ci_user :: string
  ci_email :: string
  ci_action :: string
  ci_type :: string
  ci_resource :: string
  ci_name :: string
  ci_details :: "(string \<times> string) list"
  ci_ip :: string
  ci_created :: int

definition show_int :: "int \<Rightarrow> string" where
  "show_int i = (if i < 0 then CHR ''-'' # show_nat (nat (- i)) else show_nat (nat i))"

fun join :: "string \<Rightarrow> string list \<Rightarrow> string" where
  "join sep [] = []"
| "join sep [x] = x"
| "join sep (x # y # xs) = x @ sep @ join sep (y # xs)"

text \<open>The insertion sort of \<^verbatim>\<open>canonicalDetails\<close>: the inner loop moves one key down.\<close>

fun sink :: "nat \<Rightarrow> 'a::linorder list \<Rightarrow> 'a list" where
  "sink 0 xs = xs"
| "sink (Suc j) xs = (if xs ! j > xs ! Suc j then sink j (xs[j := xs ! Suc j, Suc j := xs ! j]) else xs)"

definition sort_keys :: "'a::linorder list \<Rightarrow> 'a list" where
  "sort_keys xs = fold sink [1..<length xs] xs"

definition kv :: "string \<Rightarrow> string \<Rightarrow> string" where
  "kv k v = ''{'' @ json_string ''k'' @ '':'' @ json_string k @ '','' @ json_string ''v'' @ '':'' @ json_string v @ ''}''"

definition canonicalDetails :: "(string \<times> string) list \<Rightarrow> string" where
  "canonicalDetails d =
     (if d = [] then ''''
      else ''['' @ join '','' (map (\<lambda>k. kv k (the (map_of d k))) (sort_keys (map fst d))) @ '']'')"

definition separator :: char where "separator = CHR ''|''"

definition esc_sep :: "char \<Rightarrow> string" where
  "esc_sep c = (if c = backslash then [backslash, backslash] else if c = separator then [backslash, separator] else [c])"

definition escapeSeparator :: "string \<Rightarrow> string" where
  "escapeSeparator s = (if \<not> (\<exists>c \<in> set s. c = backslash \<or> c = separator) then s else concat (map esc_sep s))"

definition bytes_of :: "string option \<Rightarrow> string" where
  "bytes_of b = (case b of None \<Rightarrow> '''' | Some s \<Rightarrow> s)"

definition chain_parts :: "string option \<Rightarrow> ChainInput \<Rightarrow> string list" where
  "chain_parts prev i = [hex (bytes_of prev), ci_id i, ci_org i, ci_user i, ci_email i, ci_action i, ci_type i, ci_resource i,
     ci_name i, canonicalDetails (ci_details i), ci_ip i, show_int (ci_created i)]"

definition canonicalString :: "string option \<Rightarrow> ChainInput \<Rightarrow> string" where
  "canonicalString prev i = join [separator] (map escapeSeparator (chain_parts prev i))"

definition EntryHash :: "(string \<Rightarrow> string) \<Rightarrow> string option \<Rightarrow> ChainInput \<Rightarrow> string" where
  "EntryHash sha prev i = sha (canonicalString prev i)"

section \<open>It can be read back\<close>

lemma sink_insort: "sorted p \<Longrightarrow> sink (length p) (p @ x # q) = insort x p @ q"
proof (induction p arbitrary: q rule: rev_induct)
  case (snoc y p)
  have s: "sorted p" "\<forall>z \<in> set p. z \<le> y" using snoc.prems by (auto simp: sorted_append)
  have ins: "insort x (p @ [y]) = (if x < y then insort x p @ [y] else p @ [y, x])"
  proof -
    have "sorted (if x < y then insort x p @ [y] else p @ [y, x])"
      using snoc.prems s by (auto simp: sorted_append sorted_insort set_insort_key)
    moreover have "mset (if x < y then insort x p @ [y] else p @ [y, x]) = mset (insort x (p @ [y]))" by simp
    ultimately have "sort (insort x (p @ [y])) = (if x < y then insort x p @ [y] else p @ [y, x])"
      by (intro properties_for_sort)
    moreover have "sorted (insort x (p @ [y]))" using snoc.prems by (simp add: sorted_insort)
    ultimately show ?thesis by (simp only: sorted_sort_id)
  qed
  have "sink (length (p @ [y])) ((p @ [y]) @ x # q) = (if y > x then sink (length p) (p @ x # y # q) else p @ y # x # q)"
    by (simp add: nth_append list_update_append)
  then show ?case using snoc.IH [OF s(1), of "y # q"] ins by simp
qed simp

lemma sort_keys_sort: "sort_keys xs = sort xs"
proof -
  have "fold sink [1..<Suc n] xs = sort (take (Suc n) xs) @ drop (Suc n) xs" if "n < length xs" for n
    using that
  proof (induction n)
    case 0
    then show ?case by (cases xs) simp_all
  next
    case (Suc n)
    let ?p = "sort (take (Suc n) xs)"
    have d: "drop (Suc n) xs = xs ! Suc n # drop (Suc (Suc n)) xs" using Suc.prems by (simp add: Cons_nth_drop_Suc)
    have "fold sink [1..<Suc (Suc n)] xs = sink (length ?p) (?p @ xs ! Suc n # drop (Suc (Suc n)) xs)"
      using Suc d by simp
    also have "\<dots> = insort (xs ! Suc n) ?p @ drop (Suc (Suc n)) xs" by (rule sink_insort) simp
    also have "insort (xs ! Suc n) ?p = sort (take (Suc (Suc n)) xs)"
      using Suc.prems by (intro properties_for_sort [symmetric]) (simp_all add: take_Suc_conv_app_nth sorted_insort)
    finally show ?case .
  qed
  from this [of "length xs - 1"] show ?thesis by (cases xs) (simp_all add: sort_keys_def)
qed

lemma escapeSeparator_eq: "escapeSeparator s = concat (map esc_sep s)"
proof -
  have "concat (map esc_sep s) = s" if "\<forall>c \<in> set s. c \<noteq> backslash \<and> c \<noteq> separator"
    using that by (induction s) (simp_all add: esc_sep_def)
  then show ?thesis by (auto simp: escapeSeparator_def)
qed

interpretation sep: prefix_code esc_sep "\<lambda>_. True" "{separator}"
  by unfold_locales (auto simp: esc_sep_def separator_def backslash_def split: if_splits)

lemma join_Cons: "xs \<noteq> [] \<Longrightarrow> join s (x # xs) = x @ s @ join s xs"
  by (cases xs) simp_all

lemma join_escaped:
  assumes "length ss = length ts" "ss \<noteq> []" "join [separator] (map escapeSeparator ss) = join [separator] (map escapeSeparator ts)"
  shows "ss = ts"
  using assms
proof (induction ss ts rule: list_induct2)
  case (Cons s ss t ts)
  show ?case
  proof (cases ss)
    case Nil
    then have "concat (map esc_sep s) = concat (map esc_sep t)" using Cons by (simp add: escapeSeparator_eq)
    with sep.whole [of s t] Nil Cons.hyps show ?thesis by (simp add: list_all_iff)
  next
    case (Cons x xs)
    then have "ss \<noteq> []" "ts \<noteq> []" using Cons.hyps by auto
    then have "concat (map esc_sep s) @ separator # join [separator] (map escapeSeparator ss)
        = concat (map esc_sep t) @ separator # join [separator] (map escapeSeparator ts)"
      using Cons.prems by (simp add: join_Cons escapeSeparator_eq [of s] escapeSeparator_eq [of t])
    from sep.up_to_end [OF _ _ _ _ this] have "s = t" "join [separator] (map escapeSeparator ss) = join [separator] (map escapeSeparator ts)"
      by (simp_all add: list_all_iff)
    with Cons.IH \<open>ss \<noteq> []\<close> show ?thesis by simp
  qed
qed simp

lemma kv_apart:
  assumes "utf8_valid k" "utf8_valid v" "utf8_valid k'" "utf8_valid v'" "kv k v @ x = kv k' v' @ y"
  shows "k = k' \<and> v = v' \<and> x = y"
proof -
  have "json_string k @ ('','' @ json_string ''v'' @ '':'' @ json_string v @ ''}'' @ x)
      = json_string k' @ ('','' @ json_string ''v'' @ '':'' @ json_string v' @ ''}'' @ y)"
    using assms(5) by (simp add: kv_def)
  from json_string_inj [OF assms(1,3) this] have k: "k = k'" "json_string v @ (''}'' @ x) = json_string v' @ (''}'' @ y)" by simp_all
  from json_string_inj [OF assms(2,4) k(2)] k(1) show ?thesis by simp
qed

definition details_valid :: "(string \<times> string) list \<Rightarrow> bool" where
  "details_valid d \<longleftrightarrow> list_all (\<lambda>(k, v). utf8_valid k \<and> utf8_valid v) d"

lemma join_kv:
  assumes "details_valid ps" "details_valid qs" "ps \<noteq> []" "qs \<noteq> []"
    and "join '','' (map (\<lambda>(k, v). kv k v) ps) @ '']'' = join '','' (map (\<lambda>(k, v). kv k v) qs) @ '']''"
  shows "ps = qs"
  using assms
proof (induction ps arbitrary: qs)
  case (Cons p ps)
  obtain k v where p: "p = (k, v)" by fastforce
  obtain k' v' qs' where q: "qs = (k', v') # qs'" using Cons.prems(4) by (cases qs) auto
  let ?rest = "\<lambda>r. (if r = [] then '']'' else '','' @ join '','' (map (\<lambda>(k, v). kv k v) r) @ '']'')"
  have ok: "utf8_valid k" "utf8_valid v" "utf8_valid k'" "utf8_valid v'" "details_valid ps" "details_valid qs'"
    using Cons.prems(1,2) p q by (simp_all add: details_valid_def)
  have "kv k v @ ?rest ps = kv k' v' @ ?rest qs'"
    using Cons.prems(5) p q by (auto simp: join_Cons)
  from kv_apart [OF ok(1-4) this] have "k = k'" "v = v'" "?rest ps = ?rest qs'" by simp_all
  then show ?case using Cons.IH [OF ok(5,6)] p q by (auto split: if_splits)
qed simp

definition sorted_pairs :: "(string \<times> string) list \<Rightarrow> (string \<times> string) list" where
  "sorted_pairs d = map (\<lambda>k. (k, the (map_of d k))) (sort (map fst d))"

lemma canonicalDetails_pairs:
  "canonicalDetails d = (if d = [] then '''' else ''['' @ join '','' (map (\<lambda>(k, v). kv k v) (sorted_pairs d)) @ '']'')"
  by (simp add: canonicalDetails_def sorted_pairs_def sort_keys_sort comp_def)

lemma map_of_sorted_pairs: "map_of (sorted_pairs d) = map_of d"
proof
  fix k
  have "map_of (map (\<lambda>k. (k, the (map_of d k))) ks) k = (if k \<in> set ks then Some (the (map_of d k)) else None)" for ks
    by (induction ks) auto
  then have p: "map_of (sorted_pairs d) k = (if k \<in> fst ` set d then Some (the (map_of d k)) else None)"
    by (simp add: sorted_pairs_def)
  show "map_of (sorted_pairs d) k = map_of d k"
  proof (cases "map_of d k")
    case None
    then have "k \<notin> fst ` set d" by (simp add: map_of_eq_None_iff)
    then show ?thesis using p None by simp
  next
    case (Some v)
    then have "k \<in> fst ` set d" by (metis map_of_eq_None_iff option.distinct(1))
    then show ?thesis using p Some by simp
  qed
qed

lemma sorted_pairs_Nil [simp]: "sorted_pairs d = [] \<longleftrightarrow> d = []"
proof -
  have "length (sorted_pairs d) = length d" by (simp add: sorted_pairs_def)
  then show ?thesis by (metis length_0_conv)
qed

lemma sorted_pairs_valid: "details_valid d \<Longrightarrow> details_valid (sorted_pairs d)"
proof -
  assume d: "details_valid d"
  have "utf8_valid k \<and> utf8_valid (the (map_of d k))" if "k \<in> fst ` set d" for k
  proof -
    from that have "map_of d k \<noteq> None" by (simp add: map_of_eq_None_iff)
    then obtain v where v: "map_of d k = Some v" by blast
    then have "(k, v) \<in> set d" by (rule map_of_SomeD)
    then show ?thesis using d v by (auto simp: details_valid_def list_all_iff)
  qed
  then show ?thesis by (auto simp: details_valid_def sorted_pairs_def list_all_iff)
qed

lemma sorted_pairs_map:
  assumes "map_of d = map_of e" "distinct (map fst d)" "distinct (map fst e)"
  shows "sorted_pairs d = sorted_pairs e"
proof -
  have "set (map fst d) = set (map fst e)" using arg_cong [OF assms(1), of dom] by (simp add: dom_map_of_conv_image_fst)
  with assms(2,3) have "sort (map fst d) = sort (map fst e)"
    using sorted_distinct_set_unique [of "sort (map fst d)" "sort (map fst e)"] by simp
  then show ?thesis by (simp add: sorted_pairs_def assms(1))
qed

lemma canonicalDetails_iff:
  assumes "details_valid d" "details_valid e" "distinct (map fst d)" "distinct (map fst e)"
  shows "canonicalDetails d = canonicalDetails e \<longleftrightarrow> map_of d = map_of e"
proof
  have empty: "d = []" if "map_of d = map_of ([] :: (string \<times> string) list)" for d :: "(string \<times> string) list"
    using that by (simp add: map_of_eq_empty_iff)
  assume c: "canonicalDetails d = canonicalDetails e"
  show "map_of d = map_of e"
  proof (cases "d = [] \<or> e = []")
    case True
    with c show ?thesis by (auto simp: canonicalDetails_pairs split: if_splits)
  next
    case False
    then have "sorted_pairs d = sorted_pairs e"
      using c assms by (intro join_kv sorted_pairs_valid) (auto simp: canonicalDetails_pairs)
    then show ?thesis using map_of_sorted_pairs by metis
  qed
next
  assume m: "map_of d = map_of e"
  then have "d = [] \<longleftrightarrow> e = []" using map_of_eq_empty_iff [of d] map_of_eq_empty_iff [of e] by auto
  then show "canonicalDetails d = canonicalDetails e"
    using sorted_pairs_map [OF m assms(3,4)] by (simp add: canonicalDetails_pairs)
qed

lemma digit_not_minus: "d < 10 \<Longrightarrow> digit d \<noteq> CHR ''-''"
proof
  assume d: "d < 10" "digit d = CHR ''-''"
  have "(of_char (digit d) :: nat) = 48 + d" using d(1) by (simp add: digit_def of_char_of)
  then show False unfolding d(2) by simp
qed

lemma show_nat_no_minus: "CHR ''-'' \<notin> set (show_nat n)"
proof (induction n rule: show_nat.induct)
  case (1 n)
  have "digit (n mod 10) \<noteq> CHR ''-''" "n < 10 \<Longrightarrow> digit n \<noteq> CHR ''-''" by (auto intro!: digit_not_minus)
  then show ?case using 1 by (subst show_nat.simps) (auto simp: eq_commute)
qed

lemma show_int_inj: "show_int i = show_int j \<longleftrightarrow> i = j"
proof
  have no: "CHR ''-'' # s \<noteq> show_nat n" for s n
    by (metis list.set_intros(1) show_nat_no_minus)
  assume "show_int i = show_int j"
  then have "(i < 0 \<longleftrightarrow> j < 0) \<and> show_nat (nat \<bar>i\<bar>) = show_nat (nat \<bar>j\<bar>)"
    using no no [symmetric] by (simp add: show_int_def split: if_splits)
  then show "i = j" using show_nat_inj [of "nat \<bar>i\<bar>" "nat \<bar>j\<bar>"] by auto
qed simp

lemma canonical_parts: "canonicalString p a = canonicalString q b \<longleftrightarrow> chain_parts p a = chain_parts q b"
  using join_escaped [of "chain_parts p a" "chain_parts q b"] by (auto simp: canonicalString_def chain_parts_def)

lemma canonical_same:
  assumes "details_valid (ci_details a)" "details_valid (ci_details b)" "distinct (map fst (ci_details a))" "distinct (map fst (ci_details b))"
  shows "canonicalString p a = canonicalString q b \<longleftrightarrow> bytes_of p = bytes_of q \<and> map_of (ci_details a) = map_of (ci_details b) \<and>
    a\<lparr>ci_details := []\<rparr> = b\<lparr>ci_details := []\<rparr>"
  unfolding canonical_parts chain_parts_def using canonicalDetails_iff [OF assms]
  by (cases a; cases b) (auto simp: hex_inj show_int_inj)

text \<open>C37: the canonical text decides the entry. For details in UTF-8, the texts of two entries are equal
  exactly if the predecessors' hashes are equal and every field is, the details as a map: whatever separators,
  quotes or backslashes the fields contain, no two entries share a text, and the order in which a
  map is visited does not matter.\<close>

theorem canonical_decides:
  assumes "details_valid (ci_details a)" "details_valid (ci_details b)" "distinct (map fst (ci_details a))" "distinct (map fst (ci_details b))"
  shows "canonicalString p a = canonicalString q b \<longleftrightarrow> bytes_of p = bytes_of q \<and> map_of (ci_details a) = map_of (ci_details b) \<and>
    a\<lparr>ci_details := []\<rparr> = b\<lparr>ci_details := []\<rparr>"
  using assms by (rule canonical_same)

definition sample_entry :: ChainInput where
  "sample_entry = \<lparr>ci_id = ''7'', ci_org = ''o'', ci_user = '''', ci_email = '''', ci_action = ''a|b'', ci_type = ''risk'', ci_resource = '''',
     ci_name = '''', ci_details = [(''to'', ''x''), (''by'', ''y'')], ci_ip = '''', ci_created = 5\<rparr>"

theorem canonical_decides_witness:
  "canonicalString None sample_entry = canonicalString None (sample_entry\<lparr>ci_details := [(''by'', ''y''), (''to'', ''x'')]\<rparr>) \<and>
   canonicalString None sample_entry \<noteq> canonicalString None (sample_entry\<lparr>ci_action := ''a'', ci_type := ''b|risk''\<rparr>)"
proof -
  have v: "details_valid [(''to'', ''x''), (''by'', ''y'')]" "details_valid [(''by'', ''y''), (''to'', ''x'')]" by code_simp+
  show ?thesis using v
    canonical_decides [of sample_entry "sample_entry\<lparr>ci_details := [(''by'', ''y''), (''to'', ''x'')]\<rparr>" None None]
    canonical_decides [of sample_entry "sample_entry\<lparr>ci_action := ''a'', ci_type := ''b|risk''\<rparr>" None None]
    by (auto simp: sample_entry_def)
qed

end
