(* ===== verification/Audit_Log.thy ===== *)
theory Audit_Log
  imports Audit_Chain Go_Time "HOL-Library.AList"
begin

text \<open>
  The audit log of an installation (\<^verbatim>\<open>internal/shared/audit\<close>): the writer that extends an
  organisation's hash chain (\<^verbatim>\<open>writer.go\<close>), the direct insert (\<^verbatim>\<open>audit.go\<close>), the verifier (\<^verbatim>\<open>verify.go\<close>),
  the yearly partitions (\<^verbatim>\<open>partitions.go\<close>) and the soft deletion of old entries (\<^verbatim>\<open>shared/retention\<close>).
  The clock counts microseconds here, the precision of the column and of the hash.
\<close>

section \<open>The table\<close>

text \<open>A JSONB value: an object of strings, which is what the writer stores, or anything else.\<close>

datatype jsonb = Object "(string \<times> string) list" | OtherJson string

record audit_row =
  ar_id :: string
  ar_org :: string
  ar_user :: "string option"
  ar_email :: "string option"
  ar_action :: string
  ar_type :: string
  ar_resource :: "string option"
  ar_name :: "string option"
  ar_details :: "jsonb option"
  ar_ip :: "string option"
  ar_created :: int
  ar_prev :: "string option"
  ar_hash :: "string option"
  ar_deleted :: "int option"

record WriteEntry =
  we_org :: string
  we_user :: string
  we_email :: string
  we_action :: string
  we_type :: string
  we_resource :: string
  we_name :: string
  we_details :: "(string \<times> string) list"
  we_ip :: string
  we_created :: "int option"      \<comment> \<open>\<^term>\<open>None\<close>: the zero time\<close>

record audit_db = effects +
  audit_log :: "audit_row list"
  partitions :: "int list"        \<comment> \<open>the years with a partition of their own\<close>
  forwarded :: "WriteEntry list"

text \<open>What is outside the repository: SHA-256, the random UUIDs, PostgreSQL's reading of a UUID (and its
  canonical text), what \<^verbatim>\<open>json.Unmarshal\<close> leaves in the map of a value that is no object of strings;
  and whether there is a database and a forwarder.\<close>

record audit_env =
  au_sha :: "string \<Rightarrow> string"
  au_uuid :: "nat \<Rightarrow> string"
  au_canon :: "string \<Rightarrow> string option"
  au_partial :: "string \<Rightarrow> (string \<times> string) list"
  au_db :: bool
  au_forward :: bool

definition toNullableString :: "string \<Rightarrow> string option" where
  "toNullableString s = (if s = '''' then None else Some s)"

definition coalesce :: "string option \<Rightarrow> string" where
  "coalesce s = (case s of None \<Rightarrow> '''' | Some x \<Rightarrow> x)"

text \<open>\<^verbatim>\<open>json.Marshal\<close> of the map and the JSONB column: keys in order, invalid bytes repaired, a later
  duplicate replaces an earlier one.\<close>

definition jsonb_of :: "(string \<times> string) list \<Rightarrow> (string \<times> string) list" where
  "jsonb_of d = fold (\<lambda>(k, v). AList.update (to_valid k) (to_valid v)) (sorted_pairs d) []"

definition row_ok :: "audit_row \<Rightarrow> audit_row list \<Rightarrow> bool" where
  "row_ok r log \<longleftrightarrow> (ar_id r, ar_created r) \<notin> (\<lambda>r. (ar_id r, ar_created r)) ` set log \<and>
     text_ok (ar_action r) \<and> text_ok (ar_type r) \<and> text_ok (coalesce (ar_email r)) \<and> text_ok (coalesce (ar_resource r)) \<and>
     text_ok (coalesce (ar_name r)) \<and> text_ok (coalesce (ar_ip r)) \<and>
     (case ar_details r of Some (Object d) \<Rightarrow> list_all (\<lambda>(k, v). text_ok k \<and> text_ok v) d | _ \<Rightarrow> True)"

section \<open>Writing\<close>

definition position :: "audit_row \<Rightarrow> int \<times> string" where
  "position r = (ar_created r, ar_id r)"

definition org_rows :: "string \<Rightarrow> audit_row list \<Rightarrow> audit_row list" where
  "org_rows org log = sort_key position (filter (\<lambda>r. ar_org r = org) log)"

definition chained :: "audit_row list \<Rightarrow> audit_row list" where
  "chained rows = filter (\<lambda>r. ar_hash r \<noteq> None) rows"

text \<open>The newest chained row of the organisation, \<^verbatim>\<open>ORDER BY created_at DESC, id DESC LIMIT 1\<close>.\<close>

definition tail_hash :: "string \<Rightarrow> audit_row list \<Rightarrow> string option" where
  "tail_hash org log = (case rev (chained (org_rows org log)) of [] \<Rightarrow> None | r # _ \<Rightarrow> ar_hash r)"

definition read_tail :: "audit_env \<Rightarrow> string \<Rightarrow> (audit_db, string option option) state" where
  "read_tail E org = do {
     ok \<leftarrow> attempt;
     log \<leftarrow> gets audit_log;
     State_Monad.return (if \<not> ok then None else map_option (\<lambda>o'. tail_hash o' log) (au_canon E org)) }"

definition chain_input :: "WriteEntry \<Rightarrow> string \<Rightarrow> int \<Rightarrow> ChainInput" where
  "chain_input e id' t = \<lparr>ci_id = id', ci_org = we_org e, ci_user = we_user e, ci_email = we_email e, ci_action = we_action e,
     ci_type = we_type e, ci_resource = we_resource e, ci_name = we_name e, ci_details = we_details e, ci_ip = we_ip e, ci_created = t\<rparr>"

text \<open>The row of the insert; none when the organisation or the user is no UUID.\<close>

definition entry_row :: "audit_env \<Rightarrow> WriteEntry \<Rightarrow> string option \<Rightarrow> string \<Rightarrow> int \<Rightarrow> audit_row option" where
  "entry_row E e prev id' t =
     (case (au_canon E (we_org e), if we_user e = '''' then Some None else map_option Some (au_canon E (we_user e))) of
        (Some org, Some user) \<Rightarrow> Some \<lparr>ar_id = id', ar_org = org, ar_user = user, ar_email = toNullableString (we_email e),
          ar_action = we_action e, ar_type = we_type e, ar_resource = toNullableString (we_resource e),
          ar_name = toNullableString (we_name e),
          ar_details = (if we_details e = [] then None else Some (Object (jsonb_of (we_details e)))),
          ar_ip = toNullableString (we_ip e), ar_created = t, ar_prev = prev,
          ar_hash = Some (EntryHash (au_sha E) prev (chain_input e id' t)), ar_deleted = None\<rparr>
      | _ \<Rightarrow> None)"

text \<open>The half of the transaction after the tail was read; the row is there once it is committed.\<close>

definition extend_chain :: "audit_env \<Rightarrow> WriteEntry \<Rightarrow> string option \<Rightarrow> (audit_db, unit) state" where
  "extend_chain E e prev = do {
     id' \<leftarrow> draw (au_uuid E);
     clock \<leftarrow> gets now;
     let t = (case we_created e of None \<Rightarrow> clock | Some c \<Rightarrow> c);
     inserted \<leftarrow> attempt;
     log \<leftarrow> gets audit_log;
     (case entry_row E e prev id' t of
        None \<Rightarrow> skip
      | Some r \<Rightarrow>
          if \<not> inserted \<or> \<not> row_ok r log then skip
          else do {
            ok \<leftarrow> exec (\<lambda>s. s\<lparr>audit_log := audit_log s @ [r]\<rparr>);
            if ok \<and> au_forward E then modify (\<lambda>s. s\<lparr>forwarded := forwarded s @ [e]\<rparr>) else skip }) }"

definition Write :: "audit_env \<Rightarrow> WriteEntry \<Rightarrow> (audit_db, unit) state" where
  "Write E e =
     (if \<not> au_db E then skip
      else do {
        begun \<leftarrow> attempt;
        if \<not> begun then skip
        else do {
          tl \<leftarrow> read_tail E (we_org e);
          (case tl of None \<Rightarrow> skip | Some prev \<Rightarrow> extend_chain E e prev) } })"

text \<open>The direct insert leaves both hash columns NULL; its details are any JSON, user agent and status are
  not stored.\<close>

record Entry =
  en_org :: string
  en_user :: string
  en_action :: string
  en_type :: string
  en_resource :: string
  en_ip :: string
  en_agent :: string
  en_status :: int
  en_details :: "jsonb option"

definition Log :: "audit_env \<Rightarrow> Entry \<Rightarrow> (audit_db, bool) state" where
  "Log E e = do {
     id' \<leftarrow> draw (au_uuid E);
     t \<leftarrow> gets now;
     log \<leftarrow> gets audit_log;
     (case (au_canon E (en_org e), if en_user e = '''' then Some None else map_option Some (au_canon E (en_user e))) of
        (Some org, Some user) \<Rightarrow>
          (let r = \<lparr>ar_id = id', ar_org = org, ar_user = user, ar_email = None, ar_action = en_action e, ar_type = en_type e,
             ar_resource = toNullableString (en_resource e), ar_name = None, ar_details = en_details e,
             ar_ip = toNullableString (en_ip e), ar_created = t, ar_prev = None, ar_hash = None, ar_deleted = None\<rparr>
           in if row_ok r log then exec (\<lambda>s. s\<lparr>audit_log := audit_log s @ [r]\<rparr>) else State_Monad.return False)
      | _ \<Rightarrow> State_Monad.return False) }"

section \<open>Verifying\<close>

datatype chain_status = ChainIntact | ChainUnverifiable | ChainBroken

record chain_result =
  cr_status :: chain_status
  cr_bad :: string
  cr_verified :: nat
  cr_unverifiable :: nat
  cr_total :: nat

definition FullyVerified :: "chain_result \<Rightarrow> bool" where
  "FullyVerified r \<longleftrightarrow> cr_status r = ChainIntact"

definition broken :: "chain_result \<Rightarrow> string \<Rightarrow> chain_result" where
  "broken res bad = res\<lparr>cr_status := ChainBroken, cr_bad := bad\<rparr>"

definition row_input :: "audit_env \<Rightarrow> string \<Rightarrow> audit_row \<Rightarrow> ChainInput" where
  "row_input E org r = \<lparr>ci_id = ar_id r, ci_org = org, ci_user = coalesce (ar_user r), ci_email = coalesce (ar_email r),
     ci_action = ar_action r, ci_type = ar_type r, ci_resource = coalesce (ar_resource r), ci_name = coalesce (ar_name r),
     ci_details = (case ar_details r of None \<Rightarrow> [] | Some (Object d) \<Rightarrow> d | Some (OtherJson j) \<Rightarrow> au_partial E j),
     ci_ip = coalesce (ar_ip r), ci_created = ar_created r\<rparr>"

text \<open>The loop: \<open>expected\<close> is the entry hash of the row before, once the chain has started.\<close>

fun replay :: "audit_env \<Rightarrow> string \<Rightarrow> string option \<Rightarrow> bool \<Rightarrow> chain_result \<Rightarrow> audit_row list \<Rightarrow> chain_result" where
  "replay E org expected started res [] =
     (if cr_unverifiable res > 0 then res\<lparr>cr_status := ChainUnverifiable\<rparr> else res)"
| "replay E org expected started res (r # rs) =
     (let res = res\<lparr>cr_total := Suc (cr_total res)\<rparr> in
      case ar_hash r of
        None \<Rightarrow> replay E org expected started (res\<lparr>cr_unverifiable := Suc (cr_unverifiable res)\<rparr>) rs
      | Some h \<Rightarrow>
          if \<not> started \<and> ar_prev r \<noteq> None then broken res (ar_id r)
          else if started \<and> bytes_of (ar_prev r) \<noteq> bytes_of expected then broken res (ar_id r)
          else if EntryHash (au_sha E) (ar_prev r) (row_input E org r) \<noteq> h then broken res (ar_id r)
          else replay E org (Some h) True (res\<lparr>cr_verified := Suc (cr_verified res)\<rparr>) rs)"

definition no_result :: chain_result where
  "no_result = \<lparr>cr_status = ChainIntact, cr_bad = '''', cr_verified = 0, cr_unverifiable = 0, cr_total = 0\<rparr>"

definition replay_all :: "audit_env \<Rightarrow> string \<Rightarrow> audit_row list \<Rightarrow> chain_result" where
  "replay_all E org rows = replay E org None False no_result rows"

text \<open>An error of the query or of the transmission is an error, unless a break was found before.\<close>

definition VerifyOrgChain :: "audit_env \<Rightarrow> string \<Rightarrow> (audit_db, chain_result option) state" where
  "VerifyOrgChain E org = do {
     ok \<leftarrow> attempt;
     log \<leftarrow> gets audit_log;
     (case (if ok then au_canon E org else None) of
        None \<Rightarrow> State_Monad.return None
      | Some o' \<Rightarrow> do {
          done' \<leftarrow> attempt;
          n \<leftarrow> draw (\<lambda>n. n);
          let rows = org_rows o' log;
          let res = replay_all E org (if done' then rows else take n rows);
          State_Monad.return (if done' \<or> cr_status res = ChainBroken then Some res else None) }) }"

section \<open>Retention\<close>

definition micros :: int where "micros = 1000000"

definition row_year :: "audit_row \<Rightarrow> int" where
  "row_year r = year_of (day_of (ar_created r div micros))"

text \<open>A new partition is refused while the default partition holds rows of its year.\<close>

definition ensureYearPartition :: "int \<Rightarrow> (audit_db, bool) state" where
  "ensureYearPartition y = do {
     asked \<leftarrow> attempt;
     ps \<leftarrow> gets partitions;
     log \<leftarrow> gets audit_log;
     if \<not> asked then State_Monad.return False
     else if y \<in> set ps then State_Monad.return True
     else if \<exists>r \<in> set log. row_year r = y then State_Monad.return False
     else exec (\<lambda>s. s\<lparr>partitions := partitions s @ [y]\<rparr>) }"

definition drop_partition :: "int \<Rightarrow> (audit_db, bool) state" where
  "drop_partition y = do {
     detached \<leftarrow> exec (\<lambda>s. s\<lparr>partitions := filter (\<lambda>x. x \<noteq> y) (partitions s),
       audit_log := filter (\<lambda>r. row_year r \<noteq> y) (audit_log s)\<rparr>);
     if \<not> detached then State_Monad.return False else attempt }"

fun all_of :: "('a \<Rightarrow> ('s, bool) state) \<Rightarrow> 'a list \<Rightarrow> ('s, bool) state" where
  "all_of f [] = State_Monad.return True"
| "all_of f (x # xs) = do { ok \<leftarrow> f x; if ok then all_of f xs else State_Monad.return False }"

text \<open>Names have four digits.\<close>

definition dropPartitionsBefore :: "int \<Rightarrow> (audit_db, bool) state" where
  "dropPartitionsBefore cutoff = do {
     ok \<leftarrow> attempt;
     ps \<leftarrow> gets partitions;
     if \<not> ok then State_Monad.return False
     else all_of drop_partition (filter (\<lambda>y. 0 \<le> y \<and> y \<le> 9999 \<and> y < cutoff) ps) }"

definition MaintainPartitions :: "int \<Rightarrow> (audit_db, bool) state" where
  "MaintainPartitions retentionYears = do {
     t \<leftarrow> gets now;
     let thisYear = year_of (day_of (t div micros));
     ok \<leftarrow> all_of ensureYearPartition [thisYear, thisYear + 1, thisYear + 2];
     if \<not> ok then State_Monad.return False
     else if retentionYears > 0 then dropPartitionsBefore (thisYear - retentionYears)
     else State_Monad.return True }"

text \<open>The soft deletion of \<^verbatim>\<open>RunRetention\<close>, for an organisation's number of days.\<close>

definition soft_delete :: "string \<Rightarrow> int \<Rightarrow> (audit_db, bool) state" where
  "soft_delete org days =
     (if days > 0
      then exec (\<lambda>s. s\<lparr>audit_log := update_where
        (\<lambda>r. ar_org r = org \<and> ar_created r < now s - days * 24 * 3600 * micros \<and> ar_deleted r = None)
        (\<lambda>r. r\<lparr>ar_deleted := Some (now s)\<rparr>) (audit_log s)\<rparr>)
      else State_Monad.return True)"

end
