(* ===== verification/Audit_Integrity.thy ===== *)
theory Audit_Integrity
  imports Audit_Log
begin

text \<open>
  What the chain of the audit log promises. \<open>linked\<close> says of the chained rows of an organisation
  that each one carries the hash of its predecessor and its own hash; the replay of \<^verbatim>\<open>VerifyOrgChain\<close>
  decides exactly that. The operations of \<^verbatim>\<open>Audit_Log\<close> as a machine keep it; two tables
  that end in the same hash hold the same entries; dropping the oldest partition breaks it.
\<close>

section \<open>Linked rows\<close>

definition follows :: "string option \<Rightarrow> bool \<Rightarrow> audit_row \<Rightarrow> bool" where
  "follows expected started r \<longleftrightarrow> (if started then bytes_of (ar_prev r) = bytes_of expected else ar_prev r = None)"

fun linked :: "audit_env \<Rightarrow> string \<Rightarrow> string option \<Rightarrow> bool \<Rightarrow> audit_row list \<Rightarrow> bool" where
  "linked E org expected started [] = True"
| "linked E org expected started (r # rs) \<longleftrightarrow> follows expected started r \<and>
     ar_hash r = Some (EntryHash (au_sha E) (ar_prev r) (row_input E org r)) \<and> linked E org (ar_hash r) True rs"

abbreviation chain_of :: "string \<Rightarrow> audit_row list \<Rightarrow> audit_row list" where
  "chain_of org log \<equiv> chained (org_rows org log)"

text \<open>The verdict on rows that are linked, with its counts.\<close>

definition verdict :: "chain_result \<Rightarrow> audit_row list \<Rightarrow> chain_result" where
  "verdict res rows = (let u = cr_unverifiable res + count_where (\<lambda>r. ar_hash r = None) rows in
     res\<lparr>cr_status := (if u > 0 then ChainUnverifiable else cr_status res),
       cr_verified := cr_verified res + length (chained rows), cr_unverifiable := u, cr_total := cr_total res + length rows\<rparr>)"

lemma chained_simps [simp]:
  "chained [] = []"
  "chained (r # rs) = (if ar_hash r = None then chained rs else r # chained rs)"
  "chained (xs @ ys) = chained xs @ chained ys"
  by (simp_all add: chained_def)

lemma replay_linked:
  "linked E org expected started (chained rows) \<Longrightarrow> replay E org expected started res rows = verdict res rows"
proof (induction rows arbitrary: expected started res)
  case Nil
  then show ?case by (cases res) (simp add: verdict_def count_where_def Let_def)
next
  case (Cons r rs)
  show ?case
  proof (cases "ar_hash r")
    case None
    with Cons.prems have "linked E org expected started (chained rs)" by simp
    from Cons.IH [OF this] None show ?thesis by (simp add: verdict_def count_where_def Let_def)
  next
    case (Some h)
    with Cons.prems have "follows expected started r" "h = EntryHash (au_sha E) (ar_prev r) (row_input E org r)"
      "linked E org (Some h) True (chained rs)" by auto
    with Cons.IH [OF this(3)] Some show ?thesis
      by (auto simp: verdict_def count_where_def Let_def follows_def split: if_splits)
  qed
qed

lemma replay_broken:
  "\<not> linked E org expected started (chained rows) \<Longrightarrow> cr_status (replay E org expected started res rows) = ChainBroken"
proof (induction rows arbitrary: expected started res)
  case (Cons r rs)
  then show ?case by (cases "ar_hash r") (auto simp: broken_def Let_def follows_def split: if_splits)
qed simp

lemma replay_all_status:
  "cr_status (replay_all E org rows) = ChainBroken \<longleftrightarrow> \<not> linked E org None False (chained rows)"
proof (cases "linked E org None False (chained rows)")
  case True
  from replay_linked [OF this] show ?thesis using True by (simp add: replay_all_def verdict_def no_result_def Let_def)
next
  case False
  then show ?thesis by (simp add: replay_all_def replay_broken)
qed

lemma linked_append:
  "linked E org expected started (xs @ ys) \<longleftrightarrow> linked E org expected started xs \<and>
     linked E org (if xs = [] then expected else ar_hash (last xs)) (started \<or> xs \<noteq> []) ys"
  by (induction xs arbitrary: expected started) auto

lemma linked_take: "linked E org expected started (chained rows) \<Longrightarrow> linked E org expected started (chained (take n rows))"
proof -
  have "chained rows = chained (take n rows) @ chained (drop n rows)" by (simp flip: chained_simps(3))
  then show "linked E org expected started (chained rows) \<Longrightarrow> ?thesis" by (simp add: linked_append)
qed

lemma linked_map:
  assumes "\<And>r. ar_prev (f r) = ar_prev r" "\<And>r. ar_hash (f r) = ar_hash r" "\<And>r. row_input E org (f r) = row_input E org r"
  shows "linked E org expected started (map f rows) \<longleftrightarrow> linked E org expected started rows"
  by (induction rows arbitrary: expected started) (simp_all add: follows_def assms)

section \<open>The order of the rows\<close>

lemma insort_key_last: "\<forall>y \<in> set ys. f y \<le> f x \<Longrightarrow> f a \<le> f x \<Longrightarrow> insort_key f a (ys @ [x]) = insort_key f a ys @ [x]"
  by (induction ys) auto

lemma sort_key_last: "\<forall>y \<in> set ys. f y < f x \<Longrightarrow> sort_key f (ys @ [x]) = sort_key f ys @ [x]"
  by (induction ys) (auto simp: insort_key_last less_imp_le)

lemma insort_key_map: "(\<And>x. f (g x) = f x) \<Longrightarrow> insort_key f (g a) (map g xs) = map g (insort_key f a xs)"
  by (induction xs) simp_all

lemma sort_key_map: "(\<And>x. f (g x) = f x) \<Longrightarrow> sort_key f (map g xs) = map g (sort_key f xs)"
  by (induction xs) (simp_all add: insort_key_map)

lemma chain_of_alt: "chain_of org log = sort_key position (filter (\<lambda>r. ar_org r = org \<and> ar_hash r \<noteq> None) log)"
  by (simp add: chained_def org_rows_def filter_sort conj_commute)

lemma set_chain_of: "set (chain_of org log) = {r \<in> set log. ar_org r = org \<and> ar_hash r \<noteq> None}"
  by (auto simp: chain_of_alt)

lemma chain_of_snoc:
  assumes "\<forall>x \<in> set (chain_of (ar_org r) log). ar_created x < ar_created r"
  shows "chain_of org (log @ [r]) = (if ar_org r = org \<and> ar_hash r \<noteq> None then chain_of org log @ [r] else chain_of org log)"
proof -
  have "\<forall>x \<in> set (filter (\<lambda>x. ar_org x = ar_org r \<and> ar_hash x \<noteq> None) log). position x < position r"
    using assms by (auto simp: set_chain_of position_def less_prod_def)
  from sort_key_last [OF this] show ?thesis by (auto simp: chain_of_alt)
qed

lemma chain_of_unchained: "ar_hash r = None \<Longrightarrow> chain_of org (log @ [r]) = chain_of org log"
  by (simp add: chain_of_alt)

lemma chain_of_update_where:
  assumes "\<And>r. position (f r) = position r" "\<And>r. ar_org (f r) = ar_org r" "\<And>r. ar_hash (f r) = ar_hash r"
  shows "chain_of org (update_where p f log) = map (\<lambda>r. if p r then f r else r) (chain_of org log)"
proof -
  let ?g = "\<lambda>r. if p r then f r else r"
  have "position (?g r) = position r" for r using assms(1) by simp
  moreover have "filter (\<lambda>r. ar_org r = org \<and> ar_hash r \<noteq> None) (map ?g log) = map ?g (filter (\<lambda>r. ar_org r = org \<and> ar_hash r \<noteq> None) log)"
    by (induction log) (auto simp: assms(2,3))
  ultimately show ?thesis unfolding chain_of_alt update_where_def by (simp only: sort_key_map)
qed

section \<open>What a write appends\<close>

text \<open>An entry is canonical if it is stored as it is hashed: identifiers in PostgreSQL's notation, details in
  UTF-8, a map, the time left to the writer.\<close>

definition canonical_entry :: "audit_env \<Rightarrow> WriteEntry \<Rightarrow> bool" where
  "canonical_entry E e \<longleftrightarrow> au_canon E (we_org e) = Some (we_org e) \<and>
     (we_user e = '''' \<or> au_canon E (we_user e) = Some (we_user e)) \<and>
     details_valid (we_details e) \<and> distinct (map fst (we_details e)) \<and> we_created e = None"

lemma sorted_pairs_distinct: "distinct (map fst d) \<Longrightarrow> distinct (map fst (sorted_pairs d))"
  by (simp add: sorted_pairs_def comp_def)

lemma fold_update_map:
  "distinct (map fst ps) \<Longrightarrow> details_valid ps \<Longrightarrow>
   map_of (fold (\<lambda>(k, v). AList.update (to_valid k) (to_valid v)) ps al) = map_of al ++ map_of ps"
proof (induction ps arbitrary: al)
  case (Cons p ps)
  obtain k v where p: "p = (k, v)" by fastforce
  with Cons.prems have v: "to_valid k = k" "to_valid v = v" "k \<notin> fst ` set ps" "distinct (map fst ps)" "details_valid ps"
    by (simp_all add: details_valid_def to_valid_id)
  then have "map_of ps k = None" by (simp add: map_of_eq_None_iff)
  then have "(map_of al)(k \<mapsto> v) ++ map_of ps = map_of al ++ (map_of ps)(k \<mapsto> v)"
    by (auto simp: fun_eq_iff map_add_def split: option.split)
  moreover have "map_of (fold (\<lambda>(k, v). AList.update (to_valid k) (to_valid v)) (p # ps) al) = map_of (AList.update k v al) ++ map_of ps"
    using Cons.IH [OF v(4,5)] by (simp add: p v(1,2))
  ultimately show ?case by (simp only: p update_conv' map_of.simps fst_conv snd_conv)
qed simp

lemma jsonb_of_same:
  assumes "details_valid d" "distinct (map fst d)"
  shows "map_of (jsonb_of d) = map_of d"
  using fold_update_map [OF sorted_pairs_distinct [OF assms(2)] sorted_pairs_valid [OF assms(1)], of "[]"]
  by (simp add: jsonb_of_def map_of_sorted_pairs)

lemma jsonb_of_distinct: "distinct (map fst (jsonb_of d))"
proof -
  have "distinct (map fst (fold (\<lambda>(k, v). AList.update (to_valid k) (to_valid v)) ps al))" if "distinct (map fst al)" for ps al
    using that by (induction ps arbitrary: al) (auto simp: distinct_update)
  then show ?thesis by (simp add: jsonb_of_def)
qed

lemma canonicalDetails_same:
  assumes "map_of d = map_of e" "distinct (map fst d)" "distinct (map fst e)"
  shows "canonicalDetails d = canonicalDetails e"
proof -
  have "d = [] \<longleftrightarrow> e = []" using assms(1) map_of_eq_empty_iff [of d] map_of_eq_empty_iff [of e] by auto
  then show ?thesis using sorted_pairs_map [OF assms] by (simp add: canonicalDetails_pairs)
qed

lemma coalesce_nullable [simp]: "coalesce (toNullableString s) = s"
  by (simp add: coalesce_def toNullableString_def)

text \<open>The row that is written has the hash the verifier computes from its columns.\<close>

lemma entry_row_hash:
  assumes "canonical_entry E e" "entry_row E e prev id' t = Some r"
  shows "ar_org r = we_org e" "ar_prev r = prev" "ar_created r = t" "ar_deleted r = None"
    "ar_hash r = Some (EntryHash (au_sha E) prev (row_input E (we_org e) r))"
proof -
  define user where "user = ar_user r"
  have r: "au_canon E (we_org e) = Some (we_org e)" "coalesce user = we_user e"
    "r = \<lparr>ar_id = id', ar_org = we_org e, ar_user = user, ar_email = toNullableString (we_email e),
          ar_action = we_action e, ar_type = we_type e, ar_resource = toNullableString (we_resource e),
          ar_name = toNullableString (we_name e),
          ar_details = (if we_details e = [] then None else Some (Object (jsonb_of (we_details e)))),
          ar_ip = toNullableString (we_ip e), ar_created = t, ar_prev = prev,
          ar_hash = Some (EntryHash (au_sha E) prev (chain_input e id' t)), ar_deleted = None\<rparr>"
    using assms by (auto simp: user_def entry_row_def canonical_entry_def coalesce_def split: if_splits option.splits)
  then show "ar_org r = we_org e" "ar_prev r = prev" "ar_created r = t" "ar_deleted r = None" by simp_all
  let ?d = "if we_details e = [] then [] else jsonb_of (we_details e)"
  have "canonicalDetails ?d = canonicalDetails (we_details e)"
    using assms(1) by (intro canonicalDetails_same) (simp_all add: canonical_entry_def jsonb_of_same jsonb_of_distinct)
  moreover have "row_input E (we_org e) r = (chain_input e id' t)\<lparr>ci_details := ?d\<rparr>"
    using r(2) by (simp add: r(3) row_input_def chain_input_def)
  ultimately show "ar_hash r = Some (EntryHash (au_sha E) prev (row_input E (we_org e) r))"
    by (simp add: r(3) EntryHash_def canonicalString_def chain_parts_def chain_input_def)
qed

lemma tail_hash_chain: "tail_hash org log = (if chain_of org log = [] then None else ar_hash (last (chain_of org log)))"
  by (cases "chain_of org log" rule: rev_cases) (simp_all add: tail_hash_def)

lemma linked_hashes: "linked E org expected started rows \<Longrightarrow> r \<in> set rows \<Longrightarrow> ar_hash r = Some (EntryHash (au_sha E) (ar_prev r) (row_input E org r))"
  by (induction rows arbitrary: expected started) auto

text \<open>A row that names the tail extends the chain.\<close>

lemma linked_extend:
  assumes "linked E org None False (chain_of org log)" "ar_prev r = tail_hash org log"
    and "ar_hash r = Some (EntryHash (au_sha E) (ar_prev r) (row_input E org r))"
  shows "linked E org None False (chain_of org log @ [r])"
  using assms by (simp add: linked_append tail_hash_chain follows_def)

section \<open>The log as a machine\<close>

definition appended :: "audit_env \<Rightarrow> WriteEntry \<Rightarrow> audit_db \<Rightarrow> audit_row list \<Rightarrow> bool" where
  "appended E e s log \<longleftrightarrow> log = audit_log s \<or>
     (\<exists>r id'. entry_row E e (tail_hash (we_org e) (audit_log s)) id' (now s) = Some r \<and> log = audit_log s @ [r])"

lemma Write_appends:
  assumes "canonical_entry E e"
  shows "wp (Write E e) (\<lambda>_ t. appended E e s (audit_log t)) s"
proof -
  have e: "wp (extend_chain E e (tail_hash (we_org e) (audit_log s))) (\<lambda>_ t. appended E e s (audit_log t)) u"
    if "audit_log u = audit_log s" "now u = now s" for u
    unfolding extend_chain_def Let_def
    by (intro wp_intros) (use assms that in \<open>auto simp: appended_def canonical_entry_def\<close>)
  have same: "appended E e s (audit_log s)" by (simp add: appended_def)
  show ?thesis
    unfolding Write_def read_tail_def by (intro wp_intros) (use assms in \<open>auto simp: canonical_entry_def same intro: e split: if_splits\<close>)
qed

lemma Log_appends:
  "wp (Log E e) (\<lambda>_ t. audit_log t = audit_log s \<or> (\<exists>r. ar_hash r = None \<and> audit_log t = audit_log s @ [r])) s"
  unfolding Log_def Let_def by (intro wp_intros) auto

lemma keeps_all_of: "(\<And>x. keeps I (f x)) \<Longrightarrow> keeps I (all_of f xs)"
  by (induction xs) (auto intro: hoare_rules)

lemma MaintainPartitions_keeps:
  assumes "n \<le> 0"
  shows "keeps (\<lambda>s. P (audit_log s)) (MaintainPartitions n)"
proof -
  have "keeps (\<lambda>s. P (audit_log s)) (ensureYearPartition y)" for y
    unfolding ensureYearPartition_def by (intro hoare_rules keeps_attempt keeps_exec) simp_all
  then show ?thesis using assms unfolding MaintainPartitions_def Let_def
    by (intro hoare_rules keeps_all_of) simp_all
qed

lemma VerifyOrgChain_keeps: "keeps (\<lambda>s. P (audit_log s)) (VerifyOrgChain E org)"
  unfolding VerifyOrgChain_def Let_def draw_def [abs_def]
  by (intro hoare_rules keeps_attempt) (simp_all add: keeps_def hoare_def wp_def)

lemma soft_delete_log:
  "wp (soft_delete org days) (\<lambda>_ t. \<exists>p d. audit_log t = update_where p (\<lambda>r. r\<lparr>ar_deleted := d\<rparr>) (audit_log s)) s"
proof -
  have "\<exists>p d. audit_log s = update_where p (\<lambda>r. r\<lparr>ar_deleted := d\<rparr>) (audit_log s)"
    by (rule exI [of _ "\<lambda>_. False"]) (simp add: update_where_def)
  then show ?thesis unfolding soft_delete_def by (intro wp_intros) auto
qed

text \<open>The steps of the processes that share the table. A write finds the clock past the rows of its
  organisation's chain: writers are serialised, and the clock ticks between two of them.\<close>

inductive audit_step :: "audit_env \<Rightarrow> audit_db \<Rightarrow> audit_db \<Rightarrow> bool" for E where
  Tick: "0 \<le> d \<Longrightarrow> audit_step E s (s\<lparr>now := now s + d\<rparr>)"
| Faults: "audit_step E s (s\<lparr>faults := t\<rparr>)"
| Written: "canonical_entry E e \<Longrightarrow> \<forall>r \<in> set (chain_of (we_org e) (audit_log s)). ar_created r < now s \<Longrightarrow>
    audit_step E s (snd (run_state (Write E e) s))"
| Logged: "audit_step E s (snd (run_state (Log E l) s))"
| SoftDeleted: "audit_step E s (snd (run_state (soft_delete org days) s))"
| Maintained: "n \<le> 0 \<Longrightarrow> audit_step E s (snd (run_state (MaintainPartitions n) s))"
| Verified: "audit_step E s (snd (run_state (VerifyOrgChain E org) s))"

definition chains_ok :: "audit_env \<Rightarrow> audit_db \<Rightarrow> bool" where
  "chains_ok E s \<longleftrightarrow> (\<forall>org. linked E org None False (chain_of org (audit_log s)))"

lemma Write_keeps_chains:
  assumes "canonical_entry E e" "\<forall>r \<in> set (chain_of (we_org e) (audit_log s)). ar_created r < now s" "chains_ok E s"
  shows "chains_ok E (snd (run_state (Write E e) s))"
proof -
  let ?log = "audit_log (snd (run_state (Write E e) s))"
  have "appended E e s ?log" using Write_appends [OF assms(1), of s] by (simp add: wp_def split_def)
  then consider "?log = audit_log s"
    | r id' where "entry_row E e (tail_hash (we_org e) (audit_log s)) id' (now s) = Some r" "?log = audit_log s @ [r]"
    by (auto simp: appended_def)
  then show ?thesis
  proof cases
    case 1
    then show ?thesis using assms(3) by (simp add: chains_ok_def)
  next
    case 2
    note r = entry_row_hash [OF assms(1) 2(1)]
    have "linked E (we_org e) None False (chain_of (we_org e) (audit_log s) @ [r])"
      using assms(3) r by (intro linked_extend) (simp_all add: chains_ok_def)
    moreover have "chain_of org ?log = (if we_org e = org then chain_of org (audit_log s) @ [r] else chain_of org (audit_log s))" for org
      using chain_of_snoc [of r "audit_log s" org] assms(2) r 2(2) by simp
    ultimately show ?thesis using assms(3) by (simp add: chains_ok_def)
  qed
qed

lemma soft_delete_keeps_chains: "chains_ok E s \<Longrightarrow> chains_ok E (snd (run_state (soft_delete org days) s))"
proof -
  assume ok: "chains_ok E s"
  from soft_delete_log [of org days s] obtain p d where
    log: "audit_log (snd (run_state (soft_delete org days) s)) = update_where p (\<lambda>r. r\<lparr>ar_deleted := d\<rparr>) (audit_log s)"
    unfolding wp_def split_def by blast
  let ?f = "\<lambda>r. r\<lparr>ar_deleted := d\<rparr>"
  have "chain_of o' (update_where p ?f (audit_log s)) = map (\<lambda>r. if p r then ?f r else r) (chain_of o' (audit_log s))" for o'
    by (rule chain_of_update_where) (simp_all add: position_def)
  then show ?thesis using ok by (simp add: chains_ok_def log linked_map row_input_def)
qed

interpretation audit: machine "\<lambda>s. audit_log s = []" "audit_step E" "chains_ok E" for E
proof
  show "chains_ok E s" if "audit_log s = []" for s
    using that by (simp add: chains_ok_def org_rows_def)
  show "chains_ok E t" if "chains_ok E s" "audit_step E s t" for s t
    using that(2,1)
  proof cases
    case (Logged l)
    have "audit_log t = audit_log s \<or> (\<exists>r. ar_hash r = None \<and> audit_log t = audit_log s @ [r])"
      using Log_appends [of E l s] Logged by (simp add: wp_def split_def)
    then show ?thesis using that(1) by (auto simp: chains_ok_def chain_of_unchained)
  next
    case (Maintained n)
    then show ?thesis using keepsD [OF MaintainPartitions_keeps [of n "\<lambda>l. \<forall>org. linked E org None False (chain_of org l)"]] that(1)
      by (simp add: chains_ok_def)
  next
    case (Verified org)
    then show ?thesis using keepsD [OF VerifyOrgChain_keeps [of "\<lambda>l. \<forall>org. linked E org None False (chain_of org l)"]] that(1)
      by (simp add: chains_ok_def)
  qed (use that in \<open>simp_all add: chains_ok_def [of _ "_\<lparr>now := _\<rparr>"] chains_ok_def [of _ "_\<lparr>faults := _\<rparr>"]
    chains_ok_def [symmetric] Write_keeps_chains soft_delete_keeps_chains\<close>)
qed

section \<open>The verifier\<close>

lemma verify_wp:
  "wp (VerifyOrgChain E org) (\<lambda>x t. \<forall>res. x = Some res \<longrightarrow> (\<exists>o' n. au_canon E org = Some o' \<and>
     res = replay_all E org (take n (org_rows o' (audit_log s))) \<and>
     (cr_status res \<noteq> ChainBroken \<longrightarrow> res = replay_all E org (org_rows o' (audit_log s))))) s"
proof -
  have whole: "\<exists>n. replay_all E org rows = replay_all E org (take n rows)" for rows
    by (rule exI [of _ "length rows"]) simp
  show ?thesis unfolding VerifyOrgChain_def Let_def by (intro wp_intros) (auto simp: whole split: if_splits)
qed

lemma verify_cases:
  assumes "fst (run_state (VerifyOrgChain E org) s) = Some res" "au_canon E org = Some o'"
  shows "\<exists>n. res = replay_all E org (take n (org_rows o' (audit_log s)))"
    and "cr_status res \<noteq> ChainBroken \<Longrightarrow> linked E org None False (chain_of o' (audit_log s))"
proof -
  have "\<exists>n. res = replay_all E org (take n (org_rows o' (audit_log s))) \<and>
     (cr_status res \<noteq> ChainBroken \<longrightarrow> res = replay_all E org (org_rows o' (audit_log s)))"
    using verify_wp [of E org s] assms by (simp add: wp_def split_def)
  then show "\<exists>n. res = replay_all E org (take n (org_rows o' (audit_log s)))"
    and "cr_status res \<noteq> ChainBroken \<Longrightarrow> linked E org None False (chain_of o' (audit_log s))"
    using replay_all_status by metis+
qed

lemma verify_run:
  assumes "faults s = []" "au_canon E org = Some o'"
  shows "fst (run_state (VerifyOrgChain E org) s) = Some (replay_all E org (org_rows o' (audit_log s)))"
  using assms by (simp add: VerifyOrgChain_def Let_def run_simps)


section \<open>Evidence of tampering\<close>

text \<open>What an entry says, the details as a map.\<close>

definition entry_of :: "audit_env \<Rightarrow> string \<Rightarrow> audit_row \<Rightarrow> ChainInput \<times> (string \<Rightarrow> string option)" where
  "entry_of E org r = ((row_input E org r)\<lparr>ci_details := []\<rparr>, map_of (ci_details (row_input E org r)))"

text \<open>What JSONB and \<^verbatim>\<open>json.Unmarshal\<close> guarantee of a row, however it came to be: UTF-8, each key once.\<close>

definition stored_ok :: "audit_env \<Rightarrow> audit_row list \<Rightarrow> bool" where
  "stored_ok E log \<longleftrightarrow> list_all (\<lambda>r. let d = ci_details (row_input E '''' r) in details_valid d \<and> distinct (map fst d)) log"

lemma stored_details:
  "stored_ok E log \<Longrightarrow> r \<in> set log \<Longrightarrow> details_valid (ci_details (row_input E org r)) \<and> distinct (map fst (ci_details (row_input E org r)))"
  by (auto simp: stored_ok_def list_all_iff row_input_def Let_def)

definition tail_of :: "audit_row list \<Rightarrow> string option" where
  "tail_of rows = (if rows = [] then None else ar_hash (last rows))"

lemma tail_of_snoc: "tail_of (rows @ [r]) = ar_hash r"
  by (simp add: tail_of_def)

lemma linked_tail:
  assumes "linked E org None False rows" "\<forall>x. au_sha E x \<noteq> ''''"
  shows "bytes_of (tail_of rows) = '''' \<longleftrightarrow> rows = []" "rows \<noteq> [] \<Longrightarrow> tail_of rows = Some (bytes_of (tail_of rows))"
  using assms linked_hashes [OF assms(1), of "last rows"] by (auto simp: tail_of_def bytes_of_def EntryHash_def)

lemma linked_snoc:
  assumes "linked E org None False (rows @ [r])"
  shows "linked E org None False rows" "bytes_of (ar_prev r) = bytes_of (tail_of rows)"
    "ar_hash r = Some (EntryHash (au_sha E) (ar_prev r) (row_input E org r))"
  using assms by (auto simp: linked_append follows_def tail_of_def split: if_splits)

lemma same_tail:
  assumes "\<forall>x y. au_sha E x = au_sha E y \<longrightarrow> x = y" "\<forall>x. au_sha E x \<noteq> ''''"
    and "linked E org None False xs" "linked E org None False ys" "bytes_of (tail_of xs) = bytes_of (tail_of ys)"
    and "\<forall>r \<in> set xs \<union> set ys. details_valid (ci_details (row_input E org r)) \<and> distinct (map fst (ci_details (row_input E org r)))"
  shows "map (entry_of E org) xs = map (entry_of E org) ys"
  using assms(3-6)
proof (induction xs arbitrary: ys rule: rev_induct)
  case Nil
  then show ?case using linked_tail(1) [of E org ys] assms(2) by (simp add: tail_of_def bytes_of_def)
next
  case (snoc r xs)
  then have "ys \<noteq> []" using linked_tail(1) [OF snoc.prems(1) assms(2)] linked_tail(1) [OF snoc.prems(2) assms(2)] by auto
  then obtain ys' q where ys: "ys = ys' @ [q]" by (metis rev_exhaust)
  note r = linked_snoc [OF snoc.prems(1)] and q = linked_snoc [OF snoc.prems(2) [unfolded ys]]
  have "EntryHash (au_sha E) (ar_prev r) (row_input E org r) = EntryHash (au_sha E) (ar_prev q) (row_input E org q)"
    using snoc.prems(3) r(3) q(3) by (simp add: ys tail_of_snoc bytes_of_def)
  then have "canonicalString (ar_prev r) (row_input E org r) = canonicalString (ar_prev q) (row_input E org q)"
    using assms(1) by (simp add: EntryHash_def)
  moreover note canonical_same [of "row_input E org r" "row_input E org q" "ar_prev r" "ar_prev q"]
  ultimately have e: "bytes_of (ar_prev r) = bytes_of (ar_prev q)" "entry_of E org r = entry_of E org q"
    using snoc.prems(4) by (simp_all add: ys entry_of_def)
  have "map (entry_of E org) xs = map (entry_of E org) ys'"
    using snoc.prems(4) by (intro snoc.IH r(1) q(1)) (auto simp: ys e(1) simp flip: r(2) q(2))
  then show ?case using e(2) by (simp add: ys)
qed


section \<open>Retention\<close>

lemma ensure_wp:
  "wp (all_of ensureYearPartition ys) (\<lambda>_ t. audit_log t = audit_log s \<and>
     set (partitions s) \<subseteq> set (partitions t) \<and> set (partitions t) \<subseteq> set ys \<union> set (partitions s)) s"
proof (induction ys arbitrary: s)
  case (Cons y ys)
  have "wp (ensureYearPartition y) (\<lambda>_ t. audit_log t = audit_log s \<and>
     set (partitions s) \<subseteq> set (partitions t) \<and> set (partitions t) \<subseteq> insert y (set (partitions s))) s"
    unfolding ensureYearPartition_def by (intro wp_intros) auto
  then show ?case unfolding all_of.simps wp_bind
    by (rule wp_mono) (auto simp: wp_rules intro!: wp_mono [OF Cons.IH])
qed (simp add: wp_rules)

lemma drop_wp:
  "wp (all_of drop_partition ys) (\<lambda>ok t. ok \<longrightarrow> audit_log t = filter (\<lambda>r. row_year r \<notin> set ys) (audit_log s)) s"
proof (induction ys arbitrary: s)
  case (Cons y ys)
  have "wp (drop_partition y) (\<lambda>ok t. ok \<longrightarrow> audit_log t = filter (\<lambda>r. row_year r \<noteq> y) (audit_log s)) s"
    unfolding drop_partition_def by (intro wp_intros) auto
  then show ?case unfolding all_of.simps wp_bind
    by (rule wp_mono) (auto simp: wp_rules conj_commute intro!: wp_mono [OF Cons.IH])
qed (simp add: wp_rules)

definition this_year :: "audit_db \<Rightarrow> int" where
  "this_year s = year_of (day_of (now s div micros))"

definition expired_year :: "int \<Rightarrow> audit_db \<Rightarrow> int \<Rightarrow> bool" where
  "expired_year n s y \<longleftrightarrow> y \<in> set (partitions s) \<and> 0 \<le> y \<and> y \<le> 9999 \<and> y < this_year s - n"

lemma maintain_wp:
  assumes "0 < n"
  shows "wp (MaintainPartitions n) (\<lambda>ok t. ok \<longrightarrow> audit_log t = filter (\<lambda>r. \<not> expired_year n s (row_year r)) (audit_log s)) s"
proof -
  let ?ys = "[this_year s, this_year s + 1, this_year s + 2]"
  have drop: "wp (dropPartitionsBefore (this_year s - n)) (\<lambda>ok t. ok \<longrightarrow> audit_log t = filter (\<lambda>r. \<not> expired_year n s (row_year r)) (audit_log s)) u"
    if u: "audit_log u = audit_log s" "set (partitions s) \<subseteq> set (partitions u)" "set (partitions u) \<subseteq> set ?ys \<union> set (partitions s)" for u
  proof -
    let ?old = "filter (\<lambda>y. 0 \<le> y \<and> y \<le> 9999 \<and> y < this_year s - n) (partitions u)"
    have "y \<in> set ?old \<longleftrightarrow> expired_year n s y" for y using u(2,3) assms by (auto simp: expired_year_def)
    then have "wp (all_of drop_partition ?old) (\<lambda>ok t. ok \<longrightarrow> audit_log t = filter (\<lambda>r. \<not> expired_year n s (row_year r)) (audit_log s)) (u\<lparr>faults := f\<rparr>)" for f
      using drop_wp [of ?old "u\<lparr>faults := f\<rparr>"] u(1) by simp
    then show ?thesis unfolding dropPartitionsBefore_def by (intro wp_intros) simp_all
  qed
  have "wp (all_of ensureYearPartition ?ys) (\<lambda>ok. wp (if \<not> ok then State_Monad.return False
      else if n > 0 then dropPartitionsBefore (this_year s - n) else State_Monad.return True)
      (\<lambda>ok t. ok \<longrightarrow> audit_log t = filter (\<lambda>r. \<not> expired_year n s (row_year r)) (audit_log s))) s"
    using ensure_wp [of ?ys s] by (rule wp_mono) (use assms drop in \<open>auto simp: wp_rules\<close>)
  then show ?thesis unfolding MaintainPartitions_def Let_def wp_bind wp_gets this_year_def by simp
qed

lemma chain_of_filter: "chain_of org (filter p log) = filter p (chain_of org log)"
  by (simp add: chain_of_alt filter_sort conj_commute)

lemma linked_inner:
  assumes "\<forall>x. au_sha E x \<noteq> ''''" "linked E org (Some h) True rows" "h \<noteq> ''''" "r \<in> set rows"
  shows "ar_prev r \<noteq> None"
  using assms(2-4)
proof (induction rows arbitrary: h)
  case (Cons q rows)
  then have "bytes_of (ar_prev q) = h" by (simp add: follows_def bytes_of_def)
  then have "ar_prev q \<noteq> None" using Cons.prems(2) by (auto simp: bytes_of_def split: option.splits)
  moreover have "r \<in> set rows \<Longrightarrow> ar_prev r \<noteq> None"
    using Cons.prems(1) assms(1) by (intro Cons.IH [of "EntryHash (au_sha E) (ar_prev q) (row_input E org q)"]) (auto simp: EntryHash_def)
  ultimately show ?case using Cons.prems(3) by auto
qed simp

lemma replay_orphan:
  assumes "chained rows = q # qs" "ar_prev q \<noteq> None"
  shows "cr_status (replay E org e False res rows) = ChainBroken \<and> cr_bad (replay E org e False res rows) = ar_id q \<and>
    cr_verified (replay E org e False res rows) = cr_verified res"
  using assms
proof (induction rows arbitrary: res)
  case (Cons r rows)
  then show ?case by (cases "ar_hash r") (auto simp: broken_def)
qed simp

text \<open>C40: the retention job destroys the evidence it keeps. When a partition run that drops anything of an
  organisation's chain succeeds, that is when the oldest chained entry lies in a year past the retention and a
  later entry does not, the verifier then reports the organisation as broken: the first entry kept
  names a predecessor that is gone, it is the row reported, and nothing counts as verified.\<close>

theorem retention_breaks_chain:
  assumes "chains_ok E s" "au_canon E org = Some org" "\<forall>x. au_sha E x \<noteq> ''''" "0 < n"
    and "chain_of org (audit_log s) = r # rest" "expired_year n s (row_year r)"
    and "q \<in> set rest" "\<not> expired_year n s (row_year q)"
    and "run_state (MaintainPartitions n) s = (True, t)" "faults t = []"
  shows "\<exists>res k. fst (run_state (VerifyOrgChain E org) t) = Some res \<and> cr_status res = ChainBroken \<and> cr_verified res = 0 \<and>
    k \<in> set rest \<and> cr_bad res = ar_id k \<and> \<not> expired_year n s (row_year k)"
proof -
  let ?kept = "\<lambda>r. \<not> expired_year n s (row_year r)"
  have "audit_log t = filter ?kept (audit_log s)"
    using maintain_wp [OF assms(4), of s] assms(9) by (simp add: wp_def)
  then have "chain_of org (audit_log t) = filter ?kept rest" using assms(5,6) by (simp add: chain_of_filter)
  moreover have "filter ?kept rest \<noteq> []" using assms(7,8) by (auto simp: filter_empty_conv)
  ultimately obtain k ks where k: "chain_of org (audit_log t) = k # ks" "k # ks = filter ?kept rest" by (cases "filter ?kept rest") simp_all
  have "k \<in> set (filter ?kept rest)" by (simp flip: k(2))
  then have kept: "k \<in> set rest" "?kept k" by simp_all
  have l: "linked E org None False (r # rest)" using assms(1,5) by (metis chains_ok_def)
  then have "linked E org (Some (EntryHash (au_sha E) (ar_prev r) (row_input E org r))) True rest" by auto
  then have "ar_prev k \<noteq> None" using assms(3) kept by (intro linked_inner) (auto simp: EntryHash_def)
  from replay_orphan [OF k(1) this] show ?thesis
    using verify_run [OF assms(10,2)] kept by (auto simp: replay_all_def no_result_def)
qed

section \<open>Concrete logs\<close>

definition sample_audit :: audit_env where
  "sample_audit = \<lparr>au_sha = (\<lambda>x. CHR ''h'' # x), au_uuid = show_nat, au_canon = Some, au_partial = (\<lambda>_. []), au_db = True, au_forward = True\<rparr>"

definition sample_write :: WriteEntry where
  "sample_write = \<lparr>we_org = ''o'', we_user = '''', we_email = '''', we_action = ''create'', we_type = ''risk'', we_resource = ''|'', we_name = '''',
     we_details = [(''b'', ''2''), (''a'', ''1'')], we_ip = '''', we_created = None\<rparr>"

definition sample_log :: "int \<Rightarrow> audit_db" where
  "sample_log t = \<lparr>faults = [], now = t, fresh = 0, audit_log = [], partitions = [1970, 1980, 1981, 1982], forwarded = []\<rparr>"

text \<open>The row a write appends when every statement succeeds.\<close>

lemma Write_run:
  assumes "faults s = []" "au_db E" "canonical_entry E e"
    and "entry_row E e (tail_hash (we_org e) (audit_log s)) (au_uuid E (fresh s)) (now s) = Some r" "row_ok r (audit_log s)"
  shows "audit_log (snd (run_state (Write E e) s)) = audit_log s @ [r]"
    "faults (snd (run_state (Write E e) s)) = []" "partitions (snd (run_state (Write E e) s)) = partitions s"
    "now (snd (run_state (Write E e) s)) = now s" "fresh (snd (run_state (Write E e) s)) = Suc (fresh s)"
  using assms by (simp_all add: Write_def read_tail_def extend_chain_def canonical_entry_def Let_def run_simps)

definition sample_row :: "int \<Rightarrow> nat \<Rightarrow> string option \<Rightarrow> audit_row" where
  "sample_row t n prev = the (entry_row sample_audit sample_write prev (show_nat n) t)"

text \<open>An entry in January 1970, and one in 1980.\<close>

definition sample_first :: audit_db where
  "sample_first = snd (run_state (Write sample_audit sample_write) (sample_log 5))"

definition sample_second :: audit_db where
  "sample_second = snd (run_state (Write sample_audit sample_write) (sample_first\<lparr>now := 320000000000000\<rparr>))"

lemma sample_canonical: "canonical_entry sample_audit sample_write"
  by code_simp

lemma sample_entry_row: "entry_row sample_audit sample_write prev (show_nat n) t = Some (sample_row t n prev)"
  by (simp add: sample_row_def entry_row_def sample_audit_def sample_write_def)

lemma sample_row_fields:
  "ar_org (sample_row t n prev) = ''o''" "ar_created (sample_row t n prev) = t" "ar_id (sample_row t n prev) = show_nat n"
  "ar_hash (sample_row t n prev) \<noteq> None"
  by (simp_all add: sample_row_def entry_row_def sample_audit_def sample_write_def)

lemma sample_row_ok:
  assumes "(show_nat n, t) \<notin> (\<lambda>r. (ar_id r, ar_created r)) ` set log"
  shows "row_ok (sample_row t n prev) log"
proof -
  have "text_ok ''create''" "text_ok ''risk''" "text_ok ''|''" "text_ok ''''"
    "list_all (\<lambda>(k, v). text_ok k \<and> text_ok v) (jsonb_of [(''b'', ''2''), (''a'', ''1'')])" by code_simp+
  then show ?thesis using assms
    by (simp add: row_ok_def sample_row_def entry_row_def sample_audit_def sample_write_def coalesce_def toNullableString_def)
qed

lemma sample_logs:
  "audit_log sample_first = [sample_row 5 0 None]" "faults sample_first = []" "partitions sample_first = [1970, 1980, 1981, 1982]" "fresh sample_first = 1"
  "\<exists>prev. audit_log sample_second = [sample_row 5 0 None, sample_row 320000000000000 1 prev]" "faults sample_second = []"
  "partitions sample_second = [1970, 1980, 1981, 1982]" "now sample_second = 320000000000000"
proof -
  have env: "au_db sample_audit" "au_uuid sample_audit = show_nat" by (simp_all add: sample_audit_def)
  have log: "faults (sample_log 5) = []" "audit_log (sample_log 5) = []" "fresh (sample_log 5) = 0" "now (sample_log 5) = 5"
    "partitions (sample_log 5) = [1970, 1980, 1981, 1982]" by (simp_all add: sample_log_def)
  have tl: "tail_hash (we_org sample_write) [] = None" by (simp add: tail_hash_def org_rows_def)
  note first = Write_run [of "sample_log 5" sample_audit sample_write "sample_row 5 0 None", folded sample_first_def]
  show f: "audit_log sample_first = [sample_row 5 0 None]" "faults sample_first = []" "partitions sample_first = [1970, 1980, 1981, 1982]" "fresh sample_first = 1"
    using first sample_entry_row [of None 0 5] sample_row_ok [of 0 5 "[]"] env sample_canonical log tl by simp_all
  let ?prev = "tail_hash (we_org sample_write) (audit_log sample_first)" and ?s = "sample_first\<lparr>now := 320000000000000\<rparr>"
  have id: "show_nat (Suc 0) \<noteq> show_nat 0" using show_nat_inj [of "Suc 0" 0] by auto
  note second = Write_run [of ?s sample_audit sample_write "sample_row 320000000000000 1 ?prev", folded sample_second_def]
  have "row_ok (sample_row 320000000000000 1 ?prev) (audit_log ?s)"
    by (rule sample_row_ok) (simp add: f sample_row_fields)
  then have "audit_log sample_second = [sample_row 5 0 None, sample_row 320000000000000 1 ?prev] \<and> faults sample_second = [] \<and>
    partitions sample_second = [1970, 1980, 1981, 1982] \<and> now sample_second = 320000000000000"
    using second f env sample_canonical sample_entry_row [of ?prev 1 320000000000000] by simp
  then show "\<exists>prev. audit_log sample_second = [sample_row 5 0 None, sample_row 320000000000000 1 prev]" "faults sample_second = []"
    "partitions sample_second = [1970, 1980, 1981, 1982]" "now sample_second = 320000000000000" by blast+
qed

lemma sample_steps: "(audit_step sample_audit)\<^sup>*\<^sup>* (sample_log 5) sample_second"
proof -
  have "audit_step sample_audit (sample_log 5) sample_first"
    unfolding sample_first_def by (rule Written [OF sample_canonical]) (simp add: set_chain_of sample_log_def)
  moreover have "now sample_first = 5"
    using Write_run(4) [of "sample_log 5" sample_audit sample_write] sample_logs(1) sample_entry_row [of None 0 5] sample_row_ok [of 0 5 "[]"] sample_canonical
    by (simp add: sample_first_def sample_log_def tail_hash_def org_rows_def sample_audit_def)
  then have "audit_step sample_audit sample_first (sample_first\<lparr>now := 320000000000000\<rparr>)"
    using Tick [of "320000000000000 - 5" sample_audit sample_first] by simp
  moreover have "audit_step sample_audit (sample_first\<lparr>now := 320000000000000\<rparr>) sample_second"
    unfolding sample_second_def by (rule Written [OF sample_canonical]) (simp add: set_chain_of sample_logs sample_row_fields)
  ultimately show ?thesis by (meson converse_rtranclp_into_rtranclp r_into_rtranclp)
qed

lemma sample_chain:
  obtains prev where "org_rows ''o'' (audit_log sample_second) = [sample_row 5 0 None, sample_row 320000000000000 1 prev]"
    "chain_of ''o'' (audit_log sample_second) = [sample_row 5 0 None, sample_row 320000000000000 1 prev]"
proof -
  obtain prev where "audit_log sample_second = [sample_row 5 0 None, sample_row 320000000000000 1 prev]" using sample_logs(5) by blast
  then have "org_rows ''o'' (audit_log sample_second) = [sample_row 5 0 None, sample_row 320000000000000 1 prev]"
    by (simp add: org_rows_def sample_row_fields position_def less_prod_def less_eq_prod_def)
  with that show ?thesis by (simp add: sample_row_fields)
qed


lemma sample_chains_ok: "chains_ok sample_audit sample_second"
  using audit.reachable_inv [OF _ sample_steps] by (simp add: sample_log_def)

lemma sample_verifies: "chains_ok sample_audit s \<Longrightarrow> faults s = [] \<Longrightarrow>
  \<exists>p. fst (run_state (VerifyOrgChain sample_audit ''o'') s) = Some p \<and> cr_status p \<noteq> ChainBroken"
  using verify_run [of s sample_audit "''o''" "''o''"] replay_all_status [of sample_audit "''o''" "org_rows ''o'' (audit_log s)"]
  by (simp add: chains_ok_def sample_audit_def)

lemma sample_stored: "stored_ok sample_audit (audit_log sample_second)"
proof -
  have "details_valid (jsonb_of [(''b'', ''2''), (''a'', ''1'')])" "distinct (map fst (jsonb_of [(''b'', ''2''), (''a'', ''1'')]))" by code_simp+
  moreover have "ar_details (sample_row t n prev) = Some (Object (jsonb_of [(''b'', ''2''), (''a'', ''1'')]))" for t n prev
    by (simp add: sample_row_def entry_row_def sample_audit_def sample_write_def)
  ultimately show ?thesis using sample_logs(5) by (auto simp: stored_ok_def row_input_def)
qed

text \<open>A copy whose entries are soft-deleted ends in the same hash.\<close>

definition sample_pruned :: audit_db where
  "sample_pruned = sample_second\<lparr>audit_log := update_where (\<lambda>r. True) (\<lambda>r. r\<lparr>ar_deleted := Some 0\<rparr>) (audit_log sample_second)\<rparr>"

lemma sample_pruned_chain: "chain_of org (audit_log sample_pruned) = map (\<lambda>r. r\<lparr>ar_deleted := Some 0\<rparr>) (chain_of org (audit_log sample_second))"
  unfolding sample_pruned_def using chain_of_update_where [of "\<lambda>r. r\<lparr>ar_deleted := Some 0\<rparr>" org "\<lambda>_. True" "audit_log sample_second"]
  by (simp add: position_def)


lemma sample_years: "row_year (sample_row 5 0 prev) = 1970" "row_year (sample_row 320000000000000 1 prev) = 1980" "this_year sample_second = 1980"
proof -
  have "year_of (day_of (5 div micros)) = 1970" "year_of (day_of (320000000000000 div micros)) = 1980" by code_simp+
  then show "row_year (sample_row 5 0 prev) = 1970" "row_year (sample_row 320000000000000 1 prev) = 1980" "this_year sample_second = 1980"
    by (simp_all add: row_year_def sample_row_fields this_year_def sample_logs)
qed

lemma drop_run: "faults s = [] \<Longrightarrow> fst (run_state (all_of drop_partition ys) s) \<and> faults (snd (run_state (all_of drop_partition ys) s)) = []"
proof (induction ys arbitrary: s)
  case (Cons y ys)
  obtain ps log where "run_state (drop_partition y) s = (True, s\<lparr>partitions := ps, audit_log := log\<rparr>)"
    using Cons.prems by (simp add: drop_partition_def run_simps)
  with Cons show ?case by simp
qed simp

lemma Maintain_run:
  assumes "faults s = []" "this_year s \<in> set (partitions s)" "this_year s + 1 \<in> set (partitions s)" "this_year s + 2 \<in> set (partitions s)"
  shows "fst (run_state (MaintainPartitions n) s) \<and> faults (snd (run_state (MaintainPartitions n) s)) = []"
proof -
  have "run_state (ensureYearPartition y) s = (True, s)" if "y \<in> set (partitions s)" for y
    using that assms(1) by (simp add: ensureYearPartition_def run_simps)
  then have "run_state (all_of ensureYearPartition [this_year s, this_year s + 1, this_year s + 2]) s = (True, s)"
    using assms by simp
  moreover have "MaintainPartitions n = do { t \<leftarrow> gets now; ok \<leftarrow> all_of ensureYearPartition
      [year_of (day_of (t div micros)), year_of (day_of (t div micros)) + 1, year_of (day_of (t div micros)) + 2];
      if \<not> ok then State_Monad.return False
      else if n > 0 then dropPartitionsBefore (year_of (day_of (t div micros)) - n) else State_Monad.return True }"
    by (simp only: MaintainPartitions_def Let_def)
  ultimately show ?thesis
    using drop_run [of s] assms(1)
    by (simp add: run_simps this_year_def [symmetric] dropPartitionsBefore_def del: all_of.simps)
qed

theorem retention_breaks_chain_witness:
  "\<exists>res. fst (run_state (VerifyOrgChain sample_audit ''o'') (snd (run_state (MaintainPartitions 6) sample_second))) = Some res \<and>
     cr_status res = ChainBroken \<and> cr_verified res = 0"
proof -
  obtain prev where c: "chain_of ''o'' (audit_log sample_second) = [sample_row 5 0 None, sample_row 320000000000000 1 prev]"
    by (rule sample_chain)
  let ?t = "snd (run_state (MaintainPartitions 6) sample_second)"
  have run: "run_state (MaintainPartitions 6) sample_second = (True, ?t) \<and> faults ?t = []"
    using Maintain_run [of sample_second 6] by (simp add: sample_logs sample_years prod_eq_iff)
  have "expired_year 6 sample_second 1970" "\<not> expired_year 6 sample_second 1980" by (simp_all add: expired_year_def sample_logs sample_years)
  then show ?thesis
    using retention_breaks_chain [OF sample_chains_ok _ _ _ c _ _ _ conjunct1 [OF run] conjunct2 [OF run], of "sample_row 320000000000000 1 prev"]
    by (auto simp: sample_years sample_years [simplified] sample_audit_def)
qed

end
