(* ===== verification/Auth_Core.thy ===== *)
theory Auth_Core
  imports Go_Text Effects
begin

text \<open>
  The data of authentication (\<^verbatim>\<open>internal/auth\<close>): tokens (\<^verbatim>\<open>tokens.go\<close>), the tables, Redis as a store with
  expiries, and the deployment record of everything outside the repository. Every statement on PostgreSQL or
  Redis can fail on its own. As in \<^verbatim>\<open>cmd/api\<close>, a database and a Redis client are configured.
\<close>

section \<open>The outside\<close>

text \<open>The claims of a PASETO; an absent claim is \<^term>\<open>None\<close>.\<close>

record paseto =
  pt_iat :: int
  pt_exp :: int
  pt_user :: "string option"
  pt_org :: "string option"
  pt_roles :: "string list option"
  pt_pw :: "int option"
  pt_mfa :: "bool option"
  pt_pending :: "bool option"

text \<open>\<open>ae_seal\<close> encrypts with a nonce, \<open>ae_open\<close> is a parser without expiry check, \<open>ae_parse\<close> the one with it,
  at a time. \<open>ae_hash\<close> and \<open>ae_match\<close> are bcrypt with a salt (none when the password is too long),
  \<open>ae_totp\<close> the check of a six-digit code at a time.\<close>

record auth_env =
  ae_seal :: "nat \<Rightarrow> paseto \<Rightarrow> string"
  ae_open :: "string \<Rightarrow> paseto option"
  ae_parse :: "int \<Rightarrow> string \<Rightarrow> paseto option"
  ae_hash :: "nat \<Rightarrow> string \<Rightarrow> string option"
  ae_match :: "string \<Rightarrow> string \<Rightarrow> bool"
  ae_cost :: "string \<Rightarrow> nat option"
  ae_sha :: "string \<Rightarrow> string"          \<comment> \<open>SHA-256, in hexadecimal\<close>
  ae_random :: "nat \<Rightarrow> string"          \<comment> \<open>random bytes, in hexadecimal\<close>
  ae_secret :: "nat \<Rightarrow> string"          \<comment> \<open>random bytes, in base64\<close>
  ae_uuid :: "nat \<Rightarrow> string"
  ae_is_uuid :: "string \<Rightarrow> bool"
  ae_decrypt :: "string \<Rightarrow> string option"
  ae_encrypt :: "nat \<Rightarrow> string \<Rightarrow> string option"
  ae_totp :: "string \<Rightarrow> string \<Rightarrow> int \<Rightarrow> bool"
  ae_email :: "string \<Rightarrow> bool"
  ae_upper :: "string \<Rightarrow> bool"            \<comment> \<open>\<^verbatim>\<open>unicode.IsUpper\<close> of a character's bytes\<close>
  ae_digit :: "string \<Rightarrow> bool"
  ae_failopen :: bool
  ae_ipmax :: int

text \<open>What is documented of them: decryption inverts encryption and is the only way to a token that opens, the
  parser with expiry check refuses what is past its expiry, and bcrypt accepts the password it hashed.\<close>

definition good_auth :: "auth_env \<Rightarrow> bool" where
  "good_auth E \<longleftrightarrow> (\<forall>n p. ae_open E (ae_seal E n p) = Some p) \<and>
     (\<forall>t s. ae_parse E t s = (case ae_open E s of None \<Rightarrow> None | Some p \<Rightarrow> if t \<le> pt_exp p then Some p else None)) \<and>
     (\<forall>n w h. ae_hash E n w = Some h \<longrightarrow> ae_match E h w)"

section \<open>The state\<close>

record user =
  u_id :: string
  u_email :: string
  u_hash :: "string option"
  u_name :: "string option"
  u_active :: bool
  u_role :: string
  u_pw :: int
  u_login :: "int option"
  u_lang :: "string option"

record member =
  m_org :: string
  m_user :: string
  m_role :: string        \<comment> \<open>the name of the role\<close>
  m_joined :: int

record refresh_session =
  rf_id :: string
  rf_user :: string
  rf_org :: string
  rf_hash :: string
  rf_hint :: string
  rf_used :: int
  rf_created :: int
  rf_expires :: int

record totp_secret =
  ts_user :: string
  ts_secret :: string
  ts_enabled :: bool
  ts_backup :: "string list"

record recovery_code =
  rc_id :: string
  rc_user :: string
  rc_hash :: string
  rc_used :: "int option"

record reset_token =
  rt_id :: string
  rt_user :: string
  rt_hash :: string
  rt_expires :: int
  rt_used :: "int option"

record login_row =
  lh_org :: string
  lh_user :: string
  lh_email :: string
  lh_agent :: string
  lh_source :: string
  lh_result :: string

record organization =
  og_id :: string
  og_name :: string
  og_slug :: string
  og_require_mfa :: bool

record api_key =
  ak_id :: string
  ak_org :: string
  ak_creator :: string
  ak_name :: string
  ak_hash :: string
  ak_prefix :: string
  ak_scopes :: "string list"
  ak_expires :: "int option"
  ak_revoked :: "int option"
  ak_previous :: "string option"
  ak_grace :: "int option"
  ak_rotated :: "int option"

text \<open>What is kept with a refresh token.\<close>

record refreshPayload =
  rp_user :: string
  rp_org :: string
  rp_roles :: "string list"
  rp_mfa :: bool

datatype redis_value = RNum int | RRefresh refreshPayload | RPerms "(string \<times> bool) list option"

record auth_db = effects +
  users :: "user list"
  members :: "member list"
  organizations :: "organization list"
  sessions :: "refresh_session list"
  totps :: "totp_secret list"
  recoveries :: "recovery_code list"
  resets :: "reset_token list"
  deny_list :: "(string \<times> int) list"
  history :: "login_row list"
  api_keys :: "api_key list"
  module_perms :: "(string \<times> string \<times> string \<times> bool) list"   \<comment> \<open>organisation, user, module, may read\<close>
  redis :: "string \<Rightarrow> (redis_value \<times> int option) option"
  mails :: "(string \<times> string) list"                              \<comment> \<open>address, reset token\<close>

section \<open>Redis\<close>

definition live :: "int \<Rightarrow> (redis_value \<times> int option) option \<Rightarrow> redis_value option" where
  "live t x = (case x of None \<Rightarrow> None | Some (v, None) \<Rightarrow> Some v | Some (v, Some e) \<Rightarrow> if t < e then Some v else None)"

definition look :: "'z auth_db_scheme \<Rightarrow> string \<Rightarrow> redis_value option" where
  "look s k = live (now s) (redis s k)"

text \<open>\<^verbatim>\<open>GET\<close>: no answer, or the value or its absence.\<close>

definition redis_get :: "string \<Rightarrow> ('z auth_db_scheme, redis_value option option) state" where
  "redis_get k = do { ok \<leftarrow> attempt; v \<leftarrow> gets (\<lambda>s. look s k); State_Monad.return (if ok then Some v else None) }"

definition put :: "string \<Rightarrow> redis_value \<Rightarrow> int option \<Rightarrow> 'z auth_db_scheme \<Rightarrow> 'z auth_db_scheme" where
  "put k v e s = s\<lparr>redis := (redis s)(k \<mapsto> (v, e))\<rparr>"

definition redis_set :: "string \<Rightarrow> redis_value \<Rightarrow> int option \<Rightarrow> (auth_db, bool) state" where
  "redis_set k v ttl = exec (\<lambda>s. put k v (map_option (\<lambda>d. now s + d) ttl) s)"

definition redis_del :: "string list \<Rightarrow> (auth_db, bool) state" where
  "redis_del ks = exec (\<lambda>s. s\<lparr>redis := (\<lambda>k. if k \<in> set ks then None else redis s k)\<rparr>)"

text \<open>\<^verbatim>\<open>INCR\<close> keeps the expiry of a live key and starts an absent one at 1 without expiry; \<^verbatim>\<open>EXPIRE NX\<close>
  sets one where there is none.\<close>

definition incr :: "string \<Rightarrow> 'z auth_db_scheme \<Rightarrow> 'z auth_db_scheme" where
  "incr k s = (case look s k of Some (RNum n) \<Rightarrow> put k (RNum (n + 1)) (case redis s k of Some (_, e) \<Rightarrow> e | None \<Rightarrow> None) s
     | _ \<Rightarrow> put k (RNum 1) None s)"

definition expire_nx :: "string \<Rightarrow> int \<Rightarrow> 'z auth_db_scheme \<Rightarrow> 'z auth_db_scheme" where
  "expire_nx k ttl s = (case redis s k of Some (v, None) \<Rightarrow> put k v (Some (now s + ttl)) s | _ \<Rightarrow> s)"

section \<open>Tokens\<close>

definition hour :: int where "hour = 3600"
definition AccessTokenTTL :: int where "AccessTokenTTL = hour"
definition RefreshTokenTTL :: int where "RefreshTokenTTL = 30 * 24 * hour"
definition MFAPendingTTL :: int where "MFAPendingTTL = 5 * 60"

record Claims =
  c_user :: string
  c_org :: string
  c_roles :: "string list"
  c_pw :: int
  c_mfa :: bool

definition IssueMFAPendingToken :: "auth_env \<Rightarrow> string \<Rightarrow> string \<Rightarrow> (auth_db, string) state" where
  "IssueMFAPendingToken E userID orgID = do {
     t \<leftarrow> gets now;
     draw (\<lambda>n. ae_seal E n \<lparr>pt_iat = t, pt_exp = t + MFAPendingTTL, pt_user = Some userID, pt_org = Some orgID, pt_roles = None,
       pt_pw = None, pt_mfa = None, pt_pending = Some True\<rparr>) }"

definition ParseMFAPendingToken :: "auth_env \<Rightarrow> int \<Rightarrow> string \<Rightarrow> (string \<times> string) option" where
  "ParseMFAPendingToken E t tok = (case ae_parse E t tok of None \<Rightarrow> None | Some p \<Rightarrow>
     if pt_pending p \<noteq> Some True then None
     else (case pt_user p of None \<Rightarrow> None | Some u \<Rightarrow> if u = '''' then None
       else Some (u, case pt_org p of None \<Rightarrow> '''' | Some g \<Rightarrow> g)))"

definition IssueAccessTokenWithTTL :: "auth_env \<Rightarrow> Claims \<Rightarrow> int \<Rightarrow> (auth_db, string) state" where
  "IssueAccessTokenWithTTL E c ttl = do {
     t \<leftarrow> gets now;
     draw (\<lambda>n. ae_seal E n \<lparr>pt_iat = t, pt_exp = t + ttl, pt_user = Some (c_user c), pt_org = Some (c_org c), pt_roles = Some (c_roles c),
       pt_pw = Some (c_pw c), pt_mfa = Some (c_mfa c), pt_pending = None\<rparr>) }"

definition IssueAccessToken :: "auth_env \<Rightarrow> Claims \<Rightarrow> (auth_db, string) state" where
  "IssueAccessToken E c = IssueAccessTokenWithTTL E c AccessTokenTTL"

definition IssueRefreshToken :: "auth_env \<Rightarrow> (auth_db, string option) state" where
  "IssueRefreshToken E = do { ok \<leftarrow> attempt; r \<leftarrow> draw (ae_random E); State_Monad.return (if ok then Some r else None) }"

definition ParseTokenSubjectForRevocation :: "auth_env \<Rightarrow> string \<Rightarrow> string option" where
  "ParseTokenSubjectForRevocation E tok = (case ae_open E tok of None \<Rightarrow> None | Some p \<Rightarrow>
     (case pt_user p of None \<Rightarrow> None | Some u \<Rightarrow> if u = '''' then None else Some u))"

definition ParseAccessToken :: "auth_env \<Rightarrow> int \<Rightarrow> string \<Rightarrow> Claims option" where
  "ParseAccessToken E t tok = (case ae_parse E t tok of None \<Rightarrow> None | Some p \<Rightarrow>
     if pt_pending p = Some True then None
     else (case (pt_user p, pt_org p, pt_roles p) of
         (Some u, Some g, Some rs) \<Rightarrow> Some \<lparr>c_user = u, c_org = g, c_roles = rs, c_pw = (case pt_pw p of None \<Rightarrow> 0 | Some v \<Rightarrow> v),
           c_mfa = (pt_mfa p = Some True)\<rparr>
       | _ \<Rightarrow> None))"

end
