(* ===== verification/Auth_Session.thy ===== *)
theory Auth_Session
  imports Auth_Core
begin

text \<open>
  Sessions (\<^verbatim>\<open>internal/auth/service.go\<close>, \<^verbatim>\<open>handler.go\<close>, \<^verbatim>\<open>deny_list.go\<close>, \<^verbatim>\<open>session_handler.go\<close>): passwords,
  login with its lockout counters, token pairs, refresh, the version counter that revokes access tokens, logout.
\<close>

section \<open>Passwords\<close>

definition special :: string where
  "special = ''!@#$%^&*()-_=+[]{}|;:'' @ [CHR 0x27, CHR 0x22] @ '',.<>?/'' @ [CHR 0x60] @ ''~'' @ [CHR 0x5C]"

text \<open>Each character counts for the first class it is in. A byte that is no character is read as U+FFFD, which is in none.\<close>

fun rune_class :: "auth_env \<Rightarrow> rune \<Rightarrow> bool \<times> bool \<times> bool" where
  "rune_class E (BadByte c) = (False, False, False)"
| "rune_class E (Rune r) = (if ae_upper E r then (True, False, False) else if ae_digit E r then (False, True, False)
     else (False, False, \<exists>c \<in> set special. r = [c]))"

definition validatePasswordStrength :: "auth_env \<Rightarrow> string \<Rightarrow> bool" where
  "validatePasswordStrength E w \<longleftrightarrow>
     (if length w < 10 then False
      else let cs = map (rune_class E) (runes w) in
        list_ex (\<lambda>(u, d, s). u) cs \<and> list_ex (\<lambda>(u, d, s). d) cs \<and> list_ex (\<lambda>(u, d, s). s) cs)"

section \<open>Token pairs\<close>

record AuthUser =
  us_id :: string
  us_email :: string
  us_name :: string
  us_roles :: "string list"

record AuthResponse =
  rs_access :: string
  rs_refresh :: string
  rs_expires_in :: int
  rs_user :: "AuthUser option"
  rs_session :: string
  rs_csrf :: string
  rs_mfa_required :: bool
  rs_mfa_token :: string

datatype auth_error = InvalidCredentials | NoMembership | StoreFailed | RandomFailed | InvalidRefresh
  | RegistrationDisabled | WeakPassword | DatabaseError | RoleLookup | TokenInvalid

definition pwVersionKey :: "string \<Rightarrow> string" where "pwVersionKey u = ''user_pw_version:'' @ u"
definition refreshRedisKey :: "auth_env \<Rightarrow> string \<Rightarrow> string" where "refreshRedisKey E tok = ''refresh:'' @ ae_sha E tok"
definition tokenDenyKey :: "auth_env \<Rightarrow> string \<Rightarrow> string" where "tokenDenyKey E tok = ''revoked:'' @ ae_sha E tok"

definition user_row :: "string \<Rightarrow> 'z auth_db_scheme \<Rightarrow> user option" where
  "user_row u s = find (\<lambda>r. u_id r = u) (users s)"

definition pwVersionFromDB :: "string \<Rightarrow> ('z auth_db_scheme, int option) state" where
  "pwVersionFromDB u = do { ok \<leftarrow> attempt; r \<leftarrow> gets (user_row u); State_Monad.return (if ok then map_option u_pw r else None) }"

definition currentPwVersion :: "string \<Rightarrow> (auth_db, int) state" where
  "currentPwVersion u = do {
     v \<leftarrow> redis_get (pwVersionKey u);
     (case v of
        Some (Some (RNum n)) \<Rightarrow> State_Monad.return n
      | _ \<Rightarrow> do { p \<leftarrow> pwVersionFromDB u; State_Monad.return (case p of None \<Rightarrow> 0 | Some n \<Rightarrow> n) }) }"

definition hint120 :: "string \<Rightarrow> string" where "hint120 h = take 120 h"

text \<open>The row of the session; a hint that is no text is refused, a known hash only touches its row.\<close>

definition session_row :: "string \<Rightarrow> string \<Rightarrow> string \<Rightarrow> string \<Rightarrow> string \<Rightarrow> int \<Rightarrow> (auth_db, string option) state" where
  "session_row sid u g h hint t =
     (if \<not> text_ok hint then State_Monad.return None
      else do {
        old \<leftarrow> gets (\<lambda>s. find (\<lambda>r. rf_hash r = h) (sessions s));
        ok \<leftarrow> exec (\<lambda>s. s\<lparr>sessions := (case old of
            None \<Rightarrow> sessions s @ [\<lparr>rf_id = sid, rf_user = u, rf_org = g, rf_hash = h, rf_hint = hint, rf_used = now s, rf_created = now s,
              rf_expires = t + RefreshTokenTTL\<rparr>]
          | Some _ \<Rightarrow> update_where (\<lambda>r. rf_hash r = h) (\<lambda>r. r\<lparr>rf_used := now s\<rparr>) (sessions s))\<rparr>);
        State_Monad.return (if ok then Some (case old of None \<Rightarrow> sid | Some r \<Rightarrow> rf_id r) else None) })"

definition issueTokenPair :: "auth_env \<Rightarrow> string \<Rightarrow> string \<Rightarrow> string list \<Rightarrow> string \<Rightarrow> bool \<Rightarrow> (auth_db, auth_error + AuthResponse) state" where
  "issueTokenPair E u g roles hint mfa = do {
     v \<leftarrow> currentPwVersion u;
     access \<leftarrow> IssueAccessToken E \<lparr>c_user = u, c_org = g, c_roles = roles, c_pw = v, c_mfa = mfa\<rparr>;
     r \<leftarrow> IssueRefreshToken E;
     (case r of
        None \<Rightarrow> State_Monad.return (Inl RandomFailed)
      | Some refresh \<Rightarrow> do {
          stored \<leftarrow> redis_set (refreshRedisKey E refresh) (RRefresh \<lparr>rp_user = u, rp_org = g, rp_roles = roles, rp_mfa = mfa\<rparr>) (Some RefreshTokenTTL);
          if \<not> stored then State_Monad.return (Inl StoreFailed)
          else do {
            t \<leftarrow> gets now;
            sid \<leftarrow> draw (ae_uuid E);
            row \<leftarrow> session_row sid u g (ae_sha E refresh) (hint120 hint) t;
            State_Monad.return (Inr \<lparr>rs_access = access, rs_refresh = refresh, rs_expires_in = AccessTokenTTL, rs_user = None,
              rs_session = (case row of None \<Rightarrow> '''' | Some i \<Rightarrow> i), rs_csrf = '''', rs_mfa_required = False, rs_mfa_token = ''''\<rparr>) } }) }"

text \<open>Best effort; a user agent that is no text leaves no row.\<close>

definition recordLogin :: "string \<Rightarrow> string \<Rightarrow> string \<Rightarrow> string \<Rightarrow> string \<Rightarrow> string \<Rightarrow> (auth_db, unit) state" where
  "recordLogin g u email agent source result =
     (if text_ok email \<and> text_ok agent
      then do { _ \<leftarrow> exec (\<lambda>s. s\<lparr>history := history s @ [\<lparr>lh_org = g, lh_user = u, lh_email = email, lh_agent = agent,
        lh_source = source, lh_result = result\<rparr>]\<rparr>); skip }
      else skip)"

section \<open>Registration and login\<close>

record RegisterInput =
  ri_email :: string
  ri_password :: string
  ri_name :: string

definition slug_char :: "char \<Rightarrow> string" where
  "slug_char c = (let n = byte c; l = (if 65 \<le> n \<and> n \<le> 90 then char_of (n + 32) else c); m = byte l in
     if (97 \<le> m \<and> m \<le> 122) \<or> (48 \<le> m \<and> m \<le> 57) \<or> l = CHR ''-'' then [l]
     else if l = CHR '' '' \<or> l = CHR ''_'' then ''-'' else '''')"

fun collapse :: "string \<Rightarrow> string" where
  "collapse (a # b # s) = (if a = CHR ''-'' \<and> b = CHR ''-'' then collapse (b # s) else a # collapse (b # s))"
| "collapse s = s"

text \<open>For names in ASCII; \<^verbatim>\<open>strings.ToLower\<close> can turn two other characters into ASCII letters.\<close>

definition slugify :: "string \<Rightarrow> string" where
  "slugify s = (let t = collapse (concat (map slug_char s)) in
     rev (dropWhile (\<lambda>c. c = CHR ''-'') (rev (dropWhile (\<lambda>c. c = CHR ''-'') t))))"

definition local_part :: "string \<Rightarrow> string" where
  "local_part email = hd (split2 (CHR ''@'') email)"

text \<open>The transaction: user, organisation and membership, or nothing.\<close>

definition register_rows :: "auth_env \<Rightarrow> RegisterInput \<Rightarrow> string \<Rightarrow> string \<Rightarrow> string \<Rightarrow> string \<Rightarrow> string \<Rightarrow> (auth_db, bool) state" where
  "register_rows E i h u g org_name slug = do {
     us \<leftarrow> gets users;
     t \<leftarrow> gets now;
     if ri_email i \<in> u_email ` set us \<or> \<not> text_ok (ri_email i) \<or> \<not> text_ok (ri_name i) \<or> \<not> text_ok org_name then State_Monad.return False
     else exec (\<lambda>s. s\<lparr>users := users s @ [\<lparr>u_id = u, u_email = ri_email i, u_hash = Some h, u_name = Some (ri_name i), u_active = True,
         u_role = ''admin'', u_pw = 0, u_login = None, u_lang = None\<rparr>],
       organizations := organizations s @ [\<lparr>og_id = g, og_name = org_name, og_slug = slug, og_require_mfa = False\<rparr>],
       members := members s @ [\<lparr>m_org = g, m_user = u, m_role = ''Admin'', m_joined = t\<rparr>]\<rparr>) }"

definition Register :: "auth_env \<Rightarrow> RegisterInput \<Rightarrow> string \<Rightarrow> (auth_db, auth_error + AuthResponse) state" where
  "Register E i hint = do {
     ok \<leftarrow> attempt;
     n \<leftarrow> gets (\<lambda>s. length (organizations s));
     if \<not> ok then State_Monad.return (Inl DatabaseError)
     else if n > 0 then State_Monad.return (Inl RegistrationDisabled)
     else if \<not> validatePasswordStrength E (ri_password i) then State_Monad.return (Inl WeakPassword)
     else do {
       hash \<leftarrow> draw (\<lambda>n. ae_hash E n (ri_password i));
       (case hash of
          None \<Rightarrow> State_Monad.return (Inl DatabaseError)
        | Some h \<Rightarrow> do {
            u \<leftarrow> draw (ae_uuid E);
            g \<leftarrow> draw (ae_uuid E);
            rnd \<leftarrow> draw (ae_random E);
            let org_name = (if ri_name i = '''' then local_part (ri_email i) else ri_name i);
            let slug = (if slugify org_name = '''' then rnd else slugify org_name);
            done' \<leftarrow> register_rows E i h u g org_name slug;
            if \<not> done' then State_Monad.return (Inl DatabaseError)
            else do {
              r \<leftarrow> issueTokenPair E u g [''Admin''] hint False;
              (case r of
                 Inl e \<Rightarrow> State_Monad.return (Inl e)
               | Inr resp \<Rightarrow> do { recordLogin g u (ri_email i) hint ''register'' ''ok''; State_Monad.return (Inr resp) }) } }) } }"

text \<open>The cost of an old hash is raised, best effort.\<close>

definition upgrade_hash :: "auth_env \<Rightarrow> string \<Rightarrow> string \<Rightarrow> string \<Rightarrow> (auth_db, unit) state" where
  "upgrade_hash E u h w =
     (case ae_cost E h of
        None \<Rightarrow> skip
      | Some c \<Rightarrow>
          if \<not> c < 12 then skip
          else do {
            new \<leftarrow> draw (\<lambda>n. ae_hash E n w);
            (case new of
               None \<Rightarrow> skip
             | Some h' \<Rightarrow> do { _ \<leftarrow> exec (\<lambda>s. s\<lparr>users := update_where (\<lambda>r. u_id r = u) (\<lambda>r. r\<lparr>u_hash := Some h'\<rparr>) (users s)\<rparr>); skip }) })"

definition memberships :: "string \<Rightarrow> 'z auth_db_scheme \<Rightarrow> member list" where
  "memberships u s = sort_key m_joined (filter (\<lambda>m. m_user m = u) (members s))"

definition userHasMFAEnabled :: "string \<Rightarrow> (auth_db, bool option) state" where
  "userHasMFAEnabled u = do {
     ok \<leftarrow> attempt;
     row \<leftarrow> gets (\<lambda>s. find (\<lambda>r. ts_user r = u) (totps s));
     State_Monad.return (if \<not> ok then None else Some (case row of None \<Rightarrow> False | Some r \<Rightarrow> ts_enabled r)) }"

definition display_name :: "user \<Rightarrow> string" where
  "display_name r = (case u_name r of None \<Rightarrow> u_email r | Some x \<Rightarrow> x)"

text \<open>After the password was right.\<close>

definition login_session :: "auth_env \<Rightarrow> user \<Rightarrow> string \<Rightarrow> string \<Rightarrow> string \<Rightarrow> string \<Rightarrow> (auth_db, auth_error + AuthResponse) state" where
  "login_session E r email g role hint = do {
     _ \<leftarrow> exec (\<lambda>s. s\<lparr>users := update_where (\<lambda>x. u_id x = u_id r) (\<lambda>x. x\<lparr>u_login := Some (now s)\<rparr>) (users s)\<rparr>);
     mfa \<leftarrow> userHasMFAEnabled (u_id r);
     if mfa = Some True then do {
       tok \<leftarrow> IssueMFAPendingToken E (u_id r) g;
       recordLogin g (u_id r) email hint ''password'' ''mfa_pending'';
       State_Monad.return (Inr \<lparr>rs_access = '''', rs_refresh = '''', rs_expires_in = 0, rs_user = None, rs_session = '''', rs_csrf = '''',
         rs_mfa_required = True, rs_mfa_token = tok\<rparr>) }
     else do {
       resp \<leftarrow> issueTokenPair E (u_id r) g [role] hint False;
       (case resp of
          Inl e \<Rightarrow> State_Monad.return (Inl e)
        | Inr a \<Rightarrow> do {
            recordLogin g (u_id r) email hint ''password'' ''ok'';
            State_Monad.return (Inr (a\<lparr>rs_user := Some \<lparr>us_id = u_id r, us_email = email, us_name = display_name r, us_roles = [role]\<rparr>\<rparr>)) }) } }"

definition Login :: "auth_env \<Rightarrow> string \<Rightarrow> string \<Rightarrow> string \<Rightarrow> (auth_db, auth_error + AuthResponse) state" where
  "Login E email w hint = do {
     ok \<leftarrow> attempt;
     row \<leftarrow> gets (\<lambda>s. find (\<lambda>r. u_email r = email \<and> u_active r) (users s));
     (case (if ok then row else None) of
        None \<Rightarrow> do { recordLogin '''' '''' email hint ''password'' ''bad_password''; State_Monad.return (Inl InvalidCredentials) }
      | Some r \<Rightarrow> (case u_hash r of
          None \<Rightarrow> do { recordLogin '''' '''' email hint ''password'' ''bad_password''; State_Monad.return (Inl InvalidCredentials) }
        | Some h \<Rightarrow>
            if \<not> ae_match E h w then do { recordLogin '''' (u_id r) email hint ''password'' ''bad_password''; State_Monad.return (Inl InvalidCredentials) }
            else do {
              upgrade_hash E (u_id r) h w;
              found \<leftarrow> attempt;
              ms \<leftarrow> gets (memberships (u_id r));
              (case (if found then ms else []) of
                 [] \<Rightarrow> State_Monad.return (Inl NoMembership)
               | m # _ \<Rightarrow> login_session E r email (m_org m) (m_role m) hint) })) }"

definition CompleteMFALogin :: "auth_env \<Rightarrow> string \<Rightarrow> string \<Rightarrow> string \<Rightarrow> (auth_db, auth_error + AuthResponse) state" where
  "CompleteMFALogin E u g hint = do {
     ok \<leftarrow> attempt;
     ms \<leftarrow> gets (memberships u);
     (case (if ok then filter (\<lambda>m. m_org m = g) ms else []) of
        [] \<Rightarrow> State_Monad.return (Inl RoleLookup)
      | m # _ \<Rightarrow> do {
          known \<leftarrow> attempt;
          row \<leftarrow> gets (user_row u);
          let (email, name) = (case (if known then row else None) of None \<Rightarrow> ('''', '''') | Some r \<Rightarrow> (u_email r, display_name r));
          resp \<leftarrow> issueTokenPair E u g [m_role m] hint True;
          (case resp of
             Inl e \<Rightarrow> State_Monad.return (Inl e)
           | Inr a \<Rightarrow> do {
               recordLogin g u email hint ''mfa'' ''ok'';
               State_Monad.return (Inr (a\<lparr>rs_user := Some \<lparr>us_id = u, us_email = email, us_name = name, us_roles = [m_role m]\<rparr>\<rparr>)) }) }) }"

section \<open>Refresh\<close>

definition delete_sessions :: "(refresh_session \<Rightarrow> bool) \<Rightarrow> 'z auth_db_scheme \<Rightarrow> 'z auth_db_scheme" where
  "delete_sessions p s = s\<lparr>sessions := filter (\<lambda>r. \<not> p r) (sessions s)\<rparr>"

definition Refresh :: "auth_env \<Rightarrow> string \<Rightarrow> (auth_db, auth_error + AuthResponse) state" where
  "Refresh E tok = do {
     v \<leftarrow> redis_get (refreshRedisKey E tok);
     (case v of
        Some (Some (RRefresh p)) \<Rightarrow> do {
          ok \<leftarrow> attempt;
          row \<leftarrow> gets (user_row (rp_user p));
          ms \<leftarrow> gets (\<lambda>s. filter (\<lambda>m. m_org m = rp_org p) (memberships (rp_user p) s));
          (case (if ok then row else None, ms) of
             (Some r, m # _) \<Rightarrow>
               if \<not> u_active r then State_Monad.return (Inl InvalidRefresh)
               else do {
                 known \<leftarrow> attempt;
                 old \<leftarrow> gets (\<lambda>s. find (\<lambda>r. rf_hash r = ae_sha E tok) (sessions s));
                 let hint = (case (if known then old else None) of None \<Rightarrow> '''' | Some r \<Rightarrow> rf_hint r);
                 _ \<leftarrow> redis_del [refreshRedisKey E tok];
                 _ \<leftarrow> exec (delete_sessions (\<lambda>r. rf_hash r = ae_sha E tok));
                 issueTokenPair E (rp_user p) (rp_org p) [m_role m] hint (rp_mfa p) }
           | _ \<Rightarrow> State_Monad.return (Inl InvalidRefresh)) }
      | _ \<Rightarrow> State_Monad.return (Inl InvalidRefresh)) }"

section \<open>Revocation\<close>

definition revokeInFallback :: "string \<Rightarrow> int \<Rightarrow> (auth_db, bool) state" where
  "revokeInFallback k e = exec (\<lambda>s. s\<lparr>deny_list := (if k \<in> fst ` set (deny_list s) then deny_list s else deny_list s @ [(k, e)])\<rparr>)"

definition RevokeToken :: "auth_env \<Rightarrow> string \<Rightarrow> (auth_db, bool) state" where
  "RevokeToken E tok = do {
     t \<leftarrow> gets now;
     pg \<leftarrow> revokeInFallback (tokenDenyKey E tok) (t + AccessTokenTTL);
     rd \<leftarrow> redis_set (tokenDenyKey E tok) (RNum 1) (Some AccessTokenTTL);
     State_Monad.return (pg \<or> rd) }"

text \<open>The counter in PostgreSQL, then the mirror in Redis; the result says whether the bump is in force.\<close>

definition bumpPwVersion :: "string \<Rightarrow> (auth_db, bool) state" where
  "bumpPwVersion u = do {
     wrote \<leftarrow> exec (\<lambda>s. s\<lparr>users := update_where (\<lambda>r. u_id r = u) (\<lambda>r. r\<lparr>u_pw := u_pw r + 1\<rparr>) (users s)\<rparr>);
     row \<leftarrow> gets (user_row u);
     let new = (case (if wrote then row else None) of None \<Rightarrow> 0 | Some r \<Rightarrow> u_pw r);
     if new > 0 then redis_set (pwVersionKey u) (RNum new) None
     else exec (incr (pwVersionKey u)) }"

definition RevokeAllSessions :: "auth_env \<Rightarrow> string \<Rightarrow> (auth_db, bool) state" where
  "RevokeAllSessions E u = do {
     gone \<leftarrow> gets (\<lambda>s. filter (\<lambda>r. rf_user r = u) (sessions s));
     deleted \<leftarrow> exec (delete_sessions (\<lambda>r. rf_user r = u));
     if \<not> deleted then State_Monad.return False
     else do {
       received \<leftarrow> attempt;
       if \<not> received then State_Monad.return False
       else do {
         _ \<leftarrow> (if gone = [] then State_Monad.return True else redis_del (map (\<lambda>r. ''refresh:'' @ rf_hash r) gone));
         bumpPwVersion u } } }"

section \<open>Lockout\<close>

definition ipEmailLockoutFailMax :: int where "ipEmailLockoutFailMax = 10"
definition ipLockoutTTL :: int where "ipLockoutTTL = 15 * 60"

definition loginIPFailKey :: "string \<Rightarrow> string" where "loginIPFailKey ip = ''login_fail_ip:'' @ ip"
definition loginIPEmailFailKey :: "string \<Rightarrow> string \<Rightarrow> string" where
  "loginIPEmailFailKey ip email = ''login_fail_ip_email:'' @ ip @ '':'' @ email"

text \<open>Locked, not locked, or (failing closed) no answer.\<close>

datatype lock = Locked | Unlocked | LockUnknown

definition lock_of :: "auth_env \<Rightarrow> int \<Rightarrow> redis_value option option \<Rightarrow> lock" where
  "lock_of E m v = (case v of
     Some None \<Rightarrow> Unlocked
   | Some (Some (RNum n)) \<Rightarrow> if n \<ge> m then Locked else Unlocked
   | _ \<Rightarrow> if ae_failopen E then Unlocked else LockUnknown)"

definition checkIPEmailLocked :: "auth_env \<Rightarrow> string \<Rightarrow> string \<Rightarrow> (auth_db, lock) state" where
  "checkIPEmailLocked E ip email = do {
     v \<leftarrow> redis_get (loginIPEmailFailKey ip email);
     State_Monad.return (lock_of E ipEmailLockoutFailMax v) }"

definition checkIPLocked :: "auth_env \<Rightarrow> string \<Rightarrow> (auth_db, lock) state" where
  "checkIPLocked E ip = do {
     v \<leftarrow> redis_get (loginIPFailKey ip);
     State_Monad.return (lock_of E (ae_ipmax E) v) }"

definition count_failure :: "string \<Rightarrow> 'z auth_db_scheme \<Rightarrow> 'z auth_db_scheme" where
  "count_failure k s = expire_nx k ipLockoutTTL (incr k s)"

definition recordIPEmailLoginFailure :: "string \<Rightarrow> string \<Rightarrow> (auth_db, unit) state" where
  "recordIPEmailLoginFailure ip email = do { _ \<leftarrow> exec (count_failure (loginIPEmailFailKey ip email)); skip }"

definition recordIPLoginFailure :: "string \<Rightarrow> (auth_db, unit) state" where
  "recordIPLoginFailure ip = do { _ \<leftarrow> exec (count_failure (loginIPFailKey ip)); skip }"

definition clearLoginFailures :: "string \<Rightarrow> string \<Rightarrow> (auth_db, unit) state" where
  "clearLoginFailures ip email = do { _ \<leftarrow> redis_del [loginIPEmailFailKey ip email]; skip }"

section \<open>The handlers\<close>

record login_request =
  lr_email :: string
  lr_password :: string
  lr_ip :: string
  lr_agent :: string

datatype login_reply = ValidationError | LockoutUnavailable | IPLocked | AccountLocked | BadCredentials | LoggedIn AuthResponse

definition password_length_ok :: "string \<Rightarrow> bool" where
  "password_length_ok w \<longleftrightarrow> 10 \<le> length (runes w) \<and> length (runes w) \<le> 72"

definition GenerateCSRFToken :: "auth_env \<Rightarrow> (auth_db, string) state" where
  "GenerateCSRFToken E = do { ok \<leftarrow> attempt; r \<leftarrow> draw (ae_random E); State_Monad.return (if ok then r else '''') }"

definition login_attempt :: "auth_env \<Rightarrow> login_request \<Rightarrow> (auth_db, login_reply) state" where
  "login_attempt E q = do {
     r \<leftarrow> Login E (lr_email q) (lr_password q) (hint120 (lr_agent q));
     (case r of
        Inl _ \<Rightarrow> do {
          recordIPEmailLoginFailure (lr_ip q) (lr_email q);
          recordIPLoginFailure (lr_ip q);
          State_Monad.return BadCredentials }
      | Inr resp \<Rightarrow> do {
          clearLoginFailures (lr_ip q) (lr_email q);
          if rs_mfa_required resp then State_Monad.return (LoggedIn resp)
          else do { c \<leftarrow> GenerateCSRFToken E; State_Monad.return (LoggedIn (resp\<lparr>rs_csrf := c\<rparr>)) } }) }"

definition Handler_Login :: "auth_env \<Rightarrow> login_request \<Rightarrow> (auth_db, login_reply) state" where
  "Handler_Login E q =
     (if lr_email q = '''' \<or> \<not> ae_email E (lr_email q) \<or> \<not> password_length_ok (lr_password q) then State_Monad.return ValidationError
      else do {
        a \<leftarrow> checkIPLocked E (lr_ip q);
        (case a of
           LockUnknown \<Rightarrow> State_Monad.return LockoutUnavailable
         | Locked \<Rightarrow> State_Monad.return IPLocked
         | Unlocked \<Rightarrow> do {
             b \<leftarrow> checkIPEmailLocked E (lr_ip q) (lr_email q);
             (case b of
                LockUnknown \<Rightarrow> State_Monad.return LockoutUnavailable
              | Locked \<Rightarrow> State_Monad.return AccountLocked
              | Unlocked \<Rightarrow> login_attempt E q) }) })"

datatype logout_reply = MissingHeader | TokenNotRecognised | RevocationFailed | LoggedOut

text \<open>The token comes from the header, or from the cookie when there is no header.\<close>

definition logout_token :: "string \<Rightarrow> string \<Rightarrow> string option" where
  "logout_token header cookie = (let h = (if header = '''' \<and> cookie \<noteq> '''' then ''Bearer '' @ cookie else header) in
     if length h \<le> 7 then None else Some (drop 7 h))"

definition Logout :: "auth_env \<Rightarrow> string \<Rightarrow> string \<Rightarrow> (auth_db, logout_reply) state" where
  "Logout E header cookie =
     (case logout_token header cookie of
        None \<Rightarrow> State_Monad.return MissingHeader
      | Some tok \<Rightarrow> (case ParseTokenSubjectForRevocation E tok of
          None \<Rightarrow> State_Monad.return TokenNotRecognised
        | Some u \<Rightarrow> do {
            a \<leftarrow> RevokeToken E tok;
            b \<leftarrow> RevokeAllSessions E u;
            State_Monad.return (if a \<and> b then LoggedOut else RevocationFailed) }))"

datatype session_reply = SessionNotFound | SessionGone | RevokeQueryFailed | RevokeIncomplete | SessionsRevoked

definition RevokeSession :: "string \<Rightarrow> string \<Rightarrow> (auth_db, session_reply) state" where
  "RevokeSession u sid = do {
     row \<leftarrow> gets (\<lambda>s. find (\<lambda>r. rf_id r = sid \<and> rf_user r = u) (sessions s));
     ok \<leftarrow> exec (delete_sessions (\<lambda>r. rf_id r = sid \<and> rf_user r = u));
     (case (if ok then row else None) of
        None \<Rightarrow> State_Monad.return SessionNotFound
      | Some r \<Rightarrow> do { _ \<leftarrow> redis_del [''refresh:'' @ rf_hash r]; State_Monad.return SessionGone }) }"

text \<open>All sessions but the one named in the header; without one all of them, and the access tokens too.\<close>

definition RevokeAllOtherSessions :: "auth_env \<Rightarrow> string \<Rightarrow> string \<Rightarrow> (auth_db, session_reply) state" where
  "RevokeAllOtherSessions E u current = do {
     let p = (\<lambda>r. rf_user r = u \<and> (current = '''' \<or> rf_id r \<noteq> current));
     gone \<leftarrow> gets (\<lambda>s. filter p (sessions s));
     ok \<leftarrow> (if current \<noteq> '''' \<and> \<not> ae_is_uuid E current then State_Monad.return False else exec (delete_sessions p));
     if \<not> ok then State_Monad.return RevokeQueryFailed
     else do {
       received \<leftarrow> attempt;
       if \<not> received then State_Monad.return RevokeIncomplete
       else do {
         _ \<leftarrow> (if gone = [] then State_Monad.return True else redis_del (map (\<lambda>r. ''refresh:'' @ rf_hash r) gone));
         if current \<noteq> '''' then State_Monad.return SessionsRevoked
         else do {
           b \<leftarrow> bumpPwVersion u;
           State_Monad.return (if b then SessionsRevoked else RevokeIncomplete) } } } }"

end
