(* ===== verification/Auth_Gate.thy ===== *)
theory Auth_Gate
  imports Auth_Session
begin

text \<open>
  What stands between a request and a handler (\<^verbatim>\<open>internal/auth/middleware.go\<close>, \<^verbatim>\<open>csrf.go\<close>,
  \<^verbatim>\<open>module_permission_middleware.go\<close>): access tokens with their deny list and version, API keys with their
  scopes, CSRF, the organisation's second-factor rule, roles and module permissions; and the API keys
  themselves (\<^verbatim>\<open>shared/apikeys\<close>).
\<close>

section \<open>Requests\<close>

record http_request =
  hq_method :: string
  hq_path :: string
  hq_authorization :: string      \<comment> \<open>empty: no such header\<close>
  hq_cookie :: string             \<comment> \<open>\<^verbatim>\<open>access_token\<close>\<close>
  hq_csrf_cookie :: string
  hq_csrf_header :: string

text \<open>What a middleware leaves in the request for those behind it.\<close>

record identity =
  id_user :: string
  id_org :: string
  id_roles :: "string list"
  id_mfa :: bool
  id_api_key :: bool
  id_scopes :: "string list"
  id_sunset :: "int option"

datatype denial = MissingToken | TokenRevoked | InvalidToken | SessionInvalidated | KeyOwnerInactive | InsufficientScope | ReadOnlyKey
  | CSRFMissing | CSRFHeaderMissing | CSRFMismatch | ServiceUnavailable | MFARequired | InsufficientRole "string list"
  | ModuleAccessDenied | PermissionUnavailable

definition bearerToken :: "string \<Rightarrow> string option" where
  "bearerToken header = (if \<not> has_prefix header ''Bearer '' then None
     else let tok = trim_space (drop (length ''Bearer '') header) in if tok = '''' then None else Some tok)"

definition request_token :: "http_request \<Rightarrow> string option" where
  "request_token q = (let h = (if hq_authorization q = '''' \<and> hq_cookie q \<noteq> '''' then ''Bearer '' @ hq_cookie q else hq_authorization q)
     in if h = '''' then None else bearerToken h)"

section \<open>Access tokens\<close>

definition isRevokedInFallback :: "string \<Rightarrow> ('z auth_db_scheme, bool) state" where
  "isRevokedInFallback k = do {
     ok \<leftarrow> attempt;
     hit \<leftarrow> gets (\<lambda>s. \<exists>d \<in> set (deny_list s). fst d = k \<and> snd d > now s);
     State_Monad.return (ok \<and> hit) }"

definition checkDenyList :: "auth_env \<Rightarrow> string \<Rightarrow> (auth_db, bool) state" where
  "checkDenyList E tok = do {
     v \<leftarrow> redis_get (tokenDenyKey E tok);
     (case v of None \<Rightarrow> isRevokedInFallback (tokenDenyKey E tok) | Some x \<Rightarrow> State_Monad.return (x \<noteq> None)) }"

text \<open>Whether the token's version is the user's: Redis first; PostgreSQL when the key is absent or Redis does not
  answer. A value that is no number counts as no answer.\<close>

definition checkPwVersion :: "Claims \<Rightarrow> (auth_db, bool) state" where
  "checkPwVersion c = do {
     v \<leftarrow> redis_get (pwVersionKey (c_user c));
     (case v of
        Some (Some (RNum n)) \<Rightarrow> State_Monad.return (c_pw c = n)
      | _ \<Rightarrow> do {
          p \<leftarrow> pwVersionFromDB (c_user c);
          State_Monad.return (case p of Some n \<Rightarrow> c_pw c = n | None \<Rightarrow> v \<noteq> Some None \<or> c_pw c = 0) }) }"

definition paseto_path :: "auth_env \<Rightarrow> string \<Rightarrow> (auth_db, denial + identity) state" where
  "paseto_path E tok = do {
     revoked \<leftarrow> checkDenyList E tok;
     if revoked then State_Monad.return (Inl TokenRevoked)
     else do {
       t \<leftarrow> gets now;
       (case ParseAccessToken E t tok of
          None \<Rightarrow> State_Monad.return (Inl InvalidToken)
        | Some c \<Rightarrow> do {
            ok \<leftarrow> checkPwVersion c;
            State_Monad.return (if \<not> ok then Inl SessionInvalidated
              else Inr \<lparr>id_user = c_user c, id_org = c_org c, id_roles = c_roles c, id_mfa = c_mfa c, id_api_key = False, id_scopes = [], id_sunset = None\<rparr>) }) } }"

section \<open>API keys\<close>

definition isSafeMethod :: "string \<Rightarrow> bool" where
  "isSafeMethod m \<longleftrightarrow> m = ''GET'' \<or> m = ''HEAD'' \<or> m = ''OPTIONS''"

definition roleRank :: "string \<Rightarrow> nat" where
  "roleRank r = (if r = ''Admin'' then 3 else if r = ''SecurityAnalyst'' then 2 else 1)"

definition capRoleAtCreator :: "string \<Rightarrow> string \<Rightarrow> string" where
  "capRoleAtCreator scopeRole creatorRole =
     (if creatorRole = '''' then ''Viewer''
      else if roleRank scopeRole \<le> roleRank creatorRole then scopeRole
      else if roleRank creatorRole = 1 then ''Viewer''
      else creatorRole)"

definition scopePathPrefixes :: "(string \<times> string list) list" where
  "scopePathPrefixes = map (\<lambda>m. (m, [''/api/v1/'' @ m @ ''/'']))
     [''vaktvault'', ''vaktscan'', ''vaktcomply'', ''vaktaware'', ''vaktprivacy'', ''vakthr'']"

definition has_suffix :: "string \<Rightarrow> string \<Rightarrow> bool" where
  "has_suffix s x \<longleftrightarrow> length x \<le> length s \<and> drop (length s - length x) s = x"

definition trim_suffix :: "string \<Rightarrow> string \<Rightarrow> string" where
  "trim_suffix s x = (if has_suffix s x then take (length s - length x) s else s)"

text \<open>The base module of a scope, and whether it is read-only.\<close>

definition scope_base :: "string \<Rightarrow> string" where
  "scope_base s = trim_suffix (trim_suffix s '':ro'') ''.*''"

definition scope_matches :: "string \<Rightarrow> string \<Rightarrow> bool" where
  "scope_matches path s \<longleftrightarrow> (case map_of scopePathPrefixes (scope_base s) of None \<Rightarrow> False | Some ps \<Rightarrow> list_ex (has_prefix path) ps)"

record scope_match =
  sm_allowed :: bool
  sm_admin :: bool
  sm_rw :: bool
  sm_ro :: bool

fun match_scopes :: "string \<Rightarrow> scope_match \<Rightarrow> string list \<Rightarrow> scope_match" where
  "match_scopes path m [] = m"
| "match_scopes path m (s # ss) =
     (if s = ''admin'' then m\<lparr>sm_admin := True, sm_allowed := True\<rparr>
      else if scope_matches path s
      then match_scopes path (m\<lparr>sm_allowed := True, sm_ro := sm_ro m \<or> has_suffix s '':ro'', sm_rw := sm_rw m \<or> \<not> has_suffix s '':ro''\<rparr>) ss
      else match_scopes path m ss)"

definition key_live :: "int \<Rightarrow> string \<Rightarrow> api_key \<Rightarrow> bool" where
  "key_live t h k \<longleftrightarrow> (ak_hash k = h \<or> (ak_previous k = Some h \<and> (case ak_grace k of None \<Rightarrow> False | Some g \<Rightarrow> g > t))) \<and>
     ak_revoked k = None \<and> (case ak_expires k of None \<Rightarrow> True | Some e \<Rightarrow> e > t)"

definition creator_role :: "api_key \<Rightarrow> 'z auth_db_scheme \<Rightarrow> string" where
  "creator_role k s = (case filter (\<lambda>m. m_user m = ak_creator k \<and> m_org m = ak_org k) (members s) of [] \<Rightarrow> '''' | m # _ \<Rightarrow> m_role m)"

text \<open>The decision over a key that was found, whose owner is active.\<close>

definition key_decision :: "http_request \<Rightarrow> string \<Rightarrow> api_key \<Rightarrow> string \<Rightarrow> identity \<Rightarrow> denial + identity" where
  "key_decision q raw k role i =
     (let scopes = ak_scopes k; personal = has_prefix raw ''vakt_'' in
      if scopes = [] \<and> \<not> personal then Inl InsufficientScope
      else if personal \<and> scopes = [] then Inr (i\<lparr>id_roles := [capRoleAtCreator ''SecurityAnalyst'' role]\<rparr>)
      else let m = match_scopes (hq_path q) \<lparr>sm_allowed = False, sm_admin = False, sm_rw = False, sm_ro = False\<rparr> scopes;
               readOnlyKey = \<not> sm_admin m \<and> sm_ro m \<and> \<not> sm_rw m in
        if \<not> sm_allowed m then Inl InsufficientScope
        else if readOnlyKey \<and> \<not> isSafeMethod (hq_method q) then Inl ReadOnlyKey
        else Inr (i\<lparr>id_roles := [capRoleAtCreator (if sm_admin m then ''Admin'' else if readOnlyKey then ''Viewer'' else ''SecurityAnalyst'') role]\<rparr>))"

text \<open>The time of last use is written beside the request and left out.\<close>

definition handleAPIKey :: "auth_env \<Rightarrow> http_request \<Rightarrow> string \<Rightarrow> (auth_db, denial + identity) state" where
  "handleAPIKey E q raw = do {
     ok \<leftarrow> attempt;
     row \<leftarrow> gets (\<lambda>s. find (key_live (now s) (ae_sha E raw)) (api_keys s));
     (case (if ok then row else None) of
        None \<Rightarrow> State_Monad.return (Inl InvalidToken)
      | Some k \<Rightarrow> do {
          owner \<leftarrow> gets (user_row (ak_creator k));
          role \<leftarrow> gets (creator_role k);
          State_Monad.return (case owner of
              None \<Rightarrow> Inl InvalidToken
            | Some r \<Rightarrow>
                if \<not> u_active r then Inl KeyOwnerInactive
                else key_decision q raw k role \<lparr>id_user = ak_creator k, id_org = ak_org k, id_roles = [], id_mfa = False, id_api_key = True,
                  id_scopes = ak_scopes k, id_sunset = (if ak_hash k = ae_sha E raw then None else ak_grace k)\<rparr>) }) }"

definition AuthMiddleware :: "auth_env \<Rightarrow> http_request \<Rightarrow> (auth_db, denial + identity) state" where
  "AuthMiddleware E q = (case request_token q of
     None \<Rightarrow> State_Monad.return (Inl MissingToken)
   | Some tok \<Rightarrow> if has_prefix tok ''sk_'' \<or> has_prefix tok ''vakt_'' then handleAPIKey E q tok else paseto_path E tok)"

text \<open>The check of a key's scope at a route.\<close>

definition ScopeAllows :: "string list \<Rightarrow> string \<Rightarrow> bool" where
  "ScopeAllows scopes required \<longleftrightarrow> list_ex (\<lambda>s. s = ''*'' \<or> s = required \<or>
     (has_suffix s ''.*'' \<and> has_prefix required (trim_suffix s ''*''))) scopes"

definition RequireScope :: "string \<Rightarrow> identity \<Rightarrow> denial + identity" where
  "RequireScope required i = (if id_api_key i \<and> \<not> ScopeAllows (id_scopes i) required then Inl InsufficientScope else Inr i)"

section \<open>The rest of the chain\<close>

definition CSRFMiddleware :: "string list \<Rightarrow> http_request \<Rightarrow> denial option" where
  "CSRFMiddleware exempt q =
     (if isSafeMethod (hq_method q) then None
      else if has_prefix (hq_authorization q) ''Bearer sk_'' \<or> has_prefix (hq_authorization q) ''Bearer vakt_'' then None
      else if hq_path q \<in> set exempt then None
      else if hq_csrf_cookie q = '''' then Some CSRFMissing
      else if hq_csrf_header q = '''' then Some CSRFHeaderMissing
      else if hq_csrf_cookie q \<noteq> hq_csrf_header q then Some CSRFMismatch
      else None)"

definition mfaExemptPaths :: "string list" where
  "mfaExemptPaths = [''/api/v1/auth/2fa/setup'', ''/api/v1/auth/2fa/confirm'', ''/api/v1/auth/logout'', ''/api/v1/auth/me'',
     ''/api/v1/health'', ''/health'']"

definition MFAEnforceMiddleware :: "http_request \<Rightarrow> identity \<Rightarrow> (auth_db, denial option) state" where
  "MFAEnforceMiddleware q i =
     (if hq_path q \<in> set mfaExemptPaths \<or> id_api_key i \<or> id_org i = '''' \<or> id_user i = '''' then State_Monad.return None
      else do {
        ok \<leftarrow> attempt;
        org \<leftarrow> gets (\<lambda>s. find (\<lambda>g. og_id g = id_org i) (organizations s));
        (case (if ok then org else None) of
           None \<Rightarrow> State_Monad.return (Some ServiceUnavailable)
         | Some g \<Rightarrow>
             if \<not> og_require_mfa g then State_Monad.return None
             else do {
               known \<leftarrow> attempt;
               row \<leftarrow> gets (\<lambda>s. find (\<lambda>r. ts_user r = id_user i) (totps s));
               State_Monad.return (case (if known then row else None) of
                   None \<Rightarrow> Some MFARequired
                 | Some r \<Rightarrow> if ts_enabled r \<and> id_mfa i then None else Some MFARequired) }) })"

definition RequireRole :: "string list \<Rightarrow> identity \<Rightarrow> denial option" where
  "RequireRole allowed i = (if list_ex (\<lambda>r. r \<in> set allowed) (id_roles i) then None else Some (InsufficientRole allowed))"

definition modPermTTL :: int where "modPermTTL = 45"
definition modPermKey :: "string \<Rightarrow> string \<Rightarrow> string" where "modPermKey g u = ''modperm:'' @ g @ '':'' @ u"

definition InvalidateModulePermissions :: "string \<Rightarrow> string \<Rightarrow> (auth_db, unit) state" where
  "InvalidateModulePermissions g u = do { _ \<leftarrow> redis_del [modPermKey g u]; skip }"

text \<open>The permissions of a user: none configured, or what each module's row says.\<close>

definition perms_of :: "string \<Rightarrow> string \<Rightarrow> 'z auth_db_scheme \<Rightarrow> (string \<times> bool) list option" where
  "perms_of g u s = (case filter (\<lambda>(g', u', _). g' = g \<and> u' = u) (module_perms s) of
     [] \<Rightarrow> None | rows \<Rightarrow> Some (map (\<lambda>(_, _, m, r). (m, r)) rows))"

definition loadPermState :: "string \<Rightarrow> string \<Rightarrow> (auth_db, (string \<times> bool) list option option) state" where
  "loadPermState g u = do {
     v \<leftarrow> redis_get (modPermKey g u);
     (case v of
        Some (Some (RPerms p)) \<Rightarrow> State_Monad.return (Some p)
      | _ \<Rightarrow> do {
          ok \<leftarrow> attempt;
          p \<leftarrow> gets (perms_of g u);
          if \<not> ok then State_Monad.return None
          else do { _ \<leftarrow> redis_set (modPermKey g u) (RPerms p) (Some modPermTTL); State_Monad.return (Some p) } }) }"

definition RequireModuleAccess :: "string \<Rightarrow> identity \<Rightarrow> (auth_db, denial option) state" where
  "RequireModuleAccess module i =
     (if id_api_key i \<or> ''admin'' \<in> set (id_roles i) \<or> ''Admin'' \<in> set (id_roles i) \<or> id_org i = '''' \<or> id_user i = '''' then State_Monad.return None
      else do {
        p \<leftarrow> loadPermState (id_org i) (id_user i);
        State_Monad.return (case p of
            None \<Rightarrow> Some PermissionUnavailable
          | Some None \<Rightarrow> None
          | Some (Some ms) \<Rightarrow> if map_of (rev ms) module = Some True then None else Some ModuleAccessDenied) })"

section \<open>Managing API keys\<close>

definition Create_key :: "auth_env \<Rightarrow> string \<Rightarrow> string \<Rightarrow> string \<Rightarrow> string list \<Rightarrow> int option \<Rightarrow> (auth_db, string option) state" where
  "Create_key E g u name scopes expires = do {
     rnd \<leftarrow> attempt;
     secret \<leftarrow> draw (ae_secret E);
     i \<leftarrow> draw (ae_uuid E);
     let raw = ''vakt_'' @ secret;
     if \<not> rnd \<or> \<not> text_ok name \<or> \<not> list_all text_ok scopes then State_Monad.return None
     else do {
       ok \<leftarrow> exec (\<lambda>s. s\<lparr>api_keys := api_keys s @ [\<lparr>ak_id = i, ak_org = g, ak_creator = u, ak_name = name, ak_hash = ae_sha E raw,
         ak_prefix = take 12 raw, ak_scopes = scopes, ak_expires = expires, ak_revoked = None, ak_previous = None, ak_grace = None, ak_rotated = None\<rparr>]\<rparr>);
       State_Monad.return (if ok then Some raw else None) } }"

definition revoke_key_where :: "(api_key \<Rightarrow> bool) \<Rightarrow> (auth_db, bool option) state" where
  "revoke_key_where p = do {
     n \<leftarrow> gets (\<lambda>s. count_where (\<lambda>k. p k \<and> ak_revoked k = None) (api_keys s));
     ok \<leftarrow> exec (\<lambda>s. s\<lparr>api_keys := update_where (\<lambda>k. p k \<and> ak_revoked k = None) (\<lambda>k. k\<lparr>ak_revoked := Some (now s)\<rparr>) (api_keys s)\<rparr>);
     State_Monad.return (if ok then Some (n > 0) else None) }"

definition Revoke_key :: "string \<Rightarrow> string \<Rightarrow> string \<Rightarrow> (auth_db, bool option) state" where
  "Revoke_key g u i = revoke_key_where (\<lambda>k. ak_id k = i \<and> ak_org k = g \<and> ak_creator k = u)"

definition RevokeOrg :: "string \<Rightarrow> string \<Rightarrow> (auth_db, bool option) state" where
  "RevokeOrg g i = revoke_key_where (\<lambda>k. ak_id k = i \<and> ak_org k = g)"

definition RotateKey :: "auth_env \<Rightarrow> string \<Rightarrow> string \<Rightarrow> string \<Rightarrow> (auth_db, string option) state" where
  "RotateKey E g u i = do {
     rnd \<leftarrow> attempt;
     secret \<leftarrow> draw (ae_secret E);
     t \<leftarrow> gets now;
     hit \<leftarrow> gets (\<lambda>s. \<exists>k \<in> set (api_keys s). ak_id k = i \<and> ak_org k = g \<and> ak_creator k = u);
     let raw = ''sk_'' @ secret;
     if \<not> rnd then State_Monad.return None
     else do {
       ok \<leftarrow> exec (\<lambda>s. s\<lparr>api_keys := update_where (\<lambda>k. ak_id k = i \<and> ak_org k = g \<and> ak_creator k = u)
         (\<lambda>k. k\<lparr>ak_previous := Some (ak_hash k), ak_grace := Some (t + 24 * hour), ak_hash := ae_sha E raw, ak_prefix := take 10 raw, ak_rotated := Some t\<rparr>)
         (api_keys s)\<rparr>);
       State_Monad.return (if ok \<and> hit then Some raw else None) } }"

end
