(* ===== verification/Auth_Demo.thy ===== *)
theory Auth_Demo
  imports Auth_Core
begin

text \<open>
  A deployment in which the theorems are applied to concrete worlds: tokens are written out and read back, a hash
  is the text itself. It satisfies \<^const>\<open>good_auth\<close>.
\<close>

section \<open>Tokens written out\<close>

definition codec :: "('a \<Rightarrow> string) \<Rightarrow> (string \<Rightarrow> 'a \<times> string) \<Rightarrow> bool" where
  "codec e d \<longleftrightarrow> (\<forall>x r. d (e x @ r) = (x, r))"

lemma codecD: "codec e d \<Longrightarrow> d (e x @ r) = (x, r)"
  by (simp add: codec_def)

definition put_nat :: "nat \<Rightarrow> string" where "put_nat n = replicate n CHR ''x'' @ ''.''"

fun get_nat :: "string \<Rightarrow> nat \<times> string" where
  "get_nat (c # s) = (if c = CHR ''x'' then let (n, r) = get_nat s in (Suc n, r) else (0, s))"
| "get_nat [] = (0, [])"

definition put_int :: "int \<Rightarrow> string" where "put_int i = put_nat (if i < 0 then 1 else 0) @ put_nat (nat \<bar>i\<bar>)"
definition get_int :: "string \<Rightarrow> int \<times> string" where
  "get_int s = (let (g, r) = get_nat s; (n, r') = get_nat r in (if g = 1 then - int n else int n, r'))"

definition put_text :: "string \<Rightarrow> string" where "put_text s = put_nat (length s) @ s"
definition get_text :: "string \<Rightarrow> string \<times> string" where "get_text s = (let (n, r) = get_nat s in (take n r, drop n r))"

definition put_option :: "('a \<Rightarrow> string) \<Rightarrow> 'a option \<Rightarrow> string" where
  "put_option e x = (case x of None \<Rightarrow> put_nat 0 | Some a \<Rightarrow> put_nat 1 @ e a)"
definition get_option :: "(string \<Rightarrow> 'a \<times> string) \<Rightarrow> string \<Rightarrow> 'a option \<times> string" where
  "get_option d s = (let (n, r) = get_nat s in if n = 0 then (None, r) else let (a, r') = d r in (Some a, r'))"

fun get_items :: "nat \<Rightarrow> string \<Rightarrow> string list \<times> string" where
  "get_items 0 s = ([], s)"
| "get_items (Suc n) s = (let (x, r) = get_text s; (xs, r') = get_items n r in (x # xs, r'))"

definition put_list :: "string list \<Rightarrow> string" where "put_list xs = put_nat (length xs) @ concat (map put_text xs)"
definition get_list :: "string \<Rightarrow> string list \<times> string" where "get_list s = (let (n, r) = get_nat s in get_items n r)"

definition put_bool :: "bool \<Rightarrow> string" where "put_bool b = put_nat (if b then 1 else 0)"
definition get_bool :: "string \<Rightarrow> bool \<times> string" where "get_bool s = (let (n, r) = get_nat s in (n = 1, r))"

lemma nat_codec [simp]: "get_nat (put_nat n @ r) = (n, r)"
  by (induction n) (simp_all add: put_nat_def)

lemma codecs: "codec put_int get_int" "codec put_text get_text" "codec put_list get_list" "codec put_bool get_bool"
proof -
  have t: "get_text (put_text x @ r) = (x, r)" for x r by (simp add: put_text_def get_text_def)
  have "get_items (length xs) (concat (map put_text xs) @ r) = (xs, r)" for xs r by (induction xs) (simp_all add: t)
  then show "codec put_list get_list" by (simp add: codec_def put_list_def get_list_def)
qed (auto simp: codec_def put_int_def get_int_def put_text_def get_text_def put_bool_def get_bool_def)

lemma option_codec: "codec e d \<Longrightarrow> codec (put_option e) (get_option d)"
  by (auto simp: codec_def put_option_def get_option_def split: option.split)

definition put_paseto :: "paseto \<Rightarrow> string" where
  "put_paseto p = put_int (pt_iat p) @ put_int (pt_exp p) @ put_option put_text (pt_user p) @ put_option put_text (pt_org p) @
     put_option put_list (pt_roles p) @ put_option put_int (pt_pw p) @ put_option put_bool (pt_mfa p) @ put_option put_bool (pt_pending p)"

definition get_paseto :: "string \<Rightarrow> paseto" where
  "get_paseto s = (let (a, s) = get_int s; (b, s) = get_int s; (c, s) = get_option get_text s; (d, s) = get_option get_text s;
     (e, s) = get_option get_list s; (f, s) = get_option get_int s; (g, s) = get_option get_bool s; (h, s) = get_option get_bool s in
     \<lparr>pt_iat = a, pt_exp = b, pt_user = c, pt_org = d, pt_roles = e, pt_pw = f, pt_mfa = g, pt_pending = h\<rparr>)"

lemma paseto_codec: "get_paseto (put_paseto p) = p"
  using codecD [OF option_codec [OF codecs(4)], of "pt_pending p" "[]"]
  by (simp add: get_paseto_def put_paseto_def codecD [OF codecs(1)] codecD [OF option_codec [OF codecs(1)]] codecD [OF option_codec [OF codecs(2)]]
      codecD [OF option_codec [OF codecs(3)]] codecD [OF option_codec [OF codecs(4)]])

section \<open>The deployment\<close>

definition seal :: "paseto \<Rightarrow> string" where "seal p = ''v4.'' @ put_paseto p"

definition unseal :: "string \<Rightarrow> paseto option" where
  "unseal s = (if s = seal (get_paseto (drop 3 s)) then Some (get_paseto (drop 3 s)) else None)"

lemma unseal_seal: "unseal (seal p) = Some p"
  by (simp add: unseal_def seal_def paseto_codec)

definition name_of :: "nat \<Rightarrow> string" where "name_of n = replicate (Suc n) CHR ''i''"

definition demo_auth :: auth_env where
  "demo_auth = \<lparr>ae_seal = (\<lambda>n. seal), ae_open = unseal,
     ae_parse = (\<lambda>t s. case unseal s of None \<Rightarrow> None | Some p \<Rightarrow> if t \<le> pt_exp p then Some p else None),
     ae_hash = (\<lambda>n w. Some w), ae_match = (=), ae_cost = (\<lambda>h. Some 12), ae_sha = (\<lambda>s. s), ae_random = name_of, ae_secret = name_of,
     ae_uuid = name_of, ae_is_uuid = (\<lambda>s. True), ae_decrypt = Some, ae_encrypt = (\<lambda>n s. Some s), ae_totp = (\<lambda>s c t. c = s),
     ae_email = (\<lambda>s. s \<noteq> ''''), ae_upper = (\<lambda>r. r = ''A''), ae_digit = (\<lambda>r. r = ''1''), ae_failopen = False, ae_ipmax = 50\<rparr>"

lemma demo_good: "good_auth demo_auth"
  by (simp add: good_auth_def demo_auth_def unseal_seal)

definition ann :: user where
  "ann = \<lparr>u_id = ''u'', u_email = ''a@b'', u_hash = Some ''pw'', u_name = None, u_active = True, u_role = ''admin'', u_pw = 0, u_login = None, u_lang = None\<rparr>"

definition ann_member :: member where "ann_member = \<lparr>m_org = ''g'', m_user = ''u'', m_role = ''Admin'', m_joined = 0\<rparr>"

definition demo_world :: "bool list \<Rightarrow> auth_db" where
  "demo_world l = \<lparr>faults = l, now = 0, fresh = 0, users = [ann], members = [ann_member],
     organizations = [\<lparr>og_id = ''g'', og_name = ''G'', og_slug = ''g'', og_require_mfa = False\<rparr>],
     sessions = [], totps = [\<lparr>ts_user = ''u'', ts_secret = ''123456'', ts_enabled = True, ts_backup = [''AAAA-AAAA'']\<rparr>], recoveries = [],
     resets = [\<lparr>rt_id = ''r'', rt_user = ''u'', rt_hash = ''link'', rt_expires = 3600, rt_used = None\<rparr>],
     deny_list = [], history = [], api_keys = [\<lparr>ak_id = ''k'', ak_org = ''g'', ak_creator = ''u'', ak_name = ''ci'', ak_hash = ''vakt_key'', ak_prefix = ''vakt_key'',
       ak_scopes = [], ak_expires = None, ak_revoked = None, ak_previous = None, ak_grace = None, ak_rotated = None\<rparr>],
     module_perms = [], redis = (\<lambda>_. None), mails = []\<rparr>"

text \<open>The world seen from the parts of it.\<close>

lemma demo_world_simps [simp]: "faults (demo_world l) = l" "now (demo_world l) = 0" "fresh (demo_world l) = 0" "users (demo_world l) = [ann]"
  "members (demo_world l) = [ann_member]" "redis (demo_world l) = (\<lambda>_. None)" "deny_list (demo_world l) = []" "sessions (demo_world l) = []"
  "organizations (demo_world l) \<noteq> []" "look (demo_world l) k = None"
  by (simp_all add: demo_world_def look_def live_def)

end
