(* ===== verification/Auth_Access.thy ===== *)
theory Auth_Access
  imports Auth_Gate Auth_Demo
begin

text \<open>
  Who gets through (\<^verbatim>\<open>internal/auth\<close>): the two kinds of token are never mistaken for each other, a session passes
  only with an authentic, current, unrevoked token, an API key never carries more than its creator has.
\<close>

section \<open>Tokens\<close>

lemma good_parse:
  assumes "good_auth E"
  shows "ae_parse E t (ae_seal E n p) = (if t \<le> pt_exp p then Some p else None)"
  using assms by (simp add: good_auth_def)

text \<open>C15: tokens have two types, and no check takes one for the other. An access token is read back with exactly its
  claims until its hour is over, and is never a pending token; a pending token names its user for five minutes and
  is never an access token. Both name their user for a revocation, at any age.\<close>

theorem token_types:
  assumes "good_auth E" "run_state (IssueAccessToken E c) s = (a, s1)" "run_state (IssueMFAPendingToken E u g) s = (p, s2)"
  shows "ParseAccessToken E t a = (if t \<le> now s + 3600 then Some c else None) \<and> ParseMFAPendingToken E t a = None \<and>
    ParseMFAPendingToken E t p = (if t \<le> now s + 300 \<and> u \<noteq> '''' then Some (u, g) else None) \<and> ParseAccessToken E t p = None \<and>
    ParseTokenSubjectForRevocation E a = (if c_user c = '''' then None else Some (c_user c)) \<and>
    ParseTokenSubjectForRevocation E p = (if u = '''' then None else Some u)"
proof -
  have a: "a = ae_seal E (fresh s) \<lparr>pt_iat = now s, pt_exp = now s + 3600, pt_user = Some (c_user c), pt_org = Some (c_org c),
      pt_roles = Some (c_roles c), pt_pw = Some (c_pw c), pt_mfa = Some (c_mfa c), pt_pending = None\<rparr>"
    using assms(2) by (auto simp: IssueAccessToken_def IssueAccessTokenWithTTL_def run_simps AccessTokenTTL_def hour_def)
  have p: "p = ae_seal E (fresh s) \<lparr>pt_iat = now s, pt_exp = now s + 300, pt_user = Some u, pt_org = Some g,
      pt_roles = None, pt_pw = None, pt_mfa = None, pt_pending = Some True\<rparr>"
    using assms(3) by (auto simp: IssueMFAPendingToken_def run_simps MFAPendingTTL_def)
  have "\<And>n q. ae_open E (ae_seal E n q) = Some q" using assms(1) by (simp add: good_auth_def)
  then show ?thesis
    by (simp add: a p good_parse [OF assms(1)] ParseAccessToken_def ParseMFAPendingToken_def ParseTokenSubjectForRevocation_def)
qed

definition ann_claims :: Claims where
  "ann_claims = \<lparr>c_user = ''u'', c_org = ''g'', c_roles = [''Admin''], c_pw = 0, c_mfa = False\<rparr>"

lemma token_types_witness:
  "ParseAccessToken demo_auth 3600 (fst (run_state (IssueAccessToken demo_auth ann_claims) (demo_world []))) = Some ann_claims \<and>
   ParseMFAPendingToken demo_auth 300 (fst (run_state (IssueMFAPendingToken demo_auth ''u'' ''g'') (demo_world []))) = Some (''u'', ''g'')"
  using token_types [OF demo_good prod.collapse [symmetric] prod.collapse [symmetric], where c = ann_claims and s = "demo_world []" and u = "''u''" and g = "''g''" and t = 300]
    token_types [OF demo_good prod.collapse [symmetric] prod.collapse [symmetric], where c = ann_claims and s = "demo_world []" and u = "''u''" and g = "''g''" and t = 3600]
  by simp

section \<open>A request with a session\<close>

text \<open>The version the check compares with when every store answers.\<close>

definition pw_version :: "string \<Rightarrow> 'z auth_db_scheme \<Rightarrow> int option" where
  "pw_version u s = (case look s (pwVersionKey u) of Some (RNum n) \<Rightarrow> Some n | _ \<Rightarrow> map_option u_pw (user_row u s))"

text \<open>Redis and PostgreSQL answer, or Redis is down and PostgreSQL answers.\<close>

definition redis_down :: "bool list \<Rightarrow> bool" where
  "redis_down l \<longleftrightarrow> l = [True, False, True, False]"

definition version_holds :: "Claims \<Rightarrow> bool \<Rightarrow> 'z auth_db_scheme \<Rightarrow> bool" where
  "version_holds c down s = (case if down then map_option u_pw (user_row (c_user c) s) else pw_version (c_user c) s of
     Some n \<Rightarrow> c_pw c = n
   | None \<Rightarrow> down \<or> look s (pwVersionKey (c_user c)) \<noteq> None \<or> c_pw c = 0)"

definition revoked :: "auth_env \<Rightarrow> string \<Rightarrow> bool \<Rightarrow> 'z auth_db_scheme \<Rightarrow> bool" where
  "revoked E tok down s \<longleftrightarrow> (if down then \<exists>d \<in> set (deny_list s). fst d = tokenDenyKey E tok \<and> snd d > now s
     else look s (tokenDenyKey E tok) \<noteq> None)"

definition session_identity :: "Claims \<Rightarrow> identity" where
  "session_identity c = \<lparr>id_user = c_user c, id_org = c_org c, id_roles = c_roles c, id_mfa = c_mfa c, id_api_key = False, id_scopes = [], id_sunset = None\<rparr>"

definition session_answer :: "auth_env \<Rightarrow> string \<Rightarrow> bool \<Rightarrow> 'z auth_db_scheme \<Rightarrow> denial + identity" where
  "session_answer E tok down s = (if revoked E tok down s then Inl TokenRevoked
     else case ParseAccessToken E (now s) tok of None \<Rightarrow> Inl InvalidToken
       | Some c \<Rightarrow> if version_holds c down s then Inr (session_identity c) else Inl SessionInvalidated)"

lemma look_faults [simp]: "look (s\<lparr>faults := t\<rparr>) k = look s k"
  by (simp add: look_def)

lemma user_row_faults [simp]: "user_row u (s\<lparr>faults := t\<rparr>) = user_row u s"
  by (simp add: user_row_def)

lemma run_attempt: "run_state attempt s = (case faults s of [] \<Rightarrow> (True, s) | b # t \<Rightarrow> (\<not> b, s\<lparr>faults := t\<rparr>))"
  by (simp add: attempt_def)

lemmas session_defs = paseto_path_def checkDenyList_def redis_get_def isRevokedInFallback_def checkPwVersion_def pwVersionFromDB_def
  session_answer_def revoked_def version_holds_def session_identity_def

lemma paseto_run:
  "faults s = [] \<Longrightarrow> fst (run_state (paseto_path E tok) s) = session_answer E tok False s"
  "redis_down (faults s) \<Longrightarrow> fst (run_state (paseto_path E tok) s) = session_answer E tok True s"
  subgoal by (auto simp: session_defs run_simps pw_version_def split: option.splits redis_value.splits)
  subgoal by (simp add: session_defs run_attempt run_gets redis_down_def split: option.split)
  done

lemma wp_any: "(\<And>a t. Q a t) \<Longrightarrow> wp m Q s"
  by (simp add: wp_def split_def)

lemma checkDenyList_now: "wp (checkDenyList E tok) (\<lambda>_ t. now t = now s) s"
  unfolding checkDenyList_def redis_get_def isRevokedInFallback_def
  by (intro wp_intros) (auto intro!: wp_intros split: option.split)

lemma paseto_sound:
  "wp (paseto_path E tok) (\<lambda>r t. \<forall>i. r = Inr i \<longrightarrow> (\<exists>c. ParseAccessToken E (now s) tok = Some c \<and> i = session_identity c)) s"
proof -
  have "wp (case ParseAccessToken E (now s) tok of None \<Rightarrow> State_Monad.return (Inl InvalidToken)
      | Some c \<Rightarrow> do { ok \<leftarrow> checkPwVersion c; State_Monad.return (if \<not> ok then Inl SessionInvalidated else Inr (session_identity c)) })
      (\<lambda>r t. \<forall>i. r = Inr i \<longrightarrow> (\<exists>c. ParseAccessToken E (now s) tok = Some c \<and> i = session_identity c)) u" for u
    by (cases "ParseAccessToken E (now s) tok") (auto simp: wp_rules intro: wp_any)
  then show ?thesis unfolding paseto_path_def wp_bind session_identity_def
    by (intro wp_mono [OF checkDenyList_now]) (auto simp: wp_rules)
qed

text \<open>C9: who holds a session. When the middleware lets a request with a session token through, whatever fails on the way,
  the token was sealed by this server, is no pending token, is not past its hour, and the identity is exactly what it
  names. When the stores answer, or Redis is down and PostgreSQL answers, the verdict is exactly: on the
  deny list refused, else unreadable or expired refused, else of another version than the user's refused, else passed.\<close>

theorem session_gate:
  assumes "good_auth E" "request_token q = Some tok" "\<not> has_prefix tok ''sk_''" "\<not> has_prefix tok ''vakt_''"
  shows "(\<forall>i t. run_state (AuthMiddleware E q) s = (Inr i, t) \<longrightarrow> (\<exists>p. ae_open E tok = Some p \<and> pt_pending p \<noteq> Some True \<and> now s \<le> pt_exp p \<and>
      pt_user p = Some (id_user i) \<and> pt_org p = Some (id_org i) \<and> pt_roles p = Some (id_roles i) \<and> id_mfa i = (pt_mfa p = Some True) \<and> \<not> id_api_key i)) \<and>
    (faults s = [] \<longrightarrow> fst (run_state (AuthMiddleware E q) s) = session_answer E tok False s) \<and>
    (redis_down (faults s) \<longrightarrow> fst (run_state (AuthMiddleware E q) s) = session_answer E tok True s)"
proof -
  have m: "AuthMiddleware E q = paseto_path E tok" using assms(2-4) by (simp add: AuthMiddleware_def)
  have "\<exists>p. ae_open E tok = Some p \<and> pt_pending p \<noteq> Some True \<and> now s \<le> pt_exp p \<and>
      pt_user p = Some (id_user i) \<and> pt_org p = Some (id_org i) \<and> pt_roles p = Some (id_roles i) \<and> id_mfa i = (pt_mfa p = Some True) \<and> \<not> id_api_key i"
    if "run_state (paseto_path E tok) s = (Inr i, t)" for i t
  proof -
    from paseto_sound [of E tok s] that obtain c where c: "ParseAccessToken E (now s) tok = Some c" "i = session_identity c"
      by (auto simp: wp_def)
    then show ?thesis using assms(1)
      by (auto simp: ParseAccessToken_def good_auth_def session_identity_def split: option.splits if_splits)
  qed
  then show ?thesis using paseto_run [of s E tok] by (simp add: m)
qed

definition ann_token :: string where
  "ann_token = seal \<lparr>pt_iat = 0, pt_exp = 3, pt_user = Some ''u'', pt_org = Some ''g'', pt_roles = Some [''Admin''], pt_pw = Some 0, pt_mfa = Some False, pt_pending = None\<rparr>"

definition bearer :: "string \<Rightarrow> http_request" where
  "bearer t = \<lparr>hq_method = ''GET'', hq_path = ''/api/v1/vaktscan/scans'', hq_authorization = ''Bearer '' @ t, hq_cookie = [], hq_csrf_cookie = [], hq_csrf_header = []\<rparr>"

lemma ann_request: "request_token (bearer ann_token) = Some ann_token" "\<not> has_prefix ann_token ''sk_''" "\<not> has_prefix ann_token ''vakt_''"
  by code_simp+

lemma ann_parses: "0 \<le> t \<Longrightarrow> t \<le> 3 \<Longrightarrow> ParseAccessToken demo_auth t ann_token = Some ann_claims"
  by (simp add: ParseAccessToken_def demo_auth_def ann_token_def unseal_seal ann_claims_def)

lemma ann_answer: "session_answer demo_auth ann_token False (demo_world []) = Inr (session_identity ann_claims)"
  by (simp add: session_answer_def revoked_def ann_parses version_holds_def pw_version_def user_row_def) (simp add: ann_def ann_claims_def)

lemma session_gate_witness: "fst (run_state (AuthMiddleware demo_auth (bearer ann_token)) (demo_world [])) = Inr (session_identity ann_claims)"
  using session_gate [OF demo_good ann_request, of "demo_world []"] by (simp add: ann_answer)

section \<open>A request with an API key\<close>

lemma match_scopes_admin: "sm_admin (match_scopes path m ss) \<longleftrightarrow> sm_admin m \<or> ''admin'' \<in> set ss"
  by (induction ss arbitrary: m) auto

lemma match_scopes_plain:
  assumes "''admin'' \<notin> set ss"
  shows "sm_allowed (match_scopes path m ss) \<longleftrightarrow> sm_allowed m \<or> (\<exists>s \<in> set ss. scope_matches path s)"
    "sm_ro (match_scopes path m ss) \<longleftrightarrow> sm_ro m \<or> (\<exists>s \<in> set ss. scope_matches path s \<and> has_suffix s '':ro'')"
    "sm_rw (match_scopes path m ss) \<longleftrightarrow> sm_rw m \<or> (\<exists>s \<in> set ss. scope_matches path s \<and> \<not> has_suffix s '':ro'')"
  using assms by (induction ss arbitrary: m) auto

lemma rank_values [simp]: "roleRank ''Admin'' = 3" "roleRank ''SecurityAnalyst'' = 2" "roleRank ''Viewer'' = 1" "roleRank [] = 1"
  by (simp_all add: roleRank_def)

lemma rank_bounds: "1 \<le> roleRank r" "roleRank r = 3 \<longleftrightarrow> r = ''Admin''" "roleRank r \<le> 3"
  by (simp_all add: roleRank_def)

lemma cap_rank: "roleRank (capRoleAtCreator r c) \<le> roleRank c"
  using rank_bounds(1) [of c] by (auto simp: capRoleAtCreator_def)

lemma cap_viewer: "capRoleAtCreator ''Viewer'' c = ''Viewer''"
  using rank_bounds(1) [of c] by (simp add: capRoleAtCreator_def)

lemma cap_le: "roleRank (capRoleAtCreator r c) \<le> roleRank r"
  using rank_bounds(1) [of r] by (simp add: capRoleAtCreator_def)

text \<open>What a key may do, with the role of its creator.\<close>

definition key_bounds :: "http_request \<Rightarrow> string \<Rightarrow> api_key \<Rightarrow> string \<Rightarrow> identity \<Rightarrow> bool" where
  "key_bounds q raw k role i \<longleftrightarrow> id_user i = ak_creator k \<and> id_org i = ak_org k \<and> id_api_key i \<and> \<not> id_mfa i \<and>
     (\<exists>r. id_roles i = [r] \<and> roleRank r \<le> roleRank role) \<and>
     (ak_scopes k = [] \<longrightarrow> has_prefix raw ''vakt_'' \<and> id_roles i \<noteq> [''Admin'']) \<and>
     (ak_scopes k \<noteq> [] \<and> ''admin'' \<notin> set (ak_scopes k) \<longrightarrow> (\<exists>s \<in> set (ak_scopes k). scope_matches (hq_path q) s) \<and> id_roles i \<noteq> [''Admin''] \<and>
       ((\<forall>s \<in> set (ak_scopes k). scope_matches (hq_path q) s \<longrightarrow> has_suffix s '':ro'') \<longrightarrow> isSafeMethod (hq_method q) \<and> id_roles i = [''Viewer'']))"

lemma analyst_not_admin: "capRoleAtCreator ''SecurityAnalyst'' c \<noteq> ''Admin''"
proof
  assume "capRoleAtCreator ''SecurityAnalyst'' c = ''Admin''"
  with cap_le [of "''SecurityAnalyst''" c] show False by simp
qed

text \<open>Every way through \<^const>\<open>key_decision\<close>.\<close>

abbreviation no_match :: scope_match where
  "no_match \<equiv> \<lparr>sm_allowed = False, sm_admin = False, sm_rw = False, sm_ro = False\<rparr>"

definition read_only :: "scope_match \<Rightarrow> bool" where
  "read_only m \<longleftrightarrow> \<not> sm_admin m \<and> sm_ro m \<and> \<not> sm_rw m"

lemma key_decision_cases:
  assumes "key_decision q raw k role i0 = Inr i"
  obtains "ak_scopes k = []" "has_prefix raw ''vakt_''" "i = i0\<lparr>id_roles := [capRoleAtCreator ''SecurityAnalyst'' role]\<rparr>"
  | m r where "ak_scopes k \<noteq> []" "m = match_scopes (hq_path q) no_match (ak_scopes k)" "sm_allowed m"
      "read_only m \<longrightarrow> isSafeMethod (hq_method q)"
      "r = (if sm_admin m then ''Admin'' else if read_only m then ''Viewer'' else ''SecurityAnalyst'')"
      "i = i0\<lparr>id_roles := [capRoleAtCreator r role]\<rparr>"
proof (cases "ak_scopes k = []")
  case True
  then have "has_prefix raw ''vakt_''" "i = i0\<lparr>id_roles := [capRoleAtCreator ''SecurityAnalyst'' role]\<rparr>"
    using assms by (simp_all add: key_decision_def Let_def split: if_splits)
  with True show ?thesis by (rule that(1))
next
  case False
  define m where "m = match_scopes (hq_path q) no_match (ak_scopes k)"
  define r where "r = (if sm_admin m then ''Admin'' else if read_only m then ''Viewer'' else ''SecurityAnalyst'')"
  have d: "key_decision q raw k role i0 = (if \<not> sm_allowed m then Inl InsufficientScope
      else if read_only m \<and> \<not> isSafeMethod (hq_method q) then Inl ReadOnlyKey else Inr (i0\<lparr>id_roles := [capRoleAtCreator r role]\<rparr>))"
    using False by (simp only: key_decision_def Let_def m_def r_def read_only_def simp_thms if_False)
  have "sm_allowed m" "read_only m \<longrightarrow> isSafeMethod (hq_method q)" "i = i0\<lparr>id_roles := [capRoleAtCreator r role]\<rparr>"
    using assms unfolding d by (simp_all split: if_splits)
  with False m_def r_def show ?thesis using that(2) by blast
qed

lemma key_decision_bounds:
  assumes "key_decision q raw k role i0 = Inr i" "id_user i0 = ak_creator k" "id_org i0 = ak_org k" "id_api_key i0" "\<not> id_mfa i0"
  shows "key_bounds q raw k role i"
  using assms(1)
proof (cases rule: key_decision_cases)
  case 1
  then show ?thesis using assms(2-5) by (simp add: key_bounds_def cap_rank analyst_not_admin)
next
  case (2 m r)
  show ?thesis
  proof (cases "''admin'' \<in> set (ak_scopes k)")
    case True
    then show ?thesis using 2(1,6) assms(2-5) by (simp add: key_bounds_def cap_rank)
  next
    case False
    note m = match_scopes_plain [OF False, of "hq_path q" no_match, folded 2(2), simplified] match_scopes_admin [of "hq_path q" no_match "ak_scopes k", folded 2(2), simplified]
    have s: "\<exists>s \<in> set (ak_scopes k). scope_matches (hq_path q) s" using 2(3) m(1) by simp
    have "r \<noteq> ''Admin''" using 2(5) m(4) False by simp
    then have a: "capRoleAtCreator r role \<noteq> ''Admin''" using 2(5) m(4) False by (simp add: cap_viewer analyst_not_admin)
    have "read_only m" if "\<forall>s \<in> set (ak_scopes k). scope_matches (hq_path q) s \<longrightarrow> has_suffix s '':ro''"
      using that s m False unfolding read_only_def by blast
    then show ?thesis using 2 s a assms(2-5) m(4) False by (simp add: key_bounds_def cap_rank cap_viewer)
  qed
qed

text \<open>C10: what an API key can do. A key that gets a request through is live (its hash, or the one before within the grace
  of a rotation, neither revoked nor expired), its creator is active, the identity is its creator in its organisation
  with one role, never above the creator's own role there; without the admin scope the path belongs to
  one of its scopes, and a key whose matching scopes are read-only reads only, as a viewer. This holds for
  every pattern of failures.\<close>

theorem api_key_bounded:
  assumes "request_token q = Some raw" "has_prefix raw ''sk_'' \<or> has_prefix raw ''vakt_''" "run_state (AuthMiddleware E q) s = (Inr i, t)"
  shows "\<exists>k \<in> set (api_keys s). key_live (now s) (ae_sha E raw) k \<and> (\<exists>u. user_row (ak_creator k) s = Some u \<and> u_active u) \<and>
    key_bounds q raw k (creator_role k s) i"
proof -
  have "wp (handleAPIKey E q raw) (\<lambda>r t. \<forall>i. r = Inr i \<longrightarrow> (\<exists>k \<in> set (api_keys s). key_live (now s) (ae_sha E raw) k \<and>
      (\<exists>u. user_row (ak_creator k) s = Some u \<and> u_active u) \<and> key_bounds q raw k (creator_role k s) i)) s"
    unfolding handleAPIKey_def
    by (intro wp_intros) (force simp: creator_role_def split: option.splits if_splits dest!: find_Some_in intro: key_decision_bounds)+
  moreover have "AuthMiddleware E q = handleAPIKey E q raw" using assms(1,2) by (auto simp: AuthMiddleware_def)
  ultimately show ?thesis using assms(3) by (simp add: wp_def)
qed

lemma demo_key_request: "request_token (bearer ''vakt_key'') = Some ''vakt_key''" "has_prefix ''vakt_key'' ''vakt_''"
  "request_token (bearer ''sk_i'') = Some ''sk_i''" by code_simp+

lemma api_key_bounded_witness: "\<exists>i t. run_state (AuthMiddleware demo_auth (bearer ''vakt_key'')) (demo_world []) = (Inr i, t) \<and>
    (\<exists>k \<in> set (api_keys (demo_world [])). key_live 0 ''vakt_key'' k \<and> key_bounds (bearer ''vakt_key'') ''vakt_key'' k (creator_role k (demo_world [])) i)"
proof -
  have "\<not> isl (fst (run_state (AuthMiddleware demo_auth (bearer ''vakt_key'')) (demo_world [])))" by code_simp
  then obtain i where "fst (run_state (AuthMiddleware demo_auth (bearer ''vakt_key'')) (demo_world [])) = Inr i"
    by (cases "fst (run_state (AuthMiddleware demo_auth (bearer ''vakt_key'')) (demo_world []))") auto
  then obtain t where r: "run_state (AuthMiddleware demo_auth (bearer ''vakt_key'')) (demo_world []) = (Inr i, t)" by (metis prod.collapse)
  with api_key_bounded [OF demo_key_request(1) disjI2 [OF demo_key_request(2)] r] show ?thesis
    by (auto simp: demo_auth_def)
qed

text \<open>C19: a rotated personal key is dead. Rotating a key without scopes, which is what a personal key is, yields a key that no
  request is let through with: it does not have the prefix that makes an empty list of scopes mean full access. The old
  key ends a day later.\<close>

theorem rotation_kills_personal_key:
  assumes "run_state (RotateKey E g u i) s = (Some raw, t)" "\<forall>k \<in> set (api_keys s). ak_id k = i \<longrightarrow> ak_scopes k = []"
    and "\<forall>k \<in> set (api_keys s). ak_hash k \<noteq> ae_sha E raw \<and> ak_previous k \<noteq> Some (ae_sha E raw)"
    and "api_keys v = api_keys t" "request_token q = Some raw"
  shows "\<exists>d. fst (run_state (AuthMiddleware E q) v) = Inl d"
proof -
  have sk: "has_prefix raw ''sk_''" "\<not> has_prefix raw ''vakt_''" "api_keys t = update_where (\<lambda>k. ak_id k = i \<and> ak_org k = g \<and> ak_creator k = u)
      (\<lambda>k. k\<lparr>ak_previous := Some (ak_hash k), ak_grace := Some (now s + 24 * hour), ak_hash := ae_sha E raw, ak_prefix := take 10 raw, ak_rotated := Some (now s)\<rparr>) (api_keys s)"
    using assms(1) by (auto simp: RotateKey_def run_simps Let_def has_prefix_def exec_def run_attempt split: if_splits prod.splits list.splits)
  have scopes: "ak_scopes k = []" if "k \<in> set (api_keys v)" "key_live t' (ae_sha E raw) k" for k t'
    using that assms(2,3,4) by (auto simp: sk(3) set_update_where key_live_def split: if_splits)
  have "wp (handleAPIKey E q raw) (\<lambda>r t. \<exists>d. r = Inl d) v"
    unfolding handleAPIKey_def
    by (intro wp_intros) (use sk(2) in \<open>auto simp: key_decision_def Let_def dest!: find_Some_in scopes split: option.splits if_splits\<close>)
  then show ?thesis using assms(5) sk(1) by (simp add: AuthMiddleware_def wp_def split_def)
qed

lemma rotation_kills_personal_key_witness:
  "\<exists>d. fst (run_state (AuthMiddleware demo_auth (bearer ''sk_i'')) (snd (run_state (RotateKey demo_auth ''g'' ''u'' ''k'') (demo_world [])))) = Inl d"
proof -
  have f: "fst (run_state (RotateKey demo_auth ''g'' ''u'' ''k'') (demo_world [])) = Some ''sk_i''" by code_simp
  have k: "\<forall>k \<in> set (api_keys (demo_world [])). ak_id k = ''k'' \<longrightarrow> ak_scopes k = []"
    "\<forall>k \<in> set (api_keys (demo_world [])). ak_hash k \<noteq> ae_sha demo_auth ''sk_i'' \<and> ak_previous k \<noteq> Some (ae_sha demo_auth ''sk_i'')"
    by code_simp+
  obtain t where t: "run_state (RotateKey demo_auth ''g'' ''u'' ''k'') (demo_world []) = (Some ''sk_i'', t)" using f by (metis prod.collapse)
  show ?thesis using rotation_kills_personal_key [OF t k refl demo_key_request(3)] by (simp add: t)
qed

end
