(* ===== verification/Auth_Factor.thy ===== *)
theory Auth_Factor
  imports Auth_Session
begin

text \<open>
  The second factor (\<^verbatim>\<open>internal/auth/totp_handler.go\<close>, \<^verbatim>\<open>totp.go\<close>, \<^verbatim>\<open>recovery_codes.go\<close>): enrolment, codes that are
  used once, backup and recovery codes, the second stage of a login.
\<close>

section \<open>Codes\<close>

definition backupCodeCount :: nat where "backupCodeCount = 8"
definition recoveryCodeCount :: nat where "recoveryCodeCount = 8"

text \<open>\<open>ae_random\<close> yields lower-case hexadecimal digits; the codes are upper case.\<close>

definition backup_code :: "string \<Rightarrow> string" where
  "backup_code h = (let x = to_upper h in take 4 x @ ''-'' @ take 4 (drop 4 x))"

definition recovery_plain :: "string \<Rightarrow> string" where
  "recovery_plain h = (let x = to_upper h in take 4 x @ ''-'' @ take 4 (drop 4 x) @ ''-'' @ take 4 (drop 8 x))"

text \<open>A list of codes with their hashes; any failure fails all.\<close>

fun make_codes :: "auth_env \<Rightarrow> (string \<Rightarrow> string) \<Rightarrow> nat \<Rightarrow> (auth_db, (string \<times> string) list option) state" where
  "make_codes E shape 0 = State_Monad.return (Some [])"
| "make_codes E shape (Suc n) = do {
     ok \<leftarrow> attempt;
     plain \<leftarrow> draw (\<lambda>i. shape (ae_random E i));
     hash \<leftarrow> draw (\<lambda>i. ae_hash E i plain);
     (case (if ok then hash else None) of
        None \<Rightarrow> State_Monad.return None
      | Some h \<Rightarrow> do {
          rest \<leftarrow> make_codes E shape n;
          State_Monad.return (map_option (\<lambda>cs. (plain, h) # cs) rest) }) }"

definition GenerateBackupCodes :: "auth_env \<Rightarrow> (auth_db, (string \<times> string) list option) state" where
  "GenerateBackupCodes E = make_codes E backup_code backupCodeCount"

definition generateRecoveryCodes :: "auth_env \<Rightarrow> (auth_db, (string \<times> string) list option) state" where
  "generateRecoveryCodes E = make_codes E recovery_plain recoveryCodeCount"

fun CheckBackupCode :: "auth_env \<Rightarrow> string \<Rightarrow> string list \<Rightarrow> nat option" where
  "CheckBackupCode E c [] = None"
| "CheckBackupCode E c (h # hs) = (if ae_match E h c then Some 0 else map_option Suc (CheckBackupCode E c hs))"

definition removeIndex :: "'a list \<Rightarrow> nat \<Rightarrow> 'a list" where
  "removeIndex s i = take i s @ drop (Suc i) s"

definition totp_row :: "string \<Rightarrow> 'z auth_db_scheme \<Rightarrow> totp_secret option" where
  "totp_row u s = find (\<lambda>r. ts_user r = u) (totps s)"

definition set_totp :: "string \<Rightarrow> (totp_secret \<Rightarrow> totp_secret) \<Rightarrow> 'z auth_db_scheme \<Rightarrow> 'z auth_db_scheme" where
  "set_totp u f s = s\<lparr>totps := update_where (\<lambda>r. ts_user r = u) f (totps s)\<rparr>"

definition updateBackupCodes :: "string \<Rightarrow> string list \<Rightarrow> (auth_db, bool) state" where
  "updateBackupCodes u codes = exec (set_totp u (\<lambda>r. r\<lparr>ts_backup := codes\<rparr>))"

section \<open>Checking a factor\<close>

datatype factor_error = FactorDisabled | BadCode | DecryptFailed | ReplayCheckUnavailable | CodeReplayed | BackupCodeNotConsumed

definition totp_used_key :: "string \<Rightarrow> string \<Rightarrow> string" where
  "totp_used_key u code = ''totp_used:'' @ u @ '':'' @ code"

definition checkAndMarkTOTPCode :: "auth_env \<Rightarrow> string \<Rightarrow> string \<Rightarrow> (auth_db, factor_error option) state" where
  "checkAndMarkTOTPCode E u code = do {
     before \<leftarrow> gets (\<lambda>s. look s (totp_used_key u code));
     ok \<leftarrow> exec (\<lambda>s. if look s (totp_used_key u code) = None then put (totp_used_key u code) (RNum 1) (Some (now s + 90)) s else s);
     State_Monad.return (if \<not> ok then if ae_failopen E then None else Some ReplayCheckUnavailable
       else if before \<noteq> None then Some CodeReplayed else None) }"

text \<open>A time-based code against the stored secret, then its first use.\<close>

definition check_totp :: "auth_env \<Rightarrow> string \<Rightarrow> string \<Rightarrow> string \<Rightarrow> (auth_db, factor_error option) state" where
  "check_totp E u secret code = do {
     t \<leftarrow> gets now;
     (case ae_decrypt E secret of
        None \<Rightarrow> State_Monad.return (Some DecryptFailed)
      | Some plain \<Rightarrow> if \<not> ae_totp E plain code t then State_Monad.return (Some BadCode) else checkAndMarkTOTPCode E u code) }"

definition check_backup :: "auth_env \<Rightarrow> string \<Rightarrow> string \<Rightarrow> string list \<Rightarrow> (auth_db, factor_error option) state" where
  "check_backup E u code codes = (case CheckBackupCode E code codes of
     None \<Rightarrow> State_Monad.return (Some BadCode)
   | Some i \<Rightarrow> do {
       ok \<leftarrow> updateBackupCodes u (removeIndex codes i);
       State_Monad.return (if ok then None else Some BackupCodeNotConsumed) })"

definition validateSecondFactor :: "auth_env \<Rightarrow> string \<Rightarrow> string \<Rightarrow> string \<Rightarrow> (auth_db, factor_error option) state" where
  "validateSecondFactor E u code backup = do {
     ok \<leftarrow> attempt;
     row \<leftarrow> gets (totp_row u);
     (case (if ok then row else None) of
        None \<Rightarrow> State_Monad.return (Some FactorDisabled)
      | Some r \<Rightarrow>
          if \<not> ts_enabled r then State_Monad.return (Some FactorDisabled)
          else if backup \<noteq> '''' then check_backup E u backup (ts_backup r)
          else check_totp E u (ts_secret r) code) }"

section \<open>The handlers\<close>

datatype factor_reply = FBadRequest | FPendingInvalid | FRefused factor_error | FInternal | FSession AuthResponse
  | FAlreadyEnabled | FNotSetUp | FNotEnabled | FSecret string | FCodes "string list" "string list" | FVerified | FDisabled

definition LoginVerify :: "auth_env \<Rightarrow> string \<Rightarrow> string \<Rightarrow> string \<Rightarrow> string \<Rightarrow> (auth_db, factor_reply) state" where
  "LoginVerify E tok code backup agent =
     (if tok = '''' \<or> (code = '''' \<and> backup = '''') then State_Monad.return FBadRequest
      else do {
        t \<leftarrow> gets now;
        (case ParseMFAPendingToken E t tok of
           None \<Rightarrow> State_Monad.return FPendingInvalid
         | Some (u, g) \<Rightarrow> do {
             e \<leftarrow> validateSecondFactor E u code backup;
             (case e of
                Some x \<Rightarrow> State_Monad.return (FRefused x)
              | None \<Rightarrow> do {
                  r \<leftarrow> CompleteMFALogin E u g (hint120 agent);
                  (case r of
                     Inl _ \<Rightarrow> State_Monad.return FInternal
                   | Inr resp \<Rightarrow> do { c \<leftarrow> GenerateCSRFToken E; State_Monad.return (FSession (resp\<lparr>rs_csrf := c\<rparr>)) }) }) }) })"

text \<open>Enrolment. The first lookup ignores its error.\<close>

definition Setup :: "auth_env \<Rightarrow> string \<Rightarrow> (auth_db, factor_reply) state" where
  "Setup E u = do {
     known \<leftarrow> attempt;
     row \<leftarrow> gets (totp_row u);
     if known \<and> (case row of None \<Rightarrow> False | Some r \<Rightarrow> ts_enabled r) then State_Monad.return FAlreadyEnabled
     else do {
       ok \<leftarrow> attempt;
       usr \<leftarrow> gets (user_row u);
       if \<not> ok \<or> usr = None then State_Monad.return FInternal
       else do {
         made \<leftarrow> attempt;
         secret \<leftarrow> draw (ae_secret E);
         c \<leftarrow> draw (\<lambda>n. ae_encrypt E n secret);
         (case (if made then c else None) of
            None \<Rightarrow> State_Monad.return FInternal
          | Some sealed \<Rightarrow> do {
              stored \<leftarrow> exec (\<lambda>s. if totp_row u s = None
                then s\<lparr>totps := totps s @ [\<lparr>ts_user = u, ts_secret = sealed, ts_enabled = False, ts_backup = []\<rparr>]\<rparr>
                else set_totp u (\<lambda>r. r\<lparr>ts_secret := sealed, ts_enabled := False\<rparr>) s);
              State_Monad.return (if stored then FSecret secret else FInternal) }) } } }"

definition StoreRecoveryCodes :: "auth_env \<Rightarrow> string \<Rightarrow> string list \<Rightarrow> (auth_db, bool) state" where
  "StoreRecoveryCodes E u hs = do {
     base \<leftarrow> gets fresh;
     exec (\<lambda>s. s\<lparr>recoveries := filter (\<lambda>r. rc_user r \<noteq> u) (recoveries s) @
       map (\<lambda>(i, h). \<lparr>rc_id = ae_uuid E (base + i), rc_user = u, rc_hash = h, rc_used = None\<rparr>) (enumerate 0 hs),
       fresh := fresh s + length hs\<rparr>) }"

definition Confirm :: "auth_env \<Rightarrow> string \<Rightarrow> string \<Rightarrow> (auth_db, factor_reply) state" where
  "Confirm E u code =
     (if code = '''' then State_Monad.return FBadRequest
      else do {
        ok \<leftarrow> attempt;
        row \<leftarrow> gets (totp_row u);
        (case (if ok then row else None) of
           None \<Rightarrow> State_Monad.return FNotSetUp
         | Some r \<Rightarrow>
             if ts_enabled r then State_Monad.return FAlreadyEnabled
             else do {
               e \<leftarrow> check_totp E u (ts_secret r) code;
               (case e of
                  Some x \<Rightarrow> State_Monad.return (FRefused x)
                | None \<Rightarrow> do {
                    b \<leftarrow> GenerateBackupCodes E;
                    (case b of
                       None \<Rightarrow> State_Monad.return FInternal
                     | Some codes \<Rightarrow> do {
                         on \<leftarrow> exec (set_totp u (\<lambda>r. r\<lparr>ts_enabled := True, ts_backup := map snd codes\<rparr>));
                         if \<not> on then State_Monad.return FInternal
                         else do {
                           rc \<leftarrow> generateRecoveryCodes E;
                           (case rc of
                              None \<Rightarrow> State_Monad.return FInternal
                            | Some rec \<Rightarrow> do {
                                stored \<leftarrow> StoreRecoveryCodes E u (map snd rec);
                                State_Monad.return (FCodes (map fst codes) (if stored then map fst rec else [])) }) } }) }) }) })"

text \<open>Handlers that need an enabled factor and a fresh code first.\<close>

definition with_factor :: "auth_env \<Rightarrow> factor_reply \<Rightarrow> string \<Rightarrow> string \<Rightarrow> (auth_db, factor_reply) state \<Rightarrow> (auth_db, factor_reply) state" where
  "with_factor E missing u code next' =
     (if code = '''' then State_Monad.return FBadRequest
      else do {
        ok \<leftarrow> attempt;
        row \<leftarrow> gets (totp_row u);
        (case (if ok then row else None) of
           None \<Rightarrow> State_Monad.return missing
         | Some r \<Rightarrow>
             if \<not> ts_enabled r then State_Monad.return FNotEnabled
             else do {
               e \<leftarrow> check_totp E u (ts_secret r) code;
               (case e of Some x \<Rightarrow> State_Monad.return (FRefused x) | None \<Rightarrow> next') }) })"

definition Disable :: "auth_env \<Rightarrow> string \<Rightarrow> string \<Rightarrow> (auth_db, factor_reply) state" where
  "Disable E u code = with_factor E FNotSetUp u code (do {
     ok \<leftarrow> exec (\<lambda>s. s\<lparr>totps := filter (\<lambda>r. ts_user r \<noteq> u) (totps s)\<rparr>);
     State_Monad.return (if ok then FDisabled else FInternal) })"

definition RegenerateRecoveryCodes :: "auth_env \<Rightarrow> string \<Rightarrow> string \<Rightarrow> (auth_db, factor_reply) state" where
  "RegenerateRecoveryCodes E u code = with_factor E FNotEnabled u code (do {
     rc \<leftarrow> generateRecoveryCodes E;
     (case rc of
        None \<Rightarrow> State_Monad.return FInternal
      | Some rec \<Rightarrow> do {
          stored \<leftarrow> StoreRecoveryCodes E u (map snd rec);
          State_Monad.return (if stored then FCodes [] (map fst rec) else FInternal) }) })"

definition Verify :: "auth_env \<Rightarrow> string \<Rightarrow> string \<Rightarrow> string \<Rightarrow> (auth_db, factor_reply) state" where
  "Verify E u code backup =
     (if code = '''' \<and> backup = '''' then State_Monad.return FBadRequest
      else do {
        ok \<leftarrow> attempt;
        row \<leftarrow> gets (totp_row u);
        (case (if ok then row else None) of
           None \<Rightarrow> State_Monad.return FNotSetUp
         | Some r \<Rightarrow>
             if \<not> ts_enabled r then State_Monad.return FNotEnabled
             else do {
               e \<leftarrow> (if backup \<noteq> '''' then check_backup E u backup (ts_backup r) else check_totp E u (ts_secret r) code);
               State_Monad.return (case e of Some x \<Rightarrow> FRefused x | None \<Rightarrow> FVerified) }) })"

text \<open>The unused codes of the user, the first that matches is marked; the rows may break off.\<close>

definition VerifyRecoveryCode :: "auth_env \<Rightarrow> string \<Rightarrow> string \<Rightarrow> (auth_db, bool) state" where
  "VerifyRecoveryCode E u code = do {
     ok \<leftarrow> attempt;
     hit \<leftarrow> gets (\<lambda>s. find (\<lambda>r. rc_user r = u \<and> rc_used r = None \<and> ae_match E (rc_hash r) code) (recoveries s));
     (case (if ok then hit else None) of
        None \<Rightarrow> State_Monad.return False
      | Some r \<Rightarrow> exec (\<lambda>s. s\<lparr>recoveries := update_where (\<lambda>x. rc_id x = rc_id r) (\<lambda>x. x\<lparr>rc_used := Some (now s)\<rparr>) (recoveries s)\<rparr>)) }"

definition RecoveryLogin :: "auth_env \<Rightarrow> string \<Rightarrow> string \<Rightarrow> (auth_db, factor_reply) state" where
  "RecoveryLogin E u code =
     (if code = '''' then State_Monad.return FBadRequest
      else do {
        ok \<leftarrow> VerifyRecoveryCode E u code;
        if \<not> ok then State_Monad.return (FRefused BadCode)
        else do {
          found \<leftarrow> attempt;
          ms \<leftarrow> gets (memberships u);
          (case (if found then ms else []) of
             [] \<Rightarrow> State_Monad.return FInternal
           | m # _ \<Rightarrow> do {
               r \<leftarrow> issueTokenPair E u (m_org m) [m_role m] '''' True;
               State_Monad.return (case r of Inl _ \<Rightarrow> FInternal | Inr resp \<Rightarrow> FSession resp) }) } })"

end
