(* ===== verification/Auth_Reset.thy ===== *)
theory Auth_Reset
  imports Auth_Session
begin

text \<open>
  Forgotten passwords (\<^verbatim>\<open>internal/auth/password_reset.go\<close>, its handlers in \<^verbatim>\<open>handler.go\<close>, \<^verbatim>\<open>jobs.go\<close>): a link by mail, for
  oneself or by an administrator for a member of the own organisation, and the reset that ends
  the sessions.
\<close>

definition resetThrottleMax :: int where "resetThrottleMax = 3"
definition resetThrottleTTL :: int where "resetThrottleTTL = hour"

definition resetThrottleKey :: "string \<Rightarrow> string" where
  "resetThrottleKey email = ''reset_req:'' @ email"

text \<open>Counts a request and tells whether it may go on: at most three an hour, any number without Redis.\<close>

definition reset_throttle :: "string \<Rightarrow> (auth_db, bool) state" where
  "reset_throttle email = do {
     ok \<leftarrow> exec (incr (resetThrottleKey email));
     n \<leftarrow> gets (\<lambda>s. look s (resetThrottleKey email));
     (case (if ok then n else None) of
        Some (RNum c) \<Rightarrow> do {
          _ \<leftarrow> (if c = 1 then exec (\<lambda>s. put (resetThrottleKey email) (RNum c) (Some (now s + resetThrottleTTL)) s) else State_Monad.return True);
          State_Monad.return (c \<le> resetThrottleMax) }
      | _ \<Rightarrow> State_Monad.return True) }"

text \<open>A token is stored by its hash, for an hour.\<close>

definition new_reset_token :: "auth_env \<Rightarrow> string \<Rightarrow> (auth_db, string option) state" where
  "new_reset_token E u = do {
     rnd \<leftarrow> attempt;
     raw \<leftarrow> draw (ae_random E);
     i \<leftarrow> draw (ae_uuid E);
     if \<not> rnd then State_Monad.return None
     else do {
       ok \<leftarrow> exec (\<lambda>s. s\<lparr>resets := resets s @ [\<lparr>rt_id = i, rt_user = u, rt_hash = ae_sha E raw, rt_expires = now s + hour, rt_used = None\<rparr>]\<rparr>);
       State_Monad.return (if ok then Some raw else None) } }"

text \<open>The mail, one fallible call.\<close>

definition sendPasswordResetEmail :: "string \<Rightarrow> string \<Rightarrow> string \<Rightarrow> (auth_db, bool) state" where
  "sendPasswordResetEmail host email raw =
     (if host = '''' then State_Monad.return False else exec (\<lambda>s. s\<lparr>mails := mails s @ [(email, raw)]\<rparr>))"

definition RequestPasswordReset :: "auth_env \<Rightarrow> string \<Rightarrow> string \<Rightarrow> (auth_db, bool) state" where
  "RequestPasswordReset E host email = do {
     ok \<leftarrow> attempt;
     row \<leftarrow> gets (\<lambda>s. find (\<lambda>r. u_email r = email \<and> u_active r) (users s));
     if \<not> ok then State_Monad.return False
     else (case row of
        None \<Rightarrow> State_Monad.return True
      | Some r \<Rightarrow> do {
          go \<leftarrow> reset_throttle email;
          if \<not> go then State_Monad.return True
          else do {
            tok \<leftarrow> new_reset_token E (u_id r);
            (case tok of
               None \<Rightarrow> State_Monad.return False
             | Some raw \<Rightarrow> do { _ \<leftarrow> attempt; _ \<leftarrow> sendPasswordResetEmail host email raw; State_Monad.return True }) } }) }"

text \<open>The target's id and whether a mail went out; no id when nobody of that address is a member.\<close>

definition AdminIssuePasswordReset :: "auth_env \<Rightarrow> string \<Rightarrow> string \<Rightarrow> string \<Rightarrow> (auth_db, (string \<times> bool) option) state" where
  "AdminIssuePasswordReset E host email g = do {
     ok \<leftarrow> attempt;
     row \<leftarrow> gets (\<lambda>s. find (\<lambda>r. u_email r = email \<and> u_active r \<and> (\<exists>m \<in> set (members s). m_user m = u_id r \<and> m_org m = g)) (users s));
     if \<not> ok then State_Monad.return None
     else (case row of
        None \<Rightarrow> State_Monad.return (Some ('''', False))
      | Some r \<Rightarrow>
          if host = '''' then State_Monad.return (Some (u_id r, False))
          else do {
            tok \<leftarrow> new_reset_token E (u_id r);
            (case tok of
               None \<Rightarrow> State_Monad.return None
             | Some raw \<Rightarrow> do { sent \<leftarrow> sendPasswordResetEmail host email raw; State_Monad.return (Some (u_id r, sent)) }) }) }"

text \<open>The refresh sessions, best effort.\<close>

definition drop_refresh :: "string \<Rightarrow> (auth_db, unit) state" where
  "drop_refresh u = do {
     gone \<leftarrow> gets (\<lambda>s. filter (\<lambda>r. rf_user r = u) (sessions s));
     deleted \<leftarrow> exec (delete_sessions (\<lambda>r. rf_user r = u));
     if \<not> deleted then skip
     else do {
       n \<leftarrow> draw (\<lambda>n. n);
       received \<leftarrow> attempt;
       let got = (if received then gone else take n gone);
       _ \<leftarrow> (if got = [] then State_Monad.return True else redis_del (map (\<lambda>r. ''refresh:'' @ rf_hash r) got));
       skip } }"

definition ResetPassword :: "auth_env \<Rightarrow> string \<Rightarrow> string \<Rightarrow> (auth_db, auth_error option) state" where
  "ResetPassword E raw new = do {
     ok \<leftarrow> attempt;
     row \<leftarrow> gets (\<lambda>s. find (\<lambda>r. rt_hash r = ae_sha E raw) (resets s));
     t \<leftarrow> gets now;
     if \<not> ok then State_Monad.return (Some DatabaseError)
     else (case row of
        None \<Rightarrow> State_Monad.return (Some TokenInvalid)
      | Some r \<Rightarrow>
          if rt_used r \<noteq> None \<or> t > rt_expires r then State_Monad.return (Some TokenInvalid)
          else if \<not> validatePasswordStrength E new then State_Monad.return (Some WeakPassword)
          else do {
            hash \<leftarrow> draw (\<lambda>n. ae_hash E n new);
            (case hash of
               None \<Rightarrow> State_Monad.return (Some DatabaseError)
             | Some h \<Rightarrow> do {
                 committed \<leftarrow> exec (\<lambda>s. s\<lparr>users := update_where (\<lambda>x. u_id x = rt_user r) (\<lambda>x. x\<lparr>u_hash := Some h\<rparr>) (users s),
                   resets := update_where (\<lambda>x. rt_id x = rt_id r) (\<lambda>x. x\<lparr>rt_used := Some t\<rparr>) (resets s)\<rparr>);
                 if \<not> committed then State_Monad.return (Some DatabaseError)
                 else do {
                   _ \<leftarrow> bumpPwVersion (rt_user r);
                   drop_refresh (rt_user r);
                   State_Monad.return None } }) }) }"

text \<open>The handler's own checks.\<close>

datatype reset_reply = ResetInvalidInput | ResetFailed auth_error | ResetDone

definition Handler_ResetPassword :: "auth_env \<Rightarrow> string \<Rightarrow> string \<Rightarrow> (auth_db, reset_reply) state" where
  "Handler_ResetPassword E raw new =
     (if raw = '''' \<or> \<not> password_length_ok new then State_Monad.return ResetInvalidInput
      else do { e \<leftarrow> ResetPassword E raw new; State_Monad.return (case e of None \<Rightarrow> ResetDone | Some x \<Rightarrow> ResetFailed x) })"

definition CleanupPasswordResetTokens :: "(auth_db, bool) state" where
  "CleanupPasswordResetTokens = exec (\<lambda>s. s\<lparr>resets := filter (\<lambda>r. \<not> (rt_expires r < now s \<or>
     (case rt_used r of None \<Rightarrow> False | Some u \<Rightarrow> u < now s - 7 * 24 * hour))) (resets s)\<rparr>)"

definition cleanupExpiredFallbackEntries :: "(auth_db, bool) state" where
  "cleanupExpiredFallbackEntries = exec (\<lambda>s. s\<lparr>deny_list := filter (\<lambda>d. \<not> snd d \<le> now s) (deny_list s)\<rparr>)"

end
