(* ===== verification/Auth_Machine.thy ===== *)
theory Auth_Machine
  imports Auth_Access Auth_Factor Auth_Reset
begin

text \<open>
  Authentication as a whole: every operation as a step, in any order, with any failures, while time passes.
  What only depends on the users, the organisations and Redis is kept by all of them once it is kept
  by the few writes they are made of.
\<close>

section \<open>What every operation keeps\<close>

definition foreign_key :: "string \<Rightarrow> bool" where
  "foreign_key k \<longleftrightarrow> (case k of [] \<Rightarrow> False | c # _ \<Rightarrow> c \<noteq> CHR ''u'' \<and> c \<noteq> CHR ''t'')"

definition keeps_versions :: "(user \<Rightarrow> user) \<Rightarrow> bool" where
  "keeps_versions f \<longleftrightarrow> (\<forall>x. u_id (f x) = u_id x \<and> u_pw x \<le> u_pw (f x))"

locale auth_world =
  fixes E :: auth_env and I :: "auth_db \<Rightarrow> bool"
  assumes frame: "I s \<Longrightarrow> users t = users s \<Longrightarrow> organizations t = organizations s \<Longrightarrow> redis t = redis s \<Longrightarrow> now s \<le> now t \<Longrightarrow> I t"
    and users_kept: "I s \<Longrightarrow> keeps_versions f \<Longrightarrow> I (s\<lparr>users := update_where p f (users s)\<rparr>)"
    and founded: "I s \<Longrightarrow> organizations s = [] \<Longrightarrow> I (s\<lparr>users := users s @ [r], organizations := organizations s @ [g], members := m\<rparr>)"
    and put_foreign: "I s \<Longrightarrow> foreign_key k \<Longrightarrow> I (put k v e s)"
    and del_foreign: "I s \<Longrightarrow> \<forall>k \<in> K. foreign_key k \<Longrightarrow> I (s\<lparr>redis := (\<lambda>k. if k \<in> K then None else redis s k)\<rparr>)"
    and put_version: "I s \<Longrightarrow> user_row u s = Some r \<Longrightarrow> I (put (pwVersionKey u) (RNum (u_pw r)) None s)"
    and incr_version: "I s \<Longrightarrow> I (incr (pwVersionKey u) s)"
    and mark_code: "I s \<Longrightarrow> look s (totp_used_key u c) = None \<Longrightarrow> I (put (totp_used_key u c) (RNum 1) (Some (now s + 90)) s)"
begin

lemma keep_attempt [hoare_rules]: "keeps I attempt"
  by (rule keeps_attempt) (auto elim: frame)

lemma keep_draw [hoare_rules]: "keeps I (draw f)"
  by (rule keepsI) (auto simp: wp_rules elim: frame)

lemma keep_exec: "(\<And>s. I s \<Longrightarrow> I (f s)) \<Longrightarrow> keeps I (exec f)"
  by (rule keeps_exec) (auto elim: frame)

lemma keep_frame [hoare_rules]:
  "(\<And>s. users (f s) = users s) \<Longrightarrow> (\<And>s. organizations (f s) = organizations s) \<Longrightarrow> (\<And>s. redis (f s) = redis s) \<Longrightarrow> (\<And>s. now (f s) = now s) \<Longrightarrow> keeps I (exec f)"
  by (rule keep_exec) (auto elim: frame)

lemma keep_list: "keeps I m \<Longrightarrow> (\<And>x xs. keeps I (f x xs)) \<Longrightarrow> keeps I (case v of [] \<Rightarrow> m | x # xs \<Rightarrow> f x xs)"
  by (cases v) simp_all

lemma keep_redis_value: "(\<And>n. keeps I (f n)) \<Longrightarrow> (\<And>p. keeps I (g p)) \<Longrightarrow> (\<And>p. keeps I (h p)) \<Longrightarrow>
    keeps I (case v of RNum n \<Rightarrow> f n | RRefresh p \<Rightarrow> g p | RPerms p \<Rightarrow> h p)"
  by (cases v) simp_all

lemma keep_lock: "keeps I a \<Longrightarrow> keeps I b \<Longrightarrow> keeps I c \<Longrightarrow> keeps I (case v of Locked \<Rightarrow> a | Unlocked \<Rightarrow> b | LockUnknown \<Rightarrow> c)"
  by (cases v) simp_all

lemma keep_redis_get: "keeps I (redis_get k)"
  unfolding redis_get_def by (intro hoare_rules keep_attempt)

lemma keep_redis_set: "foreign_key k \<Longrightarrow> keeps I (redis_set k v ttl)"
  unfolding redis_set_def by (rule keep_exec) (rule put_foreign)

lemma keep_redis_del: "\<forall>k \<in> set ks. foreign_key k \<Longrightarrow> keeps I (redis_del ks)"
  unfolding redis_del_def by (rule keep_exec) (rule del_foreign)

lemma keep_users: "keeps_versions f \<Longrightarrow> keeps I (exec (\<lambda>s. s\<lparr>users := update_where p f (users s)\<rparr>))"
  by (rule keep_exec) (rule users_kept)

lemmas keep_basic = hoare_rules keep_attempt keep_draw keep_list keep_redis_value keep_lock keep_redis_get

end

lemma foreign_keys [simp]:
  "foreign_key (refreshRedisKey E tok)" "foreign_key (tokenDenyKey E tok)" "foreign_key (loginIPFailKey ip)"
  "foreign_key (loginIPEmailFailKey ip m)" "foreign_key (resetThrottleKey m)" "foreign_key (modPermKey g u)"
  "foreign_key (''refresh:'' @ x)"
  by (simp_all add: foreign_key_def refreshRedisKey_def tokenDenyKey_def loginIPFailKey_def loginIPEmailFailKey_def resetThrottleKey_def modPermKey_def)

lemma foreign_Cons [simp]: "foreign_key (c # k) \<longleftrightarrow> c \<noteq> CHR ''u'' \<and> c \<noteq> CHR ''t''"
  by (simp add: foreign_key_def)

lemma delete_sessions_frame [simp]: "users (delete_sessions p s) = users s" "organizations (delete_sessions p s) = organizations s"
  "redis (delete_sessions p s) = redis s" "now (delete_sessions p s) = now s"
  by (simp_all add: delete_sessions_def)

lemma keeps_versions_simps [simp]: "keeps_versions (\<lambda>x. x\<lparr>u_hash := h\<rparr>)" "keeps_versions (\<lambda>x. x\<lparr>u_login := l\<rparr>)" "keeps_versions (\<lambda>x. x\<lparr>u_pw := u_pw x + 1\<rparr>)"
  by (simp_all add: keeps_versions_def)

section \<open>Sessions\<close>

context auth_world begin

lemma keep_session_row: "keeps I (session_row sid u g h hint t)"
  unfolding session_row_def by (intro keep_basic keep_frame) simp_all

lemma keep_issueTokenPair: "keeps I (issueTokenPair E u g roles hint mfa)"
  unfolding issueTokenPair_def currentPwVersion_def pwVersionFromDB_def IssueAccessToken_def IssueAccessTokenWithTTL_def IssueRefreshToken_def
  by (intro keep_basic keep_redis_set keep_session_row) simp_all

lemma keep_recordLogin: "keeps I (recordLogin g u email agent source result)"
  unfolding recordLogin_def by (intro keep_basic keep_frame) simp_all

lemma keep_upgrade_hash: "keeps I (upgrade_hash E u h w)"
  unfolding upgrade_hash_def by (intro keep_basic keep_users) simp

lemma keep_login_session: "keeps I (login_session E r email g role hint)"
  unfolding login_session_def userHasMFAEnabled_def IssueMFAPendingToken_def
  by (intro keep_basic keep_exec keep_recordLogin keep_issueTokenPair) (auto intro: users_kept)

lemma keep_Login: "keeps I (Login E email w hint)"
  unfolding Login_def by (intro keep_basic keep_recordLogin keep_upgrade_hash keep_login_session)

lemma keep_CompleteMFALogin: "keeps I (CompleteMFALogin E u g hint)"
  unfolding CompleteMFALogin_def Let_def by (intro keep_basic keep_recordLogin keep_issueTokenPair)

lemma keep_delete_sessions: "keeps I (exec (delete_sessions p))"
  by (rule keep_frame) (simp_all add: delete_sessions_def)

lemma keep_Refresh: "keeps I (Refresh E tok)"
  unfolding Refresh_def Let_def by (intro keep_basic keep_issueTokenPair keep_delete_sessions keep_redis_del) simp


lemma tape: "I s \<Longrightarrow> I (s\<lparr>faults := t\<rparr>)"
  by (erule frame) simp_all

lemma keep_bump: "keeps I (bumpPwVersion u)"
proof (rule keepsI)
  fix s assume i: "I s"
  define f where "f s = s\<lparr>users := update_where (\<lambda>r. u_id r = u) (\<lambda>r. r\<lparr>u_pw := u_pw r + 1\<rparr>) (users s)\<rparr>" for s :: auth_db
  have f: "I (f s)" if "I s" for s unfolding f_def by (rule users_kept [OF that]) simp
  have later: "wp (if n > 0 then redis_set (pwVersionKey u) (RNum n) None else exec (incr (pwVersionKey u))) (\<lambda>_. I) s"
    if "I s" "n > 0 \<Longrightarrow> \<exists>r. user_row u s = Some r \<and> u_pw r = n" for n s
    unfolding redis_set_def using that
    by (intro wp_intros) (auto intro!: tape incr_version put_version)
  show "wp (bumpPwVersion u) (\<lambda>_. I) s"
    unfolding bumpPwVersion_def Let_def f_def [symmetric] wp_bind wp_gets
    by (rule wp_exec; rule later) (auto intro: f tape i split: option.splits)
qed

lemma keep_RevokeAllSessions: "keeps I (RevokeAllSessions E u)"
  unfolding RevokeAllSessions_def by (intro keep_basic keep_delete_sessions keep_redis_del keep_bump) auto

lemma keep_RevokeToken: "keeps I (RevokeToken E tok)"
  unfolding RevokeToken_def revokeInFallback_def by (intro keep_basic keep_frame keep_redis_set) simp_all

lemma keep_Logout: "keeps I (Logout E h c)"
  unfolding Logout_def by (intro keep_basic keep_RevokeToken keep_RevokeAllSessions)

lemma keep_RevokeSession: "keeps I (RevokeSession u sid)"
  unfolding RevokeSession_def by (intro keep_basic keep_delete_sessions keep_redis_del) simp

lemma keep_RevokeAllOtherSessions: "keeps I (RevokeAllOtherSessions E u c)"
  unfolding RevokeAllOtherSessions_def Let_def by (intro keep_basic keep_delete_sessions keep_redis_del keep_bump) auto

lemma keep_count_failure: "foreign_key k \<Longrightarrow> keeps I (exec (count_failure k))"
  by (rule keep_exec) (auto simp: count_failure_def incr_def expire_nx_def intro!: put_foreign split: option.splits redis_value.splits)

lemma keep_Handler_Login: "keeps I (Handler_Login E q)"
proof -
  have "keeps I (login_attempt E q)"
    unfolding login_attempt_def recordIPEmailLoginFailure_def recordIPLoginFailure_def clearLoginFailures_def GenerateCSRFToken_def
    by (intro keep_basic keep_Login keep_count_failure keep_redis_del) simp_all
  then show ?thesis unfolding Handler_Login_def checkIPLocked_def checkIPEmailLocked_def by (intro keep_basic)
qed

lemma wp_kept: "keeps I m \<Longrightarrow> I s \<Longrightarrow> wp m (\<lambda>_. I) s"
  by (simp add: keeps_def hoare_def)

lemma keep_register_rows: "I s \<Longrightarrow> organizations s = [] \<Longrightarrow> wp (register_rows E i h u g o' slug) (\<lambda>_. I) s"
  unfolding register_rows_def by (intro wp_intros) (simp_all add: tape founded [of "s\<lparr>faults := t\<rparr>" for t, simplified])

lemma keep_Register: "keeps I (Register E i hint)"
proof (rule keepsI)
  fix s assume i: "I s"
  then show "wp (Register E i hint) (\<lambda>_. I) s"
    unfolding Register_def Let_def
    apply (intro wp_intros)
          prefer 5
    apply (rule wp_mono, rule keep_register_rows) prefer 3
     apply (rule wp_kept, intro keep_basic keep_issueTokenPair keep_recordLogin, assumption)
        apply (auto intro: tape frame)
    done
qed

section \<open>Factors\<close>

lemma keep_mark: "keeps I (checkAndMarkTOTPCode E u code)"
  unfolding checkAndMarkTOTPCode_def by (intro keep_basic keep_exec) (auto intro: mark_code)

lemma keep_check_totp: "keeps I (check_totp E u secret code)"
  unfolding check_totp_def by (intro keep_basic keep_mark)

lemma keep_set_totp: "keeps I (exec (set_totp u f))"
  by (rule keep_frame) (simp_all add: set_totp_def)

lemma keep_check_backup: "keeps I (check_backup E u code codes)"
  unfolding check_backup_def updateBackupCodes_def by (intro keep_basic keep_set_totp)

lemma keep_validate: "keeps I (validateSecondFactor E u code backup)"
  unfolding validateSecondFactor_def by (intro keep_basic keep_check_totp keep_check_backup)

lemma keep_LoginVerify: "keeps I (LoginVerify E tok code backup agent)"
  unfolding LoginVerify_def GenerateCSRFToken_def by (intro keep_basic keep_validate keep_CompleteMFALogin)

lemma keep_Setup: "keeps I (Setup E u)"
  unfolding Setup_def by (intro keep_basic keep_exec) (auto simp: set_totp_def elim: frame)

lemma keep_make_codes: "keeps I (make_codes E shape n)"
  by (induction n) (auto intro!: keep_basic)

lemma keep_StoreRecoveryCodes: "keeps I (StoreRecoveryCodes E u hs)"
  unfolding StoreRecoveryCodes_def by (intro keep_basic keep_frame) simp_all

lemma keep_Confirm: "keeps I (Confirm E u code)"
  unfolding Confirm_def GenerateBackupCodes_def generateRecoveryCodes_def
  by (intro keep_basic keep_check_totp keep_make_codes keep_set_totp keep_StoreRecoveryCodes)

lemma keep_with_factor: "keeps I m \<Longrightarrow> keeps I (with_factor E r u code m)"
  unfolding with_factor_def by (intro keep_basic keep_check_totp)

lemma keep_Disable: "keeps I (Disable E u code)"
  unfolding Disable_def by (intro keep_with_factor keep_basic keep_frame) simp_all

lemma keep_Regenerate: "keeps I (RegenerateRecoveryCodes E u code)"
  unfolding RegenerateRecoveryCodes_def generateRecoveryCodes_def
  by (intro keep_with_factor keep_basic keep_make_codes keep_StoreRecoveryCodes)

lemma keep_Verify: "keeps I (Verify E u code backup)"
  unfolding Verify_def by (intro keep_basic keep_check_totp keep_check_backup)

lemma keep_RecoveryLogin: "keeps I (RecoveryLogin E u code)"
  unfolding RecoveryLogin_def VerifyRecoveryCode_def by (intro keep_basic keep_issueTokenPair keep_frame) simp_all

section \<open>Passwords, keys and jobs\<close>

lemma keep_new_reset_token: "keeps I (new_reset_token E u)"
  unfolding new_reset_token_def by (intro keep_basic keep_frame) simp_all

lemma keep_RequestPasswordReset: "keeps I (RequestPasswordReset E host email)"
  unfolding RequestPasswordReset_def reset_throttle_def sendPasswordResetEmail_def
  by (intro keep_basic keep_new_reset_token keep_exec)
    (auto simp: incr_def intro!: put_foreign elim: frame split: option.splits redis_value.splits)

lemma keep_AdminIssue: "keeps I (AdminIssuePasswordReset E host email g)"
  unfolding AdminIssuePasswordReset_def sendPasswordResetEmail_def by (intro keep_basic keep_new_reset_token keep_frame) simp_all

lemma keep_drop_refresh: "keeps I (drop_refresh u)"
  unfolding drop_refresh_def Let_def by (intro keep_basic keep_delete_sessions keep_redis_del) auto

lemma keep_Handler_ResetPassword: "keeps I (Handler_ResetPassword E raw new)"
proof -
  have w: "I (s\<lparr>users := update_where p (\<lambda>x. x\<lparr>u_hash := h\<rparr>) (users s), resets := r\<rparr>)" if "I s" for s p h r
    by (rule frame [OF users_kept [OF that, of "\<lambda>x. x\<lparr>u_hash := h\<rparr>" p]]) simp_all
  show ?thesis unfolding Handler_ResetPassword_def ResetPassword_def
    by (intro keep_basic keep_exec keep_bump keep_drop_refresh) (auto intro: w)
qed

lemma keep_CleanupPasswordResetTokens: "keeps I CleanupPasswordResetTokens"
  unfolding CleanupPasswordResetTokens_def by (intro keep_frame) simp_all

lemma keep_cleanupExpiredFallbackEntries: "keeps I cleanupExpiredFallbackEntries"
  unfolding cleanupExpiredFallbackEntries_def by (intro keep_frame) simp_all

lemma keep_Create_key: "keeps I (Create_key E g u name scopes expires)"
  unfolding Create_key_def Let_def by (intro keep_basic keep_frame) simp_all

lemma keep_revoke_key: "keeps I (revoke_key_where p)"
  unfolding revoke_key_where_def by (intro keep_basic keep_frame) simp_all

lemma keep_RotateKey: "keeps I (RotateKey E g u i)"
  unfolding RotateKey_def Let_def by (intro keep_basic keep_frame) simp_all

lemma keep_loadPermState: "keeps I (loadPermState g u)"
  unfolding loadPermState_def by (intro keep_basic keep_redis_set) simp_all

end

section \<open>The steps\<close>

text \<open>An operation under any pattern of failures \<open>l\<close>. The checks of a request write nothing but the cache of
  \<^const>\<open>loadPermState\<close>.\<close>

definition ran :: "(auth_db, 'a) state \<Rightarrow> bool list \<Rightarrow> auth_db \<Rightarrow> auth_db" where
  "ran m l s = snd (run_state m (s\<lparr>faults := l\<rparr>))"

inductive auth_step :: "auth_env \<Rightarrow> auth_db \<Rightarrow> auth_db \<Rightarrow> bool" for E where
  s_wait: "now s \<le> t \<Longrightarrow> auth_step E s (s\<lparr>now := t\<rparr>)"
| s_login: "auth_step E s (ran (Handler_Login E q) l s)"
| s_verify_login: "auth_step E s (ran (LoginVerify E tok code backup agent) l s)"
| s_recovery_login: "auth_step E s (ran (RecoveryLogin E u code) l s)"
| s_register: "auth_step E s (ran (Register E i hint) l s)"
| s_refresh: "auth_step E s (ran (Refresh E tok) l s)"
| s_logout: "auth_step E s (ran (Logout E header cookie) l s)"
| s_revoke_all: "auth_step E s (ran (RevokeAllSessions E u) l s)"
| s_revoke_session: "auth_step E s (ran (RevokeSession u sid) l s)"
| s_revoke_others: "auth_step E s (ran (RevokeAllOtherSessions E u current) l s)"
| s_setup: "auth_step E s (ran (Setup E u) l s)"
| s_confirm: "auth_step E s (ran (Confirm E u code) l s)"
| s_disable: "auth_step E s (ran (Disable E u code) l s)"
| s_regenerate: "auth_step E s (ran (RegenerateRecoveryCodes E u code) l s)"
| s_check_factor: "auth_step E s (ran (Verify E u code backup) l s)"
| s_request_reset: "auth_step E s (ran (RequestPasswordReset E host email) l s)"
| s_issue_reset: "auth_step E s (ran (AdminIssuePasswordReset E host email g) l s)"
| s_reset: "auth_step E s (ran (Handler_ResetPassword E raw new) l s)"
| s_create_key: "auth_step E s (ran (Create_key E g u name scopes expires) l s)"
| s_revoke_key: "auth_step E s (ran (Revoke_key g u i) l s)"
| s_revoke_org_key: "auth_step E s (ran (RevokeOrg g i) l s)"
| s_rotate_key: "auth_step E s (ran (RotateKey E g u i) l s)"
| s_permissions: "auth_step E s (ran (loadPermState g u) l s)"
| s_invalidate: "auth_step E s (ran (InvalidateModulePermissions g u) l s)"
| s_cleanup_resets: "auth_step E s (ran (CleanupPasswordResetTokens) l s)"
| s_cleanup_denied: "auth_step E s (ran (cleanupExpiredFallbackEntries) l s)"

context auth_world begin

lemma keep_ran: "keeps I m \<Longrightarrow> I s \<Longrightarrow> I (ran m l s)"
  unfolding ran_def by (rule keepsD) (auto intro: tape)

lemmas keep_operations = keep_Handler_Login keep_LoginVerify keep_RecoveryLogin keep_Register keep_Refresh keep_Logout
  keep_RevokeAllSessions keep_RevokeSession keep_RevokeAllOtherSessions keep_Setup keep_Confirm keep_Disable keep_Regenerate
  keep_Verify keep_RequestPasswordReset keep_AdminIssue keep_Handler_ResetPassword keep_Create_key keep_revoke_key
  keep_RotateKey keep_loadPermState keep_CleanupPasswordResetTokens keep_cleanupExpiredFallbackEntries

lemma keep_invalidate: "keeps I (InvalidateModulePermissions g u)"
  unfolding InvalidateModulePermissions_def by (intro keep_basic keep_redis_del) simp

lemma keep_step: "auth_step E s t \<Longrightarrow> I s \<Longrightarrow> I t"
  by (induction rule: auth_step.induct)
    (auto intro!: keep_ran keep_operations keep_invalidate simp: Revoke_key_def RevokeOrg_def elim: frame)

end

text \<open>So such an invariant is one of the whole machine.\<close>

sublocale auth_world \<subseteq> world: machine I "auth_step E" I
  by unfold_locales (auto intro: keep_step)

end
