(* ===== verification/Auth_Revoke.thy ===== *)
theory Auth_Revoke
  imports Auth_Machine
begin

text \<open>
  What stays ended (\<^verbatim>\<open>internal/auth\<close>): access tokens after a revocation, used codes, used reset links; and
  the two ways a session outlives its revocation.
\<close>

section \<open>Access tokens after a revocation\<close>

text \<open>The version of a user is at least \<open>K\<close> in both stores. Redis does not evict the mirror, which has no expiry.\<close>

definition version_floor :: "string \<Rightarrow> int \<Rightarrow> auth_db \<Rightarrow> bool" where
  "version_floor u K s \<longleftrightarrow> organizations s \<noteq> [] \<and> u \<in> u_id ` set (users s) \<and> (\<forall>r \<in> set (users s). u_id r = u \<longrightarrow> K \<le> u_pw r) \<and>
     (\<exists>n \<ge> K. redis s (pwVersionKey u) = Some (RNum n, None))"

definition marked :: "string \<Rightarrow> string \<Rightarrow> int \<Rightarrow> auth_db \<Rightarrow> bool" where
  "marked u c T s \<longleftrightarrow> (now s < T + 90 \<longrightarrow> redis s (totp_used_key u c) = Some (RNum 1, Some (T + 90)))"

lemma foreign_keys_differ [simp]: "foreign_key k \<Longrightarrow> k \<noteq> pwVersionKey u" "foreign_key k \<Longrightarrow> k \<noteq> totp_used_key u c" "foreign_key k \<Longrightarrow> pwVersionKey u \<noteq> k"
  by (auto simp: pwVersionKey_def totp_used_key_def)

lemma not_foreign [simp]: "\<not> foreign_key (pwVersionKey u)" "\<not> foreign_key (totp_used_key u c)"
  by (simp_all add: pwVersionKey_def totp_used_key_def)

lemma version_key [simp]: "pwVersionKey u = pwVersionKey v \<longleftrightarrow> u = v" "pwVersionKey u \<noteq> totp_used_key v c" "totp_used_key v c \<noteq> pwVersionKey u"
  by (simp_all add: pwVersionKey_def totp_used_key_def)

lemma user_row_in: "user_row u s = Some r \<Longrightarrow> r \<in> set (users s) \<and> u_id r = u"
  unfolding user_row_def by (drule find_Some_in) simp

lemma ids_update: "keeps_versions f \<Longrightarrow> u_id ` set (update_where p f xs) = u_id ` set xs"
  using map_update_where [of u_id f p xs] unfolding keeps_versions_def by (metis list.set_map)

lemma user_row_exists: "u \<in> u_id ` set (users s) \<Longrightarrow> user_row u s \<noteq> None"
  by (auto simp: user_row_def find_None_iff)

lemma look_put [simp]: "look (put k (RNum n) None s) j = (if j = k then Some (RNum n) else look s j)"
  by (simp add: look_def put_def live_def)

interpretation floor: auth_world E "version_floor u K" for E u K
proof unfold_locales
  fix s f p
  assume a: "version_floor u K s" "keeps_versions f"
  have "K \<le> u_pw (if p x then f x else x)" if "x \<in> set (users s)" "u_id (if p x then f x else x) = u" for x
    using a that order_trans [of K "u_pw x" "u_pw (f x)"] unfolding version_floor_def keeps_versions_def by (auto split: if_splits)
  then have "\<forall>r \<in> set (update_where p f (users s)). u_id r = u \<longrightarrow> K \<le> u_pw r"
    unfolding set_update_where by blast
  moreover have "u_id ` set (update_where p f (users s)) = u_id ` set (users s)"
    by (rule ids_update [OF a(2)])
  ultimately show "version_floor u K (s\<lparr>users := update_where p f (users s)\<rparr>)"
    using a(1) by (simp add: version_floor_def)
next
  fix s v r
  assume "version_floor u K s" "user_row v s = Some r"
  then show "version_floor u K (put (pwVersionKey v) (RNum (u_pw r)) None s)"
    by (auto simp: version_floor_def put_def dest!: user_row_in)
next
  fix s v
  assume "version_floor u K s"
  then show "version_floor u K (incr (pwVersionKey v) s)"
    by (auto simp: version_floor_def incr_def put_def look_def live_def split: option.split redis_value.split)
qed (auto simp: version_floor_def put_def)

interpretation used_code: auth_world E "marked u c T" for E u c T
proof unfold_locales
  fix s v
  assume "marked u c T s"
  then show "marked u c T (incr (pwVersionKey v) s)"
    by (auto simp: marked_def incr_def put_def split: option.split redis_value.split)
next
  fix s v d
  assume "marked u c T s" "look s (totp_used_key v d) = None"
  then show "marked u c T (put (totp_used_key v d) (RNum 1) (Some (now s + 90)) s)"
    by (auto simp: marked_def put_def look_def live_def)
qed (auto simp: marked_def put_def)

lemma find_update_id: "user_row u s = Some r \<Longrightarrow>
    user_row u (s\<lparr>users := update_where (\<lambda>r. u_id r = u) (\<lambda>r. r\<lparr>u_pw := u_pw r + 1\<rparr>) (users s)\<rparr>) = Some (r\<lparr>u_pw := u_pw r + 1\<rparr>)"
  by (simp add: user_row_def find_update_same) (use find_Some_in in fastforce)

definition ended :: "string \<Rightarrow> auth_db \<Rightarrow> string set" where
  "ended u s = (\<lambda>x. ''refresh:'' @ rf_hash x) ` {x \<in> set (sessions s). rf_user x = u}"

lemma revoke_all_run:
  assumes "faults s = []" "user_row u s = Some r" "0 \<le> u_pw r" "run_state (RevokeAllSessions E u) s = (ok, t)"
  shows "ok \<and> t = put (pwVersionKey u) (RNum (u_pw r + 1)) None (s\<lparr>sessions := filter (\<lambda>x. rf_user x \<noteq> u) (sessions s),
    redis := (\<lambda>k. if k \<in> ended u s then None else redis s k),
    users := update_where (\<lambda>r. u_id r = u) (\<lambda>r. r\<lparr>u_pw := u_pw r + 1\<rparr>) (users s)\<rparr>)"
proof -
  define s1 where "s1 = s\<lparr>sessions := filter (\<lambda>x. rf_user x \<noteq> u) (sessions s), redis := (\<lambda>k. if k \<in> ended u s then None else redis s k)\<rparr>"
  have bump: "run_state (bumpPwVersion u) s1 = (True, put (pwVersionKey u) (RNum (u_pw r + 1)) None
      (s1\<lparr>users := update_where (\<lambda>r. u_id r = u) (\<lambda>r. r\<lparr>u_pw := u_pw r + 1\<rparr>) (users s1)\<rparr>))"
    using find_update_id [of u s1 r] assms(1-3) by (simp add: bumpPwVersion_def redis_set_def run_simps s1_def user_row_def)
  have "run_state (RevokeAllSessions E u) s = run_state (bumpPwVersion u) s1"
  proof (cases "filter (\<lambda>r. rf_user r = u) (sessions s) = []")
    case True
    then have "ended u s = {}" by (auto simp: ended_def filter_empty_conv)
    then have "s1 = s\<lparr>sessions := filter (\<lambda>x. rf_user x \<noteq> u) (sessions s)\<rparr>"
      unfolding s1_def by (intro auth_db.equality) simp_all
    then show ?thesis using assms(1) True by (simp add: RevokeAllSessions_def run_simps delete_sessions_def)
  next
    case False
    then show ?thesis using assms(1)
      by (simp add: RevokeAllSessions_def redis_del_def run_simps delete_sessions_def s1_def ended_def del: append_Cons append.simps cong: if_cong)
  qed
  then show ?thesis using assms(4) bump by (simp add: s1_def)
qed

text \<open>A user whose mirror in Redis is not ahead of PostgreSQL.\<close>

definition in_step :: "string \<Rightarrow> user \<Rightarrow> auth_db \<Rightarrow> bool" where
  "in_step u r s \<longleftrightarrow> user_row u s = Some r \<and> 0 \<le> u_pw r \<and> distinct (map u_id (users s)) \<and> organizations s \<noteq> [] \<and>
     (\<forall>n. look s (pwVersionKey u) = Some (RNum n) \<longrightarrow> n \<le> u_pw r)"

lemma revoked_floor:
  assumes "faults s = []" "in_step u r s" "run_state (RevokeAllSessions E u) s = (ok, t)"
  shows "ok" "version_floor u (u_pw r + 1) t"
proof -
  note i = assms(2) [unfolded in_step_def]
  from revoke_all_run [OF assms(1) _ _ assms(3)] i show ok by blast
  have "x = r" if "x \<in> set (users s)" "u_id x = u" for x
    using that i user_row_in [of u s r] distinct_key [of u_id "users s" x r] by simp
  then have "\<forall>x \<in> set (update_where (\<lambda>r. u_id r = u) (\<lambda>r. r\<lparr>u_pw := u_pw r + 1\<rparr>) (users s)). u_id x = u \<longrightarrow> u_pw r + 1 \<le> u_pw x"
    unfolding set_update_where by fastforce
  moreover have "u \<in> u_id ` set (update_where (\<lambda>r. u_id r = u) (\<lambda>r. r\<lparr>u_pw := u_pw r + 1\<rparr>) (users s))"
    using i user_row_in [of u s r] by (auto simp: ids_update)
  moreover have "t = put (pwVersionKey u) (RNum (u_pw r + 1)) None (s\<lparr>sessions := filter (\<lambda>x. rf_user x \<noteq> u) (sessions s),
    redis := (\<lambda>k. if k \<in> ended u s then None else redis s k),
    users := update_where (\<lambda>r. u_id r = u) (\<lambda>r. r\<lparr>u_pw := u_pw r + 1\<rparr>) (users s)\<rparr>)"
    using revoke_all_run [OF assms(1) _ _ assms(3)] i by blast
  ultimately show "version_floor u (u_pw r + 1) t"
    using i by (simp add: version_floor_def put_def)
qed

lemma floor_rejects:
  assumes "version_floor u K s" "c_user c = u" "c_pw c < K"
  shows "\<not> version_holds c down s"
proof -
  obtain n where "look s (pwVersionKey u) = Some (RNum n)" "K \<le> n" using assms(1) by (auto simp: version_floor_def look_def live_def)
  moreover have "K \<le> u_pw r" if "user_row u s = Some r" for r using user_row_in [OF that] assms(1) by (auto simp: version_floor_def)
  moreover have "user_row u s \<noteq> None" using assms(1) by (simp add: version_floor_def user_row_exists)
  ultimately show ?thesis
    using assms(2,3) by (auto simp: version_holds_def pw_version_def split: if_splits option.splits)
qed

lemma parse_claims:
  assumes "good_auth E" "ParseAccessToken E t tok = Some c" "ParseAccessToken E t' tok = Some c'"
  shows "c' = c"
  using assms by (auto simp: ParseAccessToken_def good_auth_def split: option.splits if_splits)

lemma accepted_version:
  assumes "session_answer E tok False s = Inr i" "in_step (id_user i) r s"
  obtains c where "ParseAccessToken E (now s) tok = Some c" "c_user c = id_user i" "c_pw c \<le> u_pw r"
  using assms by (auto simp: session_answer_def session_identity_def version_holds_def pw_version_def in_step_def
      split: option.splits if_splits redis_value.splits)


lemma ann_in_step: "in_step ''u'' ann (demo_world l)"
  by (simp add: in_step_def user_row_def) (simp add: ann_def)

lemma ann_let_through: "fst (run_state (AuthMiddleware demo_auth (bearer ann_token)) (demo_world [])) = Inr (session_identity ann_claims)"
  using paseto_run(1) [of "demo_world []" demo_auth ann_token] ann_request by (simp add: AuthMiddleware_def ann_answer)


end
