(* ===== verification/Auth_Limits.thy ===== *)
theory Auth_Limits
  imports Auth_Revoke
begin

text \<open>
  One-time codes and links (\<^verbatim>\<open>internal/auth/totp_handler.go\<close>, \<^verbatim>\<open>password_reset.go\<close>), and two ways a session outlives
  its revocation (\<^verbatim>\<open>service.go\<close>).
\<close>

section \<open>A second factor is spent\<close>

lemma check_totp_marks:
  assumes "\<not> ae_failopen E" "run_state (check_totp E u sec code) s = (None, t)"
  shows "marked u code (now s) t"
  using assms by (auto simp: check_totp_def checkAndMarkTOTPCode_def exec_def run_attempt run_simps marked_def put_def
      split: option.splits if_splits list.splits prod.splits)

lemma marked_refuses:
  assumes "\<not> ae_failopen E" "marked u code T s" "now s < T + 90"
  shows "fst (run_state (check_totp E u sec code) s) \<noteq> None"
proof -
  have "look s (totp_used_key u code) = Some (RNum 1)" using assms(2,3) by (simp add: marked_def look_def live_def)
  then show ?thesis using assms(1)
    by (auto simp: check_totp_def checkAndMarkTOTPCode_def exec_def run_attempt run_simps split: option.splits list.splits)
qed

lemma backup_found: "CheckBackupCode E c hs = Some i \<Longrightarrow> i < length hs \<and> ae_match E (hs ! i) c"
  by (induction hs arbitrary: i) (auto split: if_splits)

lemma marked_faults: "marked u c T (s\<lparr>faults := l\<rparr>) = marked u c T s"
  by (simp add: marked_def)

lemma totp_row_faults: "totp_row u (s\<lparr>faults := l\<rparr>) = totp_row u s"
  by (simp add: totp_row_def)

lemma totp_row_set: "(\<And>x. ts_user (f x) = ts_user x) \<Longrightarrow> totp_row u s = Some r \<Longrightarrow> totp_row u (set_totp u f s) = Some (f r)"
  by (simp add: totp_row_def set_totp_def find_update_same) (use find_Some_in in fastforce)

text \<open>C13: a second factor works once. An accepted factor was that of an enabled enrolment. A backup code was one of those stored
  and is stored no longer. The text of a time-based code is refused for the ninety seconds it could still be valid, for
  this user, through every operation and every failure in between, unless the installation asked to fail open.\<close>

theorem factor_spent:
  assumes "\<not> ae_failopen E" "run_state (validateSecondFactor E u code backup) s = (None, t)"
  shows "\<exists>r. totp_row u s = Some r \<and> ts_enabled r \<and>
    (if backup \<noteq> '''' then \<exists>i < length (ts_backup r). ae_match E (ts_backup r ! i) backup \<and> totp_row u t = Some (r\<lparr>ts_backup := removeIndex (ts_backup r) i\<rparr>)
     else \<forall>v. (auth_step E)\<^sup>*\<^sup>* t v \<and> now v < now s + 90 \<longrightarrow> fst (run_state (validateSecondFactor E u code '''') v) \<noteq> None)"
proof -
  define s0 where "s0 = snd (run_state attempt s)"
  have s0: "totps s0 = totps s" "now s0 = now s" by (simp_all add: s0_def run_attempt split: list.split)
  obtain r where r: "totp_row u s = Some r" "ts_enabled r"
    and c: "run_state (if backup \<noteq> '''' then check_backup E u backup (ts_backup r) else check_totp E u (ts_secret r) code) s0 = (None, t)"
    using assms(2) unfolding s0_def by (auto simp: validateSecondFactor_def run_simps run_attempt totp_row_faults split: list.splits option.splits if_splits bool.splits)
  show ?thesis
  proof (cases "backup = ''''")
    case True
    have "marked u code (now s) t" using check_totp_marks [OF assms(1), of u "ts_secret r" code s0] c True s0 by simp
    then have m: "marked u code (now s) v" if "(auth_step E)\<^sup>*\<^sup>* t v" for v using used_code.world.steps_inv that by blast
    have "fst (run_state (validateSecondFactor E u code '''') v) \<noteq> None" if "(auth_step E)\<^sup>*\<^sup>* t v" "now v < now s + 90" for v
      using marked_refuses [OF assms(1), of u code "now s"] m [OF that(1)] that(2)
      by (auto simp: validateSecondFactor_def run_simps run_attempt marked_faults split: list.splits option.splits if_splits)
    then show ?thesis using r True by auto
  next
    case False
    then obtain i where i: "CheckBackupCode E backup (ts_backup r) = Some i" "t = set_totp u (\<lambda>r'. r'\<lparr>ts_backup := removeIndex (ts_backup r) i\<rparr>) (t\<lparr>totps := totps s\<rparr>)"
      using c by (auto simp: s0(1) [symmetric] check_backup_def updateBackupCodes_def exec_def run_simps run_attempt set_totp_def split: option.splits list.splits if_splits)
    have "totp_row u t = Some (r\<lparr>ts_backup := removeIndex (ts_backup r) i\<rparr>)"
      by (subst i(2), rule totp_row_set) (use r(1) in \<open>simp_all add: totp_row_def\<close>)
    then show ?thesis using r False backup_found [OF i(1)] by auto
  qed
qed

lemma factor_spent_witness:
  "fst (run_state (validateSecondFactor demo_auth ''u'' ''123456'' []) (snd (run_state (validateSecondFactor demo_auth ''u'' ''123456'' []) (demo_world [])))) \<noteq> None"
proof -
  have "fst (run_state (validateSecondFactor demo_auth ''u'' ''123456'' []) (demo_world [])) = None" by code_simp
  then obtain t where t: "run_state (validateSecondFactor demo_auth ''u'' ''123456'' []) (demo_world []) = (None, t)" by (metis prod.collapse)
  have "now (snd (run_state (validateSecondFactor demo_auth ''u'' ''123456'' []) (demo_world []))) = 0" by code_simp
  then have n: "now t = 0" by (simp add: t)
  have "\<not> ae_failopen demo_auth" by (simp add: demo_auth_def)
  from factor_spent [OF this t] n show ?thesis by (auto simp: t)
qed

text \<open>C18: a spent code comes back with a space. The mark of a used code is on its text as sent, while the check of the code
  (a library, documented to strip white space) takes the same code with a space; so right after a code was
  accepted the padded one is accepted too, with no failure anywhere.\<close>

theorem padded_code_replayed:
  assumes "faults s = []" "totp_row u s = Some r" "ts_enabled r" "ae_decrypt E (ts_secret r) = Some plain"
    and "\<forall>x t. ae_totp E plain (x @ '' '') t = ae_totp E plain x t"
    and "run_state (validateSecondFactor E u code []) s = (None, t)" "look s (totp_used_key u (code @ '' '')) = None"
  shows "fst (run_state (validateSecondFactor E u (code @ '' '') []) t) = None"
proof -
  have k: "totp_used_key u (code @ '' '') \<noteq> totp_used_key u code" by (simp add: totp_used_key_def)
  have c: "run_state (check_totp E u (ts_secret r) code) s = (None, t)"
    using assms(1-3,6) by (simp add: validateSecondFactor_def run_simps)
  then have t: "ae_totp E plain code (now s)" "t = put (totp_used_key u code) (RNum 1) (Some (now s + 90)) s"
    using assms(1,4) by (auto simp: check_totp_def checkAndMarkTOTPCode_def run_simps split: if_splits)
  have "faults t = []" "totp_row u t = Some r" "now t = now s" "look t (totp_used_key u (code @ '' '')) = None"
    using assms(1,2,7) k by (simp_all add: t(2) put_def totp_row_def look_def live_def del: append_Cons append.simps)
  then show ?thesis using t(1) assms(3-5)
    by (simp add: validateSecondFactor_def check_totp_def checkAndMarkTOTPCode_def run_simps del: append_Cons append.simps)
qed

definition trimming_auth :: auth_env where
  "trimming_auth = demo_auth\<lparr>ae_totp := (\<lambda>s c t. filter (\<lambda>x. x \<noteq> CHR '' '') c = s)\<rparr>"

lemma padded_code_replayed_witness:
  "fst (run_state (validateSecondFactor trimming_auth ''u'' (''123456'' @ '' '') []) (snd (run_state (validateSecondFactor trimming_auth ''u'' ''123456'' []) (demo_world [])))) = None"
proof -
  have "fst (run_state (validateSecondFactor trimming_auth ''u'' ''123456'' []) (demo_world [])) = None" by code_simp
  then obtain t where t: "run_state (validateSecondFactor trimming_auth ''u'' ''123456'' []) (demo_world []) = (None, t)" by (metis prod.collapse)
  have r: "totp_row ''u'' (demo_world []) = Some \<lparr>ts_user = ''u'', ts_secret = ''123456'', ts_enabled = True, ts_backup = [''AAAA-AAAA'']\<rparr>" by code_simp
  have "\<forall>x t. ae_totp trimming_auth ''123456'' (x @ '' '') t = ae_totp trimming_auth ''123456'' x t" by (simp add: trimming_auth_def)
  from padded_code_replayed [OF _ r _ _ this t] show ?thesis unfolding t by (simp add: trimming_auth_def demo_auth_def)
qed

section \<open>Issuing while the stores answer\<close>

definition version_now :: "string \<Rightarrow> auth_db \<Rightarrow> int" where
  "version_now u s = (case pw_version u s of None \<Rightarrow> 0 | Some n \<Rightarrow> n)"

lemma run_currentPwVersion: "faults s = [] \<Longrightarrow> run_state (currentPwVersion u) s = (version_now u s, s)"
  by (auto simp: currentPwVersion_def redis_get_def pwVersionFromDB_def version_now_def pw_version_def run_simps
      split: option.split redis_value.split)

lemma run_session_row:
  assumes "faults s = []"
  obtains x l where "run_state (session_row sid u g h hint t) s = (x, s\<lparr>sessions := l\<rparr>)" "\<not> text_ok hint \<longrightarrow> l = sessions s"
proof (cases "text_ok hint")
  case True
  then show ?thesis using that assms by (auto simp: session_row_def run_simps)
next
  case False
  then show ?thesis using that [of None "sessions s"] by (simp add: session_row_def run_simps)
qed

definition access_claims :: "auth_env \<Rightarrow> string \<Rightarrow> string \<Rightarrow> string list \<Rightarrow> bool \<Rightarrow> auth_db \<Rightarrow> string" where
  "access_claims E u g roles mfa s = ae_seal E (fresh s) \<lparr>pt_iat = now s, pt_exp = now s + 3600, pt_user = Some u, pt_org = Some g, pt_roles = Some roles,
     pt_pw = Some (version_now u s), pt_mfa = Some mfa, pt_pending = None\<rparr>"

lemma run_issueTokenPair:
  assumes "faults s = []"
  obtains resp t l n where "run_state (issueTokenPair E u g roles hint mfa) s = (Inr resp, t)"
    "t = (put (refreshRedisKey E (rs_refresh resp)) (RRefresh \<lparr>rp_user = u, rp_org = g, rp_roles = roles, rp_mfa = mfa\<rparr>)
      (Some (now s + RefreshTokenTTL)) s)\<lparr>fresh := n, sessions := l\<rparr>"
    "\<not> text_ok (hint120 hint) \<longrightarrow> l = sessions s" "rs_access resp = access_claims E u g roles mfa s" "\<not> rs_mfa_required resp"
proof -
  let ?r = "ae_random E (Suc (fresh s))"
  define s1 where "s1 = (put (refreshRedisKey E ?r) (RRefresh \<lparr>rp_user = u, rp_org = g, rp_roles = roles, rp_mfa = mfa\<rparr>)
      (Some (now s + RefreshTokenTTL)) s)\<lparr>fresh := Suc (Suc (Suc (fresh s)))\<rparr>"
  have f: "faults s1 = []" "now s1 = now s" "sessions s1 = sessions s" using assms by (simp_all add: s1_def put_def)
  obtain x l where row: "run_state (session_row (ae_uuid E (Suc (Suc (fresh s)))) u g (ae_sha E ?r) (hint120 hint) (now s)) s1 = (x, s1\<lparr>sessions := l\<rparr>)"
    "\<not> text_ok (hint120 hint) \<longrightarrow> l = sessions s1"
    using run_session_row [OF f(1)] by blast
  have "run_state (issueTokenPair E u g roles hint mfa) s = (Inr \<lparr>rs_access = access_claims E u g roles mfa s, rs_refresh = ?r,
      rs_expires_in = AccessTokenTTL, rs_user = None, rs_session = (case x of None \<Rightarrow> [] | Some i \<Rightarrow> i), rs_csrf = [],
      rs_mfa_required = False, rs_mfa_token = []\<rparr>, s1\<lparr>sessions := l\<rparr>)"
    using assms row(1) unfolding issueTokenPair_def
    by (simp add: run_simps run_currentPwVersion IssueAccessToken_def IssueAccessTokenWithTTL_def IssueRefreshToken_def redis_set_def
        access_claims_def AccessTokenTTL_def hour_def s1_def put_def)
  then show ?thesis by (rule that) (use row(2) f(3) in \<open>simp_all add: s1_def put_def\<close>)
qed

section \<open>Two lost revocations\<close>

lemma look_incr:
  "look s k = Some (RNum n) \<Longrightarrow> look (incr k s) k = Some (RNum (n + 1))"
  by (auto simp: incr_def look_def put_def live_def split: option.splits prod.splits if_splits)

lemma incr_frame [simp]: "users (incr k s) = users s" "now (incr k s) = now s"
  by (simp_all add: incr_def put_def split: option.split redis_value.split)

text \<open>C17: revocations that revoke nothing. When PostgreSQL does not take a bump of the version and Redis counts it, which
  reports success, Redis is one ahead: a session begun after that is of the version that the next bump sets, so it is
  still accepted after a second revocation that succeeds in both stores. And when the mirror in Redis had been evicted, it
  starts again at one: the bump that reports success makes exactly the tokens of version one valid, however far the
  version in PostgreSQL is.\<close>

theorem next_revocation_lost:
  assumes "in_step u r s" "faults s = [True]" "c_user c = u"
    and "run_state (bumpPwVersion u) s = (b1, s1)" "run_state (bumpPwVersion u) s1 = (b2, s2)"
  shows "b1 \<and> (look s (pwVersionKey u) = Some (RNum (u_pw r)) \<and> version_holds c False s1 \<longrightarrow>
      b2 \<and> version_holds c False s2 \<and> user_row u s2 = Some (r\<lparr>u_pw := u_pw r + 1\<rparr>)) \<and>
    (look s (pwVersionKey u) = None \<longrightarrow> (version_holds c False s1 \<longleftrightarrow> c_pw c = 1))"
proof (intro conjI impI; (elim conjE)?)
  note i = assms(1) [unfolded in_step_def]
  have s1: "b1" "s1 = incr (pwVersionKey u) (s\<lparr>faults := []\<rparr>)"
    using assms(2,4) by (simp_all add: bumpPwVersion_def exec_def run_attempt run_simps)
  then show b1 by simp
  { assume l0: "look s (pwVersionKey u) = Some (RNum (u_pw r))" and v: "version_holds c False s1"
    have l: "look s1 (pwVersionKey u) = Some (RNum (u_pw r + 1))" unfolding s1(2) by (rule look_incr) (use l0 in simp)
    have f: "faults s1 = []" by (simp add: s1(2) incr_def put_def split: option.split redis_value.split)
    have u: "user_row u s1 = Some r" using i by (simp add: s1(2) user_row_def)
    have s2: "b2" "s2 = put (pwVersionKey u) (RNum (u_pw r + 1)) None (s1\<lparr>users := update_where (\<lambda>r. u_id r = u) (\<lambda>r. r\<lparr>u_pw := u_pw r + 1\<rparr>) (users s1)\<rparr>)"
      using assms(5) f find_update_id [OF u] i by (simp_all add: bumpPwVersion_def redis_set_def run_simps)
    have "c_pw c = u_pw r + 1" using assms(3) v l by (simp add: version_holds_def pw_version_def)
    then show "version_holds c False s2" using assms(3) by (simp add: version_holds_def pw_version_def s2(2))
    show "user_row u s2 = Some (r\<lparr>u_pw := u_pw r + 1\<rparr>)"
      using find_update_id [OF u] by (simp add: s2(2) put_def user_row_def)
    show b2 by (rule s2(1)) }
  assume "look s (pwVersionKey u) = None"
  then have "look s1 (pwVersionKey u) = Some (RNum 1)" unfolding s1(2) by (simp add: incr_def)
  then show "version_holds c False s1 \<longleftrightarrow> c_pw c = 1" using assms(3) by (simp add: version_holds_def pw_version_def)
qed

lemma next_revocation_lost_witness:
  "version_holds \<lparr>c_user = ''u'', c_org = ''g'', c_roles = [], c_pw = 1, c_mfa = False\<rparr> False
    (snd (run_state (bumpPwVersion ''u'') (snd (run_state (bumpPwVersion ''u'') (put (pwVersionKey ''u'') (RNum 0) None (demo_world [True]))))))"
proof -
  let ?s = "put (pwVersionKey ''u'') (RNum 0) None (demo_world [True])"
  let ?c = "\<lparr>c_user = ''u'', c_org = ''g'', c_roles = [], c_pw = 1, c_mfa = False\<rparr>"
  have i: "in_step ''u'' ann ?s" using ann_in_step [of "[True]"] by (auto simp: in_step_def user_row_def put_def look_def live_def)
  have l: "look ?s (pwVersionKey ''u'') = Some (RNum (u_pw ann))" "faults ?s = [True]" by (simp_all add: ann_def) (simp add: put_def)
  have "version_holds ?c False (snd (run_state (bumpPwVersion ''u'') ?s))" by code_simp
  then show ?thesis using next_revocation_lost [OF i l(2) _ prod.collapse [symmetric] prod.collapse [symmetric], of ?c] l(1) by simp
qed

text \<open>C16: a session that no revocation ends. A user agent that is not UTF-8 (and one whose hundred and twentieth byte falls inside
  a character) keeps the session out of the table of sessions, while its refresh token works. Revoking
  every session of the user succeeds, and the refresh token then still buys an access token of the newest version.\<close>

theorem unlisted_session_survives:
  assumes "good_auth E" "faults s = []" "in_step u r s" "u_active r" "m \<in> set (members s)" "m_user m = u" "m_org m = g"
    and "\<not> text_ok (hint120 hint)" "run_state (issueTokenPair E u g roles hint mfa) s = (Inr resp, s1)"
    and "ae_sha E (rs_refresh resp) \<notin> rf_hash ` set (sessions s)"
    and "run_state (RevokeAllSessions E u) s1 = (ok, s2)" "run_state (Refresh E (rs_refresh resp)) s2 = (ans, s3)"
  shows "ok \<and> (\<exists>resp' c. ans = Inr resp' \<and> ParseAccessToken E (now s3) (rs_access resp') = Some c \<and> c_user c = u \<and> version_holds c False s3)"
proof -
  let ?k = "refreshRedisKey E (rs_refresh resp)"
  note i = assms(3) [unfolded in_step_def]
  obtain n where s1: "s1 = (put ?k (RRefresh \<lparr>rp_user = u, rp_org = g, rp_roles = roles, rp_mfa = mfa\<rparr>) (Some (now s + RefreshTokenTTL)) s)
      \<lparr>fresh := n, sessions := sessions s\<rparr>"
    using run_issueTokenPair [OF assms(2), of E u g roles hint mfa thesis] assms(8,9) by auto
  have "in_step u r s1" using i s1 by (simp add: in_step_def user_row_def look_def put_def)
  then have t: "ok" "s2 = put (pwVersionKey u) (RNum (u_pw r + 1)) None (s1\<lparr>sessions := filter (\<lambda>x. rf_user x \<noteq> u) (sessions s1),
    redis := (\<lambda>k. if k \<in> ended u s1 then None else redis s1 k),
    users := update_where (\<lambda>r. u_id r = u) (\<lambda>r. r\<lparr>u_pw := u_pw r + 1\<rparr>) (users s1)\<rparr>)"
    using revoke_all_run [OF _ _ _ assms(11), of r] assms(2) s1 unfolding in_step_def by (simp_all add: put_def)
  have f2: "faults s2 = []" using assms(2) by (simp add: t(2) s1 put_def)
  have row: "user_row u s2 = Some (r\<lparr>u_pw := u_pw r + 1\<rparr>)"
    using find_update_id [of u s1 r] i by (simp add: t(2) s1 put_def user_row_def)
  have "?k \<notin> ended u s1" using assms(10) by (auto simp: ended_def refreshRedisKey_def s1 put_def)
  then have l: "look s2 ?k = Some (RRefresh \<lparr>rp_user = u, rp_org = g, rp_roles = roles, rp_mfa = mfa\<rparr>)"
    by (simp add: t(2) s1 look_def live_def put_def RefreshTokenTTL_def hour_def)
  have "m \<in> set (filter (\<lambda>m. m_org m = g) (memberships u s2))" using assms(5-7) by (simp add: memberships_def t(2) s1 put_def)
  then obtain x xs where x: "filter (\<lambda>m. m_org m = g) (memberships u s2) = x # xs" by (cases "filter (\<lambda>m. m_org m = g) (memberships u s2)") auto
  define s2' where "s2' = delete_sessions (\<lambda>r. rf_hash r = ae_sha E (rs_refresh resp)) (s2\<lparr>redis := (\<lambda>j. if j \<in> {?k} then None else redis s2 j)\<rparr>)"
  have f2': "faults s2' = []" using f2 by (simp add: s2'_def delete_sessions_def)
  obtain hint' where "run_state (Refresh E (rs_refresh resp)) s2 = run_state (issueTokenPair E u g [m_role x] hint' mfa) s2'"
    using f2 row l x assms(4) by (auto simp: Refresh_def redis_get_def redis_del_def run_simps Let_def s2'_def)
  with assms(12) obtain resp' l' n' where r': "ans = Inr resp'" "rs_access resp' = access_claims E u g [m_role x] mfa s2'"
    "s3 = (put (refreshRedisKey E (rs_refresh resp')) (RRefresh \<lparr>rp_user = u, rp_org = g, rp_roles = [m_role x], rp_mfa = mfa\<rparr>)
      (Some (now s2' + RefreshTokenTTL)) s2')\<lparr>fresh := n', sessions := l'\<rparr>"
    using run_issueTokenPair [OF f2', of E u g "[m_role x]" hint' mfa thesis] by auto
  have v: "look s2' (pwVersionKey u) = Some (RNum (u_pw r + 1))" "look s3 (pwVersionKey u) = Some (RNum (u_pw r + 1))"
    by (simp_all add: r'(3) s2'_def t(2) look_def live_def put_def delete_sessions_def)
  then have "version_now u s2' = u_pw r + 1" by (simp add: version_now_def pw_version_def)
  then have "ParseAccessToken E (now s3) (rs_access resp') = Some \<lparr>c_user = u, c_org = g, c_roles = [m_role x], c_pw = u_pw r + 1, c_mfa = mfa\<rparr>"
    using good_parse [OF assms(1)] by (simp add: r'(2,3) access_claims_def ParseAccessToken_def put_def)
  then show ?thesis using t(1) r'(1) v(2) by (simp add: version_holds_def pw_version_def)
qed

lemma unlisted_session_survives_witness:
  "\<exists>a s1 s2. run_state (issueTokenPair demo_auth ''u'' ''g'' [''Admin''] [CHR 0xFF] False) (demo_world []) = (Inr a, s1) \<and>
     run_state (RevokeAllSessions demo_auth ''u'') s1 = (True, s2) \<and> (\<exists>a'. fst (run_state (Refresh demo_auth (rs_refresh a)) s2) = Inr a')"
proof -
  obtain a s1 where a: "run_state (issueTokenPair demo_auth ''u'' ''g'' [''Admin''] [CHR 0xFF] False) (demo_world []) = (Inr a, s1)"
    using run_issueTokenPair [of "demo_world []" demo_auth "''u''" "''g''" "[''Admin'']" "[CHR 0xFF]" False thesis] by simp
  obtain ok s2 where r: "run_state (RevokeAllSessions demo_auth ''u'') s1 = (ok, s2)" by (cases "run_state (RevokeAllSessions demo_auth ''u'') s1")
  obtain ans s3 where f: "run_state (Refresh demo_auth (rs_refresh a)) s2 = (ans, s3)" by (cases "run_state (Refresh demo_auth (rs_refresh a)) s2")
  have t: "\<not> text_ok (hint120 [CHR 0xFF])" by code_simp
  have m: "u_active ann" "m_user ann_member = ''u''" "m_org ann_member = ''g''" by (simp_all add: ann_def ann_member_def)
  show ?thesis using unlisted_session_survives [OF demo_good _ ann_in_step m(1) _ m(2,3) t a _ r f] a r f by auto
qed

end
