(* ===== verification/Auth_Login.thy ===== *)
theory Auth_Login
  imports Auth_Limits
begin

text \<open>
  Login (\<^verbatim>\<open>internal/auth/service.go\<close>, \<^verbatim>\<open>handler.go\<close>): how often a password can be tried, what a login without a second
  factor rests on, and what a reset link does.
\<close>

section \<open>Without failures\<close>

lemma wp_attempt_now: "faults s = [] \<Longrightarrow> Q True s \<Longrightarrow> wp attempt Q s"
  by (simp add: wp_def run_simps)

lemma wp_exec_now: "faults s = [] \<Longrightarrow> Q True (f s) \<Longrightarrow> wp (exec f) Q s"
  by (simp add: wp_def run_simps)

text \<open>The world while a login runs: no failure, the time stands, one key of Redis keeps its value.\<close>

definition still :: "string \<Rightarrow> (redis_value \<times> int option) option \<Rightarrow> int \<Rightarrow> auth_db \<Rightarrow> bool" where
  "still k v T s \<longleftrightarrow> faults s = [] \<and> redis s k = v \<and> now s = T"

lemma still_attempt: "keeps (still k v T) attempt"
  by (rule keepsI) (auto simp: still_def intro: wp_attempt_now)

lemma still_draw: "keeps (still k v T) (draw f)"
  by (rule keepsI) (simp add: still_def wp_draw)

lemma still_exec:
  assumes "\<And>s. still k v T s \<Longrightarrow> still k v T (f s)"
  shows "keeps (still k v T) (exec f)"
proof (rule keepsI)
  fix s assume i: "still k v T s"
  show "wp (exec f) (\<lambda>_. still k v T) s"
    by (rule wp_exec_now) (use i assms [OF i] in \<open>simp_all add: still_def\<close>)
qed

lemma still_redis_get: "keeps (still k v T) (redis_get j)"
  unfolding redis_get_def by (intro hoare_rules still_attempt)

lemma still_value: "(\<And>n. keeps I (f n)) \<Longrightarrow> (\<And>p. keeps I (g p)) \<Longrightarrow> (\<And>p. keeps I (h p)) \<Longrightarrow>
    keeps I (case x of RNum n \<Rightarrow> f n | RRefresh p \<Rightarrow> g p | RPerms p \<Rightarrow> h p)"
  by (cases x) simp_all

lemma still_list: "keeps I m \<Longrightarrow> (\<And>x xs. keeps I (f x xs)) \<Longrightarrow> keeps I (case l of [] \<Rightarrow> m | x # xs \<Rightarrow> f x xs)"
  by (cases l) simp_all

lemmas still_rules = hoare_rules still_attempt still_draw still_redis_get still_value still_list

definition lockout_key :: "string \<Rightarrow> bool" where
  "lockout_key k \<longleftrightarrow> has_prefix k ''login_fail_ip''"

lemma lockout_keys [simp]: "lockout_key (loginIPFailKey ip)" "lockout_key (loginIPEmailFailKey ip m)"
  by (simp_all add: lockout_key_def loginIPFailKey_def loginIPEmailFailKey_def has_prefix_def)

lemma refresh_not_lockout: "lockout_key k \<Longrightarrow> k \<noteq> refreshRedisKey E tok"
  by (auto simp: lockout_key_def refreshRedisKey_def has_prefix_def)

lemma still_issueTokenPair: "lockout_key k \<Longrightarrow> keeps (still k v T) (issueTokenPair E u g roles hint mfa)"
  unfolding issueTokenPair_def currentPwVersion_def pwVersionFromDB_def IssueAccessToken_def IssueAccessTokenWithTTL_def
    IssueRefreshToken_def session_row_def redis_set_def
  by (intro still_rules still_exec) (auto simp: still_def put_def dest: refresh_not_lockout)

lemma still_recordLogin: "keeps (still k v T) (recordLogin g u email agent source result)"
  unfolding recordLogin_def by (intro still_rules still_exec) (simp add: still_def)

lemma still_Login: "lockout_key k \<Longrightarrow> keeps (still k v T) (Login E email w hint)"
  unfolding Login_def login_session_def upgrade_hash_def userHasMFAEnabled_def IssueMFAPendingToken_def
  by (intro still_rules still_exec still_recordLogin still_issueTokenPair) (simp_all add: still_def)

section \<open>How often a password is tried\<close>

text \<open>A counter after one more failure, at a time.\<close>

definition one_more :: "int \<Rightarrow> (redis_value \<times> int option) option \<Rightarrow> (redis_value \<times> int option) option" where
  "one_more t v = (case live t v of
     Some (RNum n) \<Rightarrow> Some (RNum (n + 1), case v of Some (_, Some e) \<Rightarrow> Some e | _ \<Rightarrow> Some (t + ipLockoutTTL))
   | _ \<Rightarrow> Some (RNum 1, Some (t + ipLockoutTTL)))"

lemma count_failure_at: "redis (count_failure j s) k = (if j = k then one_more (now s) (redis s k) else redis s k)"
  by (auto simp: count_failure_def expire_nx_def incr_def put_def one_more_def look_def live_def split: option.splits redis_value.splits prod.splits if_splits)

lemma count_failure_frame [simp]: "faults (count_failure j s) = faults s" "now (count_failure j s) = now s"
  by (auto simp: count_failure_def expire_nx_def incr_def put_def split: option.splits redis_value.splits)

text \<open>What a login request does to one lockout counter.\<close>

definition counts :: "login_request \<Rightarrow> string \<Rightarrow> bool" where
  "counts q k \<longleftrightarrow> k = loginIPEmailFailKey (lr_ip q) (lr_email q) \<or> k = loginIPFailKey (lr_ip q)"

definition counted :: "login_request \<Rightarrow> string \<Rightarrow> int \<Rightarrow> (redis_value \<times> int option) option \<Rightarrow> login_reply \<Rightarrow> (redis_value \<times> int option) option" where
  "counted q k t v r = (case r of BadCredentials \<Rightarrow> if counts q k then one_more t v else v
     | LoggedIn _ \<Rightarrow> if k = loginIPEmailFailKey (lr_ip q) (lr_email q) then None else v
     | _ \<Rightarrow> v)"

lemma pair_not_ip [simp]: "loginIPEmailFailKey a m \<noteq> loginIPFailKey b" "loginIPFailKey b \<noteq> loginIPEmailFailKey a m"
  by (simp_all add: loginIPEmailFailKey_def loginIPFailKey_def)

lemma attempt_counts:
  assumes "lockout_key k" "still k v T s"
  shows "wp (login_attempt E q) (\<lambda>r t. (r = BadCredentials \<or> (\<exists>a. r = LoggedIn a)) \<and> still k (counted q k T v r) T t) s"
proof -
  have l: "wp (Login E (lr_email q) (lr_password q) (hint120 (lr_agent q))) (\<lambda>_. still k v T) s"
    using still_Login [OF assms(1)] assms(2) by (simp add: keeps_def hoare_def)
  have bad: "wp (do { recordIPEmailLoginFailure (lr_ip q) (lr_email q); recordIPLoginFailure (lr_ip q); State_Monad.return BadCredentials })
      (\<lambda>r t. (r = BadCredentials \<or> (\<exists>a. r = LoggedIn a)) \<and> still k (counted q k T v r) T t) t" if "still k v T t" for t
    using that unfolding still_def recordIPEmailLoginFailure_def recordIPLoginFailure_def
    by (auto simp: wp_def run_simps count_failure_at counted_def counts_def)
  have good: "wp (do { clearLoginFailures (lr_ip q) (lr_email q);
        if rs_mfa_required resp then State_Monad.return (LoggedIn resp)
        else do { c \<leftarrow> GenerateCSRFToken E; State_Monad.return (LoggedIn (resp\<lparr>rs_csrf := c\<rparr>)) } })
      (\<lambda>r t. (r = BadCredentials \<or> (\<exists>a. r = LoggedIn a)) \<and> still k (counted q k T v r) T t) t" if "still k v T t" for t resp
    using that unfolding still_def clearLoginFailures_def GenerateCSRFToken_def redis_del_def
    by (simp add: wp_def run_simps counted_def)
  show ?thesis unfolding login_attempt_def wp_bind
    by (rule wp_mono [OF l]) (rule wp_sumI; rule bad good; assumption)
qed

definition free :: "auth_env \<Rightarrow> login_request \<Rightarrow> string \<Rightarrow> redis_value option \<Rightarrow> bool" where
  "free E q k x \<longleftrightarrow> (k = loginIPEmailFailKey (lr_ip q) (lr_email q) \<longrightarrow> lock_of E ipEmailLockoutFailMax (Some x) = Unlocked) \<and>
     (k = loginIPFailKey (lr_ip q) \<longrightarrow> lock_of E (ae_ipmax E) (Some x) = Unlocked)"

lemma login_counts:
  assumes "lockout_key k" "still k v T s"
  shows "wp (Handler_Login E q) (\<lambda>r t. still k (counted q k T v r) T t \<and> (r = BadCredentials \<longrightarrow> free E q k (live T v))) s"
proof -
  have get: "run_state (redis_get j) s = (Some (look s j), s)" for j using assms(2) by (simp add: redis_get_def run_simps still_def)
  have l: "look s k = live T v" using assms(2) by (simp add: look_def still_def)
  have a: "wp (login_attempt E q) (\<lambda>r t. still k (counted q k T v r) T t \<and> (r = BadCredentials \<longrightarrow> free E q k (live T v))) s" if "free E q k (live T v)"
    by (rule wp_mono [OF attempt_counts [OF assms]]) (use that in auto)
  show ?thesis
  proof (cases "lock_of E (ae_ipmax E) (Some (look s (loginIPFailKey (lr_ip q)))) = Unlocked \<and>
      lock_of E ipEmailLockoutFailMax (Some (look s (loginIPEmailFailKey (lr_ip q) (lr_email q)))) = Unlocked")
    case True
    then have "free E q k (live T v)" using l by (auto simp: free_def)
    with True a assms(2) show ?thesis
      by (auto simp: Handler_Login_def checkIPLocked_def checkIPEmailLocked_def wp_def run_simps get counted_def)
  next
    case False
    then show ?thesis using assms(2)
      by (auto simp: Handler_Login_def checkIPLocked_def checkIPEmailLocked_def wp_def run_simps get counted_def split: lock.split)
  qed
qed

text \<open>A row of requests with the seconds between them, and their replies.\<close>

fun logins :: "auth_env \<Rightarrow> (int \<times> login_request) list \<Rightarrow> (auth_db, (login_request \<times> login_reply) list) state" where
  "logins E [] = State_Monad.return []"
| "logins E ((d, q) # qs) = do {
     modify (\<lambda>s. s\<lparr>now := now s + d\<rparr>);
     r \<leftarrow> Handler_Login E q;
     rs \<leftarrow> logins E qs;
     State_Monad.return ((q, r) # rs) }"

text \<open>A counter of \<open>n\<close> failures that lasts until \<open>e\<close> at least.\<close>

definition counter :: "nat \<Rightarrow> int \<Rightarrow> int \<Rightarrow> (redis_value \<times> int option) option \<Rightarrow> bool" where
  "counter n e t v \<longleftrightarrow> (if n = 0 then live t v = None else \<exists>e' \<ge> e. v = Some (RNum (int n), Some e'))"

lemma counter_later:
  assumes "counter n e t v" "t \<le> t'" shows "counter n e t' v"
  using assms by (auto simp: counter_def live_def split: option.splits prod.splits if_splits)

lemma counter_one_more:
  assumes "counter n e t v" "t < e" "e \<le> t + ipLockoutTTL" shows "counter (Suc n) e t (one_more t v)"
  using assms by (auto simp: counter_def one_more_def live_def split: if_splits)

lemma counter_free:
  assumes "counter n e t v" "t < e" "lock_of E M (Some (live t v)) = Unlocked" "1 \<le> M" shows "int n < M"
  using assms by (auto simp: counter_def lock_of_def live_def split: if_splits)

definition tried :: "string \<Rightarrow> (login_request \<times> login_reply) list \<Rightarrow> nat" where
  "tried k rs = count_where (\<lambda>(q, r). counts q k \<and> r = BadCredentials) rs"

definition cleared :: "string \<Rightarrow> (login_request \<times> login_reply) list \<Rightarrow> bool" where
  "cleared k rs \<longleftrightarrow> (\<exists>(q, r) \<in> set rs. k = loginIPEmailFailKey (lr_ip q) (lr_email q) \<and> (\<exists>a. r = LoggedIn a))"

lemma tried_Cons: "tried k ((q, r) # rs) = (if counts q k \<and> r = BadCredentials then Suc (tried k rs) else tried k rs)"
  by (simp add: tried_def count_where_def)

lemma cleared_Cons: "cleared k ((q, r) # rs) \<longleftrightarrow> (k = loginIPEmailFailKey (lr_ip q) (lr_email q) \<and> (\<exists>a. r = LoggedIn a)) \<or> cleared k rs"
  by (simp add: cleared_def)

lemma counted_counter:
  assumes "counter n e t v" "t < e" "e \<le> t + ipLockoutTTL" "\<not> (k = loginIPEmailFailKey (lr_ip q) (lr_email q) \<and> (\<exists>a. r = LoggedIn a))"
  shows "counter (if counts q k \<and> r = BadCredentials then Suc n else n) e t (counted q k t v r)"
  using assms counter_one_more [OF assms(1-3)] by (auto simp: counted_def split: login_reply.split)

definition lock_limit :: "auth_env \<Rightarrow> string \<Rightarrow> int" where
  "lock_limit E k = (if \<exists>ip. k = loginIPFailKey ip then ae_ipmax E else ipEmailLockoutFailMax)"

lemma counts_free: "counts q k \<Longrightarrow> free E q k x \<Longrightarrow> lock_of E (lock_limit E k) (Some x) = Unlocked"
  by (auto simp: counts_def free_def lock_limit_def)

lemma counter_step:
  assumes "lockout_key k" "1 \<le> lock_limit E k" "still k v T s" "counter n e T v" "T < e" "e \<le> T + ipLockoutTTL" "int n \<le> lock_limit E k"
    and "run_state (Handler_Login E q) s = (r, t)" "\<not> (k = loginIPEmailFailKey (lr_ip q) (lr_email q) \<and> (\<exists>a. r = LoggedIn a))"
  obtains v' n' where "still k v' T t" "counter n' e T v'" "n' = (if counts q k \<and> r = BadCredentials then Suc n else n)" "int n' \<le> lock_limit E k"
proof -
  from login_counts [OF assms(1,3), of E q] assms(8)
  have w: "still k (counted q k T v r) T t" "r = BadCredentials \<longrightarrow> free E q k (live T v)" by (auto simp: wp_def)
  have "int n < lock_limit E k" if "counts q k" "r = BadCredentials"
    using counter_free [OF assms(4,5) counts_free assms(2)] that w(2) by blast
  then show ?thesis
    by (intro that [OF w(1) counted_counter [OF assms(4-6,9)] refl]) (use assms(7) in auto)
qed

lemma tried_bound:
  assumes "lockout_key k" "1 \<le> lock_limit E k"
  shows "\<lbrakk>still k v T s; counter n e T v; int n \<le> lock_limit E k; T + sum_list (map fst qs) < e; e \<le> T + ipLockoutTTL; \<forall>(d, q) \<in> set qs. 0 \<le> d;
    run_state (logins E qs) s = (rs, t); \<not> cleared k rs\<rbrakk> \<Longrightarrow> int (n + tried k rs) \<le> lock_limit E k"
proof (induction qs arbitrary: v T s n rs)
  case Nil
  then show ?case by (simp add: tried_def count_where_def)
next
  case (Cons dq qs)
  obtain d q where dq: "dq = (d, q)" by (cases dq)
  define s1 where "s1 = s\<lparr>now := now s + d\<rparr>"
  obtain r t1 rs' where r: "run_state (Handler_Login E q) s1 = (r, t1)" "run_state (logins E qs) t1 = (rs', t)" "rs = (q, r) # rs'"
    using Cons.prems(7) by (auto simp: dq run_simps s1_def split: prod.splits)
  have d: "0 \<le> d" "\<forall>(d, q) \<in> set qs. 0 \<le> d" using Cons.prems(6) by (auto simp: dq)
  then have sum: "0 \<le> sum_list (map fst qs)" by (intro sum_list_nonneg) auto
  have s1: "still k v (T + d) s1" using Cons.prems(1) by (simp add: still_def s1_def)
  have c: "counter n e (T + d) v" using counter_later [OF Cons.prems(2)] d(1) by simp
  have e: "T + d < e" "e \<le> T + d + ipLockoutTTL" using Cons.prems(4,5) d(1) sum by (simp_all add: dq)
  have nc: "\<not> (k = loginIPEmailFailKey (lr_ip q) (lr_email q) \<and> (\<exists>a. r = LoggedIn a))" "\<not> cleared k rs'"
    using Cons.prems(8) by (auto simp: r(3) cleared_Cons)
  from counter_step [OF assms s1 c e Cons.prems(3) r(1) nc(1)] obtain v' n' where
    n': "still k v' (T + d) t1" "counter n' e (T + d) v'" "n' = (if counts q k \<and> r = BadCredentials then Suc n else n)" "int n' \<le> lock_limit E k" .
  have "int (n' + tried k rs') \<le> lock_limit E k"
    by (rule Cons.IH [OF n'(1,2,4) _ e(2) d(2) r(2) nc(2)]) (use Cons.prems(4) in \<open>simp add: dq\<close>)
  then show ?case using n'(3) by (auto simp: r(3) tried_Cons)
qed


section \<open>What a login rests on\<close>

text \<open>The user a login is for.\<close>

definition login_user :: "auth_env \<Rightarrow> string \<Rightarrow> string \<Rightarrow> auth_db \<Rightarrow> user \<Rightarrow> bool" where
  "login_user E email w s r \<longleftrightarrow> find (\<lambda>r. u_email r = email \<and> u_active r) (users s) = Some r \<and> (\<exists>h. u_hash r = Some h \<and> ae_match E h w)"

text \<open>What the user has in hand after a login that found him.\<close>

definition full_session :: "auth_env \<Rightarrow> int \<Rightarrow> user \<Rightarrow> member \<Rightarrow> AuthResponse \<Rightarrow> bool" where
  "full_session E t r m a \<longleftrightarrow> \<not> rs_mfa_required a \<and> (\<exists>c. ParseAccessToken E t (rs_access a) = Some c \<and>
     c_user c = u_id r \<and> c_org c = m_org m \<and> c_roles c = [m_role m] \<and> \<not> c_mfa c)"

definition pending_session :: "auth_env \<Rightarrow> int \<Rightarrow> user \<Rightarrow> member \<Rightarrow> AuthResponse \<Rightarrow> bool" where
  "pending_session E t r m a \<longleftrightarrow> rs_mfa_required a \<and> rs_access a = '''' \<and> rs_refresh a = '''' \<and>
     ParseMFAPendingToken E t (rs_mfa_token a) = (if u_id r = '''' then None else Some (u_id r, m_org m))"

lemma login_needs_password:
  assumes "run_state (Login E email w hint) s = (Inr a, t)"
  shows "\<exists>r. login_user E email w s r"
proof -
  obtain ok s0 where a: "run_state attempt s = (ok, s0)" by (cases "run_state attempt s")
  moreover have "users s0 = users s" using a by (auto simp: run_attempt split: list.splits)
  ultimately have s0: "run_state attempt s = (ok, s0)" "users s0 = users s" by blast+
  show ?thesis using assms unfolding Login_def
    by (simp add: run_simps s0 login_user_def split: option.splits if_splits prod.splits)
qed

text \<open>After the password: \<open>known\<close> says whether the lookup of the factor answered.\<close>

lemma run_recordLogin:
  assumes "faults s = []"
  obtains l where "run_state (recordLogin g u email agent source result) s = ((), s\<lparr>history := l\<rparr>)"
proof (cases "text_ok email \<and> text_ok agent")
  case True
  then show ?thesis using that assms by (simp add: recordLogin_def run_simps)
next
  case False
  then show ?thesis using that [of "history s"] by (auto simp: recordLogin_def run_simps)
qed

lemma login_session_outcome:
  assumes "good_auth E" "faults s = [] \<or> faults s = [False, True]"
  shows "\<exists>a t. run_state (login_session E r email (m_org m) (m_role m) hint) s = (Inr a, t) \<and>
    (if faults s = [] \<and> (\<exists>x. find (\<lambda>x. ts_user x = u_id r) (totps s) = Some x \<and> ts_enabled x) then pending_session E (now s) r m a else full_session E (now s) r m a)"
proof -
  define known where "known \<longleftrightarrow> faults s = []"
  define s1 where "s1 = s\<lparr>users := update_where (\<lambda>x. u_id x = u_id r) (\<lambda>x. x\<lparr>u_login := Some (now s)\<rparr>) (users s), faults := []\<rparr>"
  have f: "faults s1 = []" "now s1 = now s" "totps s1 = totps s" by (simp_all add: s1_def)
  define row where "row = find (\<lambda>x. ts_user x = u_id r) (totps s)"
  define login where "login s = s\<lparr>users := update_where (\<lambda>x. u_id x = u_id r) (\<lambda>x. x\<lparr>u_login := Some (now s)\<rparr>) (users s)\<rparr>" for s :: auth_db
  obtain s0 where e: "run_state (exec login) s = (True, s0)" "run_state (userHasMFAEnabled (u_id r)) s0 = (if known then Some (case row of None \<Rightarrow> False | Some x \<Rightarrow> ts_enabled x) else None, s1)"
    using assms(2) that [of "login (s\<lparr>faults := tl (faults s)\<rparr>)"]
    by (auto simp: userHasMFAEnabled_def exec_def run_simps run_attempt known_def row_def s1_def login_def)
  note mfa = e [unfolded login_def]
  show ?thesis
  proof (cases "known \<and> (\<exists>x. row = Some x \<and> ts_enabled x)")
    case True
    have "\<exists>a t. run_state (login_session E r email (m_org m) (m_role m) hint) s = (Inr a, t) \<and> pending_session E (now s) r m a"
    proof -
      have yes: "run_state (userHasMFAEnabled (u_id r)) s0 = (Some True, s1)" using True mfa(2) by auto
      define tok where "tok = ae_seal E (fresh s1) \<lparr>pt_iat = now s, pt_exp = now s + 300, pt_user = Some (u_id r), pt_org = Some (m_org m), pt_roles = None,
        pt_pw = None, pt_mfa = None, pt_pending = Some True\<rparr>"
      define s2 where "s2 = s1\<lparr>fresh := Suc (fresh s1)\<rparr>"
      have f2: "faults s2 = []" by (simp add: s2_def f)
      obtain l where l: "run_state (recordLogin (m_org m) (u_id r) email hint ''password'' ''mfa_pending'') s2 = ((), s2\<lparr>history := l\<rparr>)"
        by (rule run_recordLogin [OF f2])
      have "run_state (login_session E r email (m_org m) (m_role m) hint) s = (Inr \<lparr>rs_access = [], rs_refresh = [], rs_expires_in = 0,
          rs_user = None, rs_session = [], rs_csrf = [], rs_mfa_required = True, rs_mfa_token = tok\<rparr>, s2\<lparr>history := l\<rparr>)"
        using yes l f unfolding login_session_def
        by (simp add: run_simps mfa(1) IssueMFAPendingToken_def MFAPendingTTL_def tok_def s2_def)
      then show ?thesis using good_parse [OF assms(1)]
        by (auto simp: pending_session_def ParseMFAPendingToken_def tok_def)
    qed
    then show ?thesis using True by (auto simp: known_def row_def)
  next
    case False
    have "\<exists>a t. run_state (login_session E r email (m_org m) (m_role m) hint) s = (Inr a, t) \<and> full_session E (now s) r m a"
    proof -
      obtain x where no: "run_state (userHasMFAEnabled (u_id r)) s0 = (x, s1)" "x \<noteq> Some True"
        using False mfa(2) by (auto split: option.splits if_splits)
      obtain a t l n where i: "run_state (issueTokenPair E (u_id r) (m_org m) [m_role m] hint False) s1 = (Inr a, t)"
        "t = (put (refreshRedisKey E (rs_refresh a)) (RRefresh \<lparr>rp_user = u_id r, rp_org = m_org m, rp_roles = [m_role m], rp_mfa = False\<rparr>)
          (Some (now s1 + RefreshTokenTTL)) s1)\<lparr>fresh := n, sessions := l\<rparr>"
        "rs_access a = access_claims E (u_id r) (m_org m) [m_role m] False s1" "\<not> rs_mfa_required a"
        using run_issueTokenPair [OF f(1), of E "u_id r" "m_org m" "[m_role m]" hint False thesis] by blast
      have f2: "faults t = []" by (simp add: i(2) put_def f)
      obtain l' where l': "run_state (recordLogin (m_org m) (u_id r) email hint ''password'' ''ok'') t = ((), t\<lparr>history := l'\<rparr>)"
        by (rule run_recordLogin [OF f2])
      have "run_state (login_session E r email (m_org m) (m_role m) hint) s =
          (Inr (a\<lparr>rs_user := Some \<lparr>us_id = u_id r, us_email = email, us_name = display_name r, us_roles = [m_role m]\<rparr>\<rparr>), t\<lparr>history := l'\<rparr>)"
        using no l' i(1) unfolding login_session_def by (simp add: run_simps mfa(1))
      then show ?thesis using good_parse [OF assms(1)] i(4) f(2)
        by (auto simp: full_session_def ParseAccessToken_def i(3) access_claims_def)
    qed
    then show ?thesis using False by (auto simp: known_def row_def)
  qed
qed

lemma run_upgrade_hash:
  assumes "faults s = []"
  obtains n l where "run_state (upgrade_hash E u h w) s = ((), s\<lparr>fresh := n, users := l\<rparr>)"
proof -
  have "\<exists>n l. run_state (upgrade_hash E u h w) s = ((), s\<lparr>fresh := n, users := l\<rparr>)"
  proof -
    have same: "\<exists>n l. s = s\<lparr>fresh := n, users := l\<rparr>" "\<exists>n l. s\<lparr>fresh := k\<rparr> = s\<lparr>fresh := n, users := l\<rparr>" for k
      by (rule exI [of _ "fresh s"], rule exI [of _ "users s"], simp) (rule exI [of _ k], rule exI [of _ "users s"], simp)
    show ?thesis unfolding upgrade_hash_def using assms by (auto simp: run_simps same split: option.split)
  qed
  then show ?thesis using that by blast
qed

text \<open>C11: what a login is worth. Whatever fails, a login answers only to the password of an active user. While the stores
  answer, a user with an enabled factor gets nothing but a pending token, any other a session of the
  first membership, not marked as two-factor. But when only the lookup of the factor fails, a user with an
  enabled factor gets a full session on the password alone.\<close>

theorem login_factor:
  assumes "good_auth E"
  shows "(\<forall>a t. run_state (Login E email w hint) s = (Inr a, t) \<longrightarrow> (\<exists>r. login_user E email w s r)) \<and>
    (\<forall>r m ms. login_user E email w s r \<and> memberships (u_id r) s = m # ms \<longrightarrow>
      (faults s = [] \<longrightarrow> (\<exists>a t. run_state (Login E email w hint) s = (Inr a, t) \<and>
        (if \<exists>x. find (\<lambda>x. ts_user x = u_id r) (totps s) = Some x \<and> ts_enabled x then pending_session E (now s) r m a else full_session E (now s) r m a))) \<and>
      (faults s = [False, False, False, True] \<and> (\<forall>h c. u_hash r = Some h \<and> ae_cost E h = Some c \<longrightarrow> 12 \<le> c) \<longrightarrow>
        (\<exists>a t. run_state (Login E email w hint) s = (Inr a, t) \<and> full_session E (now s) r m a)))"
proof (intro conjI allI impI; (elim conjE)?)
  fix a t assume "run_state (Login E email w hint) s = (Inr a, t)"
  then show "\<exists>r. login_user E email w s r" by (rule login_needs_password)
next
  fix r m ms assume u: "login_user E email w s r" "memberships (u_id r) s = m # ms" and f: "faults s = []"
  obtain h where h: "find (\<lambda>r. u_email r = email \<and> u_active r) (users s) = Some r" "u_hash r = Some h" "ae_match E h w" using u(1) by (auto simp: login_user_def)
  obtain l n where up: "run_state (upgrade_hash E (u_id r) h w) s = ((), s\<lparr>fresh := n, users := l\<rparr>)" by (rule run_upgrade_hash [OF f])
  have "run_state (Login E email w hint) s = run_state (login_session E r email (m_org m) (m_role m) hint) (s\<lparr>fresh := n, users := l\<rparr>)"
    using f h u(2) up by (simp add: Login_def run_simps memberships_def)
  then show "\<exists>a t. run_state (Login E email w hint) s = (Inr a, t) \<and>
      (if \<exists>x. find (\<lambda>x. ts_user x = u_id r) (totps s) = Some x \<and> ts_enabled x then pending_session E (now s) r m a else full_session E (now s) r m a)"
    using login_session_outcome [OF assms, of "s\<lparr>fresh := n, users := l\<rparr>" r email m hint] f by (simp cong: if_cong)
next
  fix r m ms assume u: "login_user E email w s r" "memberships (u_id r) s = m # ms" and f: "faults s = [False, False, False, True]"
    and c: "\<forall>h c. u_hash r = Some h \<and> ae_cost E h = Some c \<longrightarrow> 12 \<le> c"
  obtain h where h: "find (\<lambda>r. u_email r = email \<and> u_active r) (users s) = Some r" "u_hash r = Some h" "ae_match E h w" using u(1) by (auto simp: login_user_def)
  have up: "upgrade_hash E (u_id r) h w = skip" using c h(2) by (auto simp: upgrade_hash_def split: option.split)
  have "run_state (Login E email w hint) s = run_state (login_session E r email (m_org m) (m_role m) hint) (s\<lparr>faults := [False, True]\<rparr>)"
    using f h u(2) up by (simp add: Login_def run_simps run_attempt memberships_def)
  then show "\<exists>a t. run_state (Login E email w hint) s = (Inr a, t) \<and> full_session E (now s) r m a"
    using login_session_outcome [OF assms, of "s\<lparr>faults := [False, True]\<rparr>" r email m hint] by simp
qed


lemma ann_logs_in: "login_user demo_auth ''a@b'' ''pw'' (demo_world l) ann" "memberships (u_id ann) (demo_world l) = [ann_member]"
  by (simp_all add: login_user_def memberships_def) (simp_all add: ann_def ann_member_def demo_auth_def)

lemma login_factor_witness:
  "(\<exists>a t. run_state (Login demo_auth ''a@b'' ''pw'' []) (demo_world []) = (Inr a, t) \<and> pending_session demo_auth 0 ann ann_member a) \<and>
   (\<exists>a t. run_state (Login demo_auth ''a@b'' ''pw'' []) (demo_world [False, False, False, True]) = (Inr a, t) \<and> full_session demo_auth 0 ann ann_member a)"
proof -
  have e: "\<exists>x. find (\<lambda>x. ts_user x = u_id ann) (totps (demo_world [])) = Some x \<and> ts_enabled x" by (simp add: demo_world_def ann_def)
  have c: "\<forall>h c. u_hash ann = Some h \<and> ae_cost demo_auth h = Some c \<longrightarrow> 12 \<le> c" by (simp add: demo_auth_def)
  note l = login_factor [OF demo_good, of "''a@b''" "''pw''" "[]", THEN conjunct2, rule_format, OF conjI [OF ann_logs_in]]
  show ?thesis using l [THEN conjunct1, of "[]"] l [THEN conjunct2, of "[False, False, False, True]"] e c by simp
qed

end
