(* ===== verification/Auth_Recovery.thy ===== *)
theory Auth_Recovery
  imports Auth_Login
begin

text \<open>
  What a reset link does (\<^verbatim>\<open>internal/auth/password_reset.go\<close>).
\<close>

text \<open>The passwords of the users, and the reset tokens.\<close>

definition passwords :: "'z auth_db_scheme \<Rightarrow> (string \<times> string option) list" where
  "passwords s = map (\<lambda>x. (u_id x, u_hash x)) (users s)"

lemma passwords_pw [simp]: "passwords (s\<lparr>users := update_where p (\<lambda>r. r\<lparr>u_pw := u_pw r + 1\<rparr>) (users s)\<rparr>) = passwords s"
  by (simp add: passwords_def map_update_where)

abbreviation unchanged :: "(string \<times> string option) list \<Rightarrow> reset_token list \<Rightarrow> auth_db \<Rightarrow> bool" where
  "unchanged P R \<equiv> (\<lambda>s. passwords s = P \<and> resets s = R)"

lemma unchanged_exec: "(\<And>s. passwords (f s) = passwords s) \<Longrightarrow> (\<And>s. resets (f s) = resets s) \<Longrightarrow> keeps (unchanged P R) (exec f)"
  by (rule keeps_exec) (simp_all add: passwords_def)

lemma unchanged_attempt: "keeps (unchanged P R) attempt"
  by (rule keeps_attempt) (simp add: passwords_def)

lemma unchanged_draw: "keeps (unchanged P R) (draw f)"
  by (rule keepsI) (simp add: wp_draw passwords_def)

lemma unchanged_bump: "keeps (unchanged P R) (bumpPwVersion u)"
  unfolding bumpPwVersion_def redis_set_def Let_def
  by (intro hoare_rules unchanged_exec) (auto simp: put_def incr_def passwords_def map_update_where split: option.split redis_value.split)

lemma unchanged_drop_refresh: "keeps (unchanged P R) (drop_refresh u)"
  unfolding drop_refresh_def redis_del_def Let_def
  by (intro hoare_rules unchanged_exec unchanged_attempt unchanged_draw) (simp_all add: passwords_def delete_sessions_def)

lemma bump_floor:
  assumes "faults s = []" "in_step u r s" "run_state (bumpPwVersion u) s = (b, t)"
  shows "b \<and> version_floor u (u_pw r + 1) t \<and> faults t = []"
proof -
  note i = assms(2) [unfolded in_step_def]
  have t: "b" "t = put (pwVersionKey u) (RNum (u_pw r + 1)) None (s\<lparr>users := update_where (\<lambda>r. u_id r = u) (\<lambda>r. r\<lparr>u_pw := u_pw r + 1\<rparr>) (users s)\<rparr>)"
    using find_update_id [of u s r] assms(1,3) i by (simp_all add: bumpPwVersion_def redis_set_def run_simps)
  have "x = r" if "x \<in> set (users s)" "u_id x = u" for x
    using that i user_row_in [of u s r] distinct_key [of u_id "users s" x r] by simp
  then have "\<forall>x \<in> set (update_where (\<lambda>r. u_id r = u) (\<lambda>r. r\<lparr>u_pw := u_pw r + 1\<rparr>) (users s)). u_id x = u \<longrightarrow> u_pw r + 1 \<le> u_pw x"
    unfolding set_update_where by fastforce
  moreover have "u \<in> u_id ` set (update_where (\<lambda>r. u_id r = u) (\<lambda>r. r\<lparr>u_pw := u_pw r + 1\<rparr>) (users s))"
    using i user_row_in [of u s r] by (auto simp: ids_update)
  ultimately show ?thesis using t i assms(1) by (simp add: version_floor_def put_def)
qed

text \<open>The transaction of a reset.\<close>

definition new_password :: "reset_token \<Rightarrow> string \<Rightarrow> auth_db \<Rightarrow> auth_db" where
  "new_password r h s = s\<lparr>users := update_where (\<lambda>x. u_id x = rt_user r) (\<lambda>x. x\<lparr>u_hash := Some h\<rparr>) (users s),
     resets := update_where (\<lambda>x. rt_id x = rt_id r) (\<lambda>x. x\<lparr>rt_used := Some (now s)\<rparr>) (resets s)\<rparr>"

lemma new_password_frame [simp]: "passwords (new_password r h s) = map (\<lambda>(i, w). (i, if i = rt_user r then Some h else w)) (passwords s)"
  "sessions (new_password r h s) = sessions s" "faults (new_password r h s) = faults s"
  by (simp_all add: new_password_def passwords_def update_where_def comp_def)

lemma new_password_in_step:
  assumes "in_step u x s" shows "\<exists>y. in_step u y (new_password r h s) \<and> u_pw y = u_pw x"
proof -
  have "find (\<lambda>r. u_id r = u) (update_where (\<lambda>x. u_id x = rt_user r) (\<lambda>x. x\<lparr>u_hash := Some h\<rparr>) (users s)) =
      Some (if u_id x = rt_user r then x\<lparr>u_hash := Some h\<rparr> else x)"
    using assms by (simp add: in_step_def user_row_def find_update_same)
  then show ?thesis using assms
    by (auto simp: in_step_def user_row_def new_password_def look_def map_update_where split: if_splits)
qed

lemma reset_cases:
  assumes "run_state (ResetPassword E raw new) s = (None, t)"
  obtains r h n s1 where "find (\<lambda>r. rt_hash r = ae_sha E raw) (resets s) = Some r" "rt_used r = None" "now s \<le> rt_expires r"
    "validatePasswordStrength E new" "ae_hash E n new = Some h" "passwords s1 = passwords s" "resets s1 = resets s" "now s1 = now s"
    "t = snd (run_state (do { _ \<leftarrow> bumpPwVersion (rt_user r); drop_refresh (rt_user r) }) (new_password r h s1))"
    "faults s = [] \<longrightarrow> s1 = s\<lparr>fresh := fresh s1\<rparr>"
proof -
  have frame: "passwords (snd (run_state attempt u)) = passwords u" "resets (snd (run_state attempt u)) = resets u"
    "now (snd (run_state attempt u)) = now u" "faults u = [] \<longrightarrow> snd (run_state attempt u) = u" for u :: auth_db
    by (simp_all add: run_attempt passwords_def split: list.split)
  define s0 where "s0 = (snd (run_state attempt s))\<lparr>fresh := Suc (fresh (snd (run_state attempt s)))\<rparr>"
  define s1 where "s1 = snd (run_state attempt s0)"
  have s1: "passwords s1 = passwords s" "resets s1 = resets s" "now s1 = now s" "faults s = [] \<longrightarrow> s1 = s\<lparr>fresh := fresh s1\<rparr>"
    using frame [of s] frame [of s0] by (auto simp: s1_def s0_def passwords_def)
  obtain r h where r: "find (\<lambda>r. rt_hash r = ae_sha E raw) (resets s) = Some r" "rt_used r = None" "now s \<le> rt_expires r"
      "validatePasswordStrength E new" "ae_hash E (fresh (snd (run_state attempt s))) new = Some h"
      "t = snd (run_state (do { _ \<leftarrow> bumpPwVersion (rt_user r); drop_refresh (rt_user r) }) (new_password r h s1))"
    using assms frame [of s] frame [of s0] unfolding ResetPassword_def exec_def s1_def s0_def new_password_def
    by (auto simp: run_simps split: prod.splits option.splits if_splits)
  show ?thesis by (rule that [OF r(1-5) s1(1-3) r(6) s1(4)])
qed



end
