(* ===== verification/Spec2Isabelle.thy ===== *)
theory Spec2Isabelle
  imports Renewal Billing_Lifecycle Audit_Integrity Auth_Recovery
begin

text \<open>
  A verification library of the licensing, billing, audit and authentication core of Vakt (\<^verbatim>\<open>src/backend/internal\<close>).

  \<^bold>\<open>The program.\<close> Vakt is self-hosted. The vendor runs a billing instance: customers order through a public
  form or are entered by hand, the operator approves, the bookkeeping service Lexware gets a contact and an invoice,
  a payment event or a poll settles the invoice, and the billing instance signs a licence key that runs to the end
  of the paid period plus grace. The customer's installation verifies the key with the built-in
  public key, gates its features by it, and close to the end fetches a newer key from the billing instance with
  the renewal token that is inside the key. Billing keeps its state in four PostgreSQL tables; an installation keeps
  one licence in memory, one row per organisation in \<^verbatim>\<open>license_keys\<close>, and a Redis cache. Its users log in with a
  password and a second factor; access tokens are sealed and stateless, and are revoked by a version counter
  per user kept in PostgreSQL and mirrored in Redis; refresh tokens live in Redis, with a row each for the listing.

  \<^bold>\<open>Shared theories.\<close>
  \<^item> \<^verbatim>\<open>Prelude\<close>: Go's strings (trim, case, prefix), decimal numerals, table updates by condition.
  \<^item> \<^verbatim>\<open>Effects\<close>: handlers as programs of the state monad over a record that holds, beside the
    tables, a tape of injected faults. Each statement that can fail for a reason outside the code consumes an
    entry; a theorem for every tape is a theorem for every pattern of failures. \<open>wp\<close>, \<open>keeps\<close> and \<open>reads\<close> are the
    program logic; the locale \<open>machine\<close> is a start predicate, a step relation and an invariant, with the lemmas on
    reachable states.
  \<^item> \<^verbatim>\<open>Go_Time\<close>: instants in seconds, the civil calendar, \<^verbatim>\<open>AddDate\<close>, the two layouts used.

  \<^bold>\<open>The installation\<close> (\<^verbatim>\<open>license/\<close>, \<^verbatim>\<open>shared/platform/features\<close>).
  \<^item> \<^verbatim>\<open>License_Core\<close>: feature lists, licence record, the read/write decision \<open>Allows\<close>.
  \<^item> \<^verbatim>\<open>License_Key\<close>: \<open>parse\<close>, \<open>signWith\<close>, the signature layout, base64 (locale \<open>byte_codec\<close>, interpreted by it).
  \<^item> \<^verbatim>\<open>License_Gate\<close>: instance licence, Redis cache, \<open>DBMiddleware\<close>, \<open>Require\<close>, the guards of the activation route.
  \<^item> \<^verbatim>\<open>License_Instance\<close>: activation and the renewal loop; the whole installation as a machine (\<open>host_step\<close>).

  \<^bold>\<open>The billing instance\<close> (\<^verbatim>\<open>billing/lexware\<close>, \<^verbatim>\<open>licensing\<close>, \<^verbatim>\<open>portal\<close>, part of \<^verbatim>\<open>admin\<close>).
  \<^item> \<^verbatim>\<open>Billing_Plans\<close> (\<^verbatim>\<open>plans.go\<close>), \<^verbatim>\<open>Billing_Tax\<close> (\<^verbatim>\<open>tax.go\<close>, \<^verbatim>\<open>vies.go\<close>, \<^verbatim>\<open>admin/tax.go\<close>): pure price, period and
    tax rules; 64-bit amounts wrap as in Go.
  \<^item> \<^verbatim>\<open>Billing_Licensing\<close> (\<^verbatim>\<open>service.go\<close>, \<^verbatim>\<open>mailhdr.go\<close>): issuing keys, the mail with its headers.
  \<^item> \<^verbatim>\<open>Billing_Lexware\<close> (\<^verbatim>\<open>client.go\<close>, \<^verbatim>\<open>types.go\<close>): the client; the service itself is part of the world.
  \<^item> \<^verbatim>\<open>Billing_Store\<close> (\<^verbatim>\<open>db/migrations/233-245\<close>): rows and constraints, the deployment record (everything outside the
    repository: random bytes, UUIDs, hash, address parser, signing), the world, and \<open>ledger_ok\<close>, the invariant
    of the tables.
  \<^item> \<^verbatim>\<open>Billing_Entitlement\<close> (\<^verbatim>\<open>entitlement.go\<close>), \<^verbatim>\<open>Billing_Seats\<close> (\<^verbatim>\<open>seats.go\<close>, \<^verbatim>\<open>portal.go\<close>), \<^verbatim>\<open>Billing_Orders\<close>
    (ordering and approval in \<^verbatim>\<open>handler.go\<close>, \<^verbatim>\<open>free.go\<close>, \<^verbatim>\<open>actions.go\<close>), \<^verbatim>\<open>Billing_Cycle\<close> (payment, renewal,
    cancellation), \<^verbatim>\<open>Billing_Keys\<close> (the renewal endpoint, mails of expiring keys), \<^verbatim>\<open>Billing_Actions\<close> (what the
    operator does by hand), \<^verbatim>\<open>Billing_Reconcile\<close> (comparison with the service, figures).
  \<^item> \<^verbatim>\<open>Billing_Machine\<close>: all of these handlers as one machine (\<open>vendor_step\<close>) and the invariant of its reachable
    states. \<^verbatim>\<open>Billing_Lifecycle\<close>: the abstract life of a subscription that this machine refines.

  \<^bold>\<open>Both together.\<close> \<^verbatim>\<open>Renewal\<close>: a check of an installation (\<^verbatim>\<open>autorefresh.go\<close>) against the renewal endpoint of the
  billing instance, with the HTTP exchange between them.

  \<^bold>\<open>The audit log\<close> (\<^verbatim>\<open>shared/audit\<close>, \<^verbatim>\<open>shared/retention\<close>).
  \<^item> \<^verbatim>\<open>Go_Text\<close>: hexadecimal, UTF-8 and JSON strings, with the locale \<open>prefix_code\<close> for codes that can be read back.
  \<^item> \<^verbatim>\<open>Audit_Chain\<close> (\<^verbatim>\<open>chain.go\<close>): the canonical text of an entry and its hash.
  \<^item> \<^verbatim>\<open>Audit_Log\<close> (\<^verbatim>\<open>writer.go\<close>, \<^verbatim>\<open>audit.go\<close>, \<^verbatim>\<open>verify.go\<close>, \<^verbatim>\<open>partitions.go\<close>): the table and its operations.
  \<^item> \<^verbatim>\<open>Audit_Integrity\<close>: the log as a machine (\<open>audit_step\<close>) that keeps its chains, what a verified chain proves, what
    the retention of partitions does to it.

  \<^bold>\<open>Authentication\<close> (\<^verbatim>\<open>auth\<close>, \<^verbatim>\<open>shared/apikeys\<close>).
  \<^item> \<^verbatim>\<open>Auth_Core\<close> (\<^verbatim>\<open>tokens.go\<close>): tokens, tables, Redis with expiries, the deployment record; \<^verbatim>\<open>Auth_Demo\<close>: a deployment that
    meets its laws, for the examples.
  \<^item> \<^verbatim>\<open>Auth_Session\<close> (\<^verbatim>\<open>service.go\<close>, \<^verbatim>\<open>deny_list.go\<close>, \<^verbatim>\<open>session_handler.go\<close>, login and logout in \<^verbatim>\<open>handler.go\<close>),
    \<^verbatim>\<open>Auth_Gate\<close> (\<^verbatim>\<open>middleware.go\<close>, \<^verbatim>\<open>csrf.go\<close>, \<^verbatim>\<open>module_permission_middleware.go\<close>, the API keys), \<^verbatim>\<open>Auth_Factor\<close>
    (\<^verbatim>\<open>totp_handler.go\<close>, \<^verbatim>\<open>totp.go\<close>, \<^verbatim>\<open>recovery_codes.go\<close>), \<^verbatim>\<open>Auth_Reset\<close> (\<^verbatim>\<open>password_reset.go\<close>, \<^verbatim>\<open>jobs.go\<close>).
  \<^item> \<^verbatim>\<open>Auth_Access\<close>: tokens, sessions and API keys at the middleware. \<^verbatim>\<open>Auth_Machine\<close>: all operations as steps
    (\<open>auth_step\<close>) and the locale \<open>auth_world\<close>, which says what an invariant has to stand so that every operation
    keeps it. \<^verbatim>\<open>Auth_Revoke\<close>: its two interpretations, the version of a user and the mark of a used code.
    \<^verbatim>\<open>Auth_Limits\<close>, \<^verbatim>\<open>Auth_Login\<close>, \<^verbatim>\<open>Auth_Recovery\<close>: one-time codes, logins and lockout, reset links.

  \<^bold>\<open>How the code is translated.\<close> A handler is one definition with its guards in the order of the code; an early
  return is a branch; an error or an HTTP answer is a constructor; a log line is dropped. A SQL statement is a
  function on the lists of rows, with the defaults and constraints of the migrations. A loop over rows is
  \<open>for_each\<close> over the rows the query returned; \<open>received\<close> lets the transmission stop early, as the code never looks
  at \<^verbatim>\<open>rows.Err()\<close>. A transaction that fails restores the tables. Handlers are atomic: two requests do
  not interleave inside one handler, but they come in any order.

  \<^bold>\<open>Bounds and fuel.\<close> \<open>Invoices\<close> has the code's own limit of 20 pages. The renewal loop \<open>Start\<close> of an installation
  runs for a given number of ticks and the properties hold for every number. The chunking
  of a mail and base64 recurse on the input with measures. Nothing else needs fuel.

  \<^bold>\<open>What is shown.\<close> Keys: only what the vendor signed is honoured, and what is signed is read back.
  The gate: its decision table, no lock-out of reads after expiry, a bounded staleness of the cache. Renewal on
  the installation: when it calls, what an outage does, what activation does in every branch. Prices, periods and
  taxes: exact to the cent without overflow. Mails: no injected header. Orders, approval, payment,
  renewal, the endpoint, the portal, conversion and reconciliation: what each handler may change, under every
  pattern of failures, and that the ledger stays consistent. The machine: that holds in every reachable
  state, and rows only go forward in their life. The audit log: its canonical text is injective, serialised
  writers keep the chain verifiable, tampering shows, and retention by partition breaks the chain. Authentication: what
  a session, an API key and a login rest on, how often a password is tried, what stays revoked or spent in every later
  state, and five ways in which the code falls short of that.

  \<^bold>\<open>Not modelled.\<close> ECDSA, SHA-256, PEM and reading JSON (parameters whose documented laws are the hypotheses \<open>good_crypto\<close>
  and \<open>good_deployment\<close>, which example deployments meet), PASETO, bcrypt and the check of a time-based code (\<open>good_auth\<close>); HTTP
  framing, templates, logging; the operator panel's login; single sign-on; eviction from Redis, which the shipped
  configuration allows under memory pressure (the steps of \<open>auth_step\<close> have none; what it does to the version
  counter is shown on its own); timeouts of background sweeps; and the other modules of the program (compliance, scanning,
  secrets, privacy, awareness, HR, services), which are mainly SQL access, catalogues and adapters, and
  are listed in the manifest.
\<close>

end
